(* ===== verification/Prelude.thy ===== *)
theory Prelude
  imports Complex_Main "HOL-Library.Word" "HOL-Library.Char_ord" "HOL-Library.List_Lexorder"
    "HOL-Library.AList"
begin

text \<open>
  The vocabulary every component shares: how Go values are represented, and the generic facts the
  component theories rely on.

  \<^item> A Go string or byte slice is a \<^typ>\<open>string\<close>: a list of 8-bit characters, so lengths and
    indices count bytes as Go's do. The case maps and \<open>TrimSpace\<close> are the standard library's on
    ASCII text and leave bytes from 0x80 on alone.
  \<^item> A Go map is an association list whose order is the (unspecified) iteration order; lookup is
    \<^const>\<open>map_of\<close> and assignment \<^const>\<open>AList.update\<close>. A statement about every list with
    the same lookup function is a statement about every iteration order.
  \<^item> A \<open>float64\<close> is NaN, an infinity or a rational; comparisons follow IEEE 754 (every comparison
    with NaN is false). The sign of a zero is not represented.
  \<^item> An \<open>error\<close> is its message together with the sentinels \<open>errors.Is\<close> and \<open>errors.As\<close> can
    find in its tree, in the order the tree is searched.
\<close>

section \<open>Collections of facts\<close>

named_theorems go_simps \<open>evaluation rules for the string and map helpers\<close>
named_theorems f64_simps \<open>comparison rules for float64 values\<close>

section \<open>Strings\<close>

definition lower_char :: "char \<Rightarrow> char" where
  "lower_char c = (let n = of_char c :: nat in if 65 \<le> n \<and> n \<le> 90 then char_of (n + 32) else c)"

definition upper_char :: "char \<Rightarrow> char" where
  "upper_char c = (let n = of_char c :: nat in if 97 \<le> n \<and> n \<le> 122 then char_of (n - 32) else c)"

definition ToLower :: "string \<Rightarrow> string" where
  "ToLower s = map lower_char s"

definition ToUpper :: "string \<Rightarrow> string" where
  "ToUpper s = map upper_char s"

definition is_space :: "char \<Rightarrow> bool" where
  "is_space c = (let n = of_char c :: nat in n = 32 \<or> 9 \<le> n \<and> n \<le> 13)"

definition TrimSpace :: "string \<Rightarrow> string" where
  "TrimSpace s = rev (dropWhile is_space (rev (dropWhile is_space s)))"

definition HasPrefix :: "string \<Rightarrow> string \<Rightarrow> bool" where
  "HasPrefix s p \<longleftrightarrow> take (length p) s = p"

definition HasSuffix :: "string \<Rightarrow> string \<Rightarrow> bool" where
  "HasSuffix s p \<longleftrightarrow> HasPrefix (rev s) (rev p)"

fun Contains :: "string \<Rightarrow> string \<Rightarrow> bool" where
  "Contains [] p \<longleftrightarrow> p = []"
| "Contains (c # s) p \<longleftrightarrow> HasPrefix (c # s) p \<or> Contains s p"

fun IndexByte :: "string \<Rightarrow> char \<Rightarrow> nat option" where
  "IndexByte [] b = None"
| "IndexByte (c # s) b = (if c = b then Some 0 else map_option Suc (IndexByte s b))"

fun Join :: "string list \<Rightarrow> string \<Rightarrow> string" where
  "Join [] sep = []"
| "Join [s] sep = s"
| "Join (s # t # ss) sep = s @ sep @ Join (t # ss) sep"

fun SplitByte :: "string \<Rightarrow> char \<Rightarrow> string list" where
  "SplitByte [] b = [[]]"
| "SplitByte (c # s) b =
     (if c = b then [] # SplitByte s b
      else case SplitByte s b of [] \<Rightarrow> [[c]] | w # ws \<Rightarrow> (c # w) # ws)"

definition TrimSuffix :: "string \<Rightarrow> string \<Rightarrow> string" where
  "TrimSuffix s p = (if HasSuffix s p then take (length s - length p) s else s)"

fun show_nat :: "nat \<Rightarrow> string" where
  "show_nat n = (if n < 10 then [char_of (48 + n)] else show_nat (n div 10) @ [char_of (48 + n mod 10)])"

declare show_nat.simps [simp del]

definition show_int :: "int \<Rightarrow> string" where
  "show_int i = (if i < 0 then ''-'' @ show_nat (nat (- i)) else show_nat (nat i))"

definition emDash :: string where "emDash = [CHR 0xE2, CHR 0x80, CHR 0x94]"

section \<open>Floating-point values\<close>

datatype float64 = NaN | NegInf | Fin rat | PosInf

fun f64_lt :: "float64 \<Rightarrow> float64 \<Rightarrow> bool" where
  "f64_lt NaN y = False"
| "f64_lt x NaN = False"
| "f64_lt (Fin a) (Fin b) = (a < b)"
| "f64_lt NegInf y = (y \<noteq> NegInf)"
| "f64_lt x NegInf = False"
| "f64_lt (Fin a) PosInf = True"
| "f64_lt PosInf y = False"

definition f64_le :: "float64 \<Rightarrow> float64 \<Rightarrow> bool" where
  "f64_le x y \<longleftrightarrow> f64_lt x y \<or> x = y \<and> x \<noteq> NaN"

section \<open>Errors\<close>

text \<open>
  The sentinels and error types of the program. \<open>HTTPErr\<close> is \<open>moderate.HTTPError\<close> with its status
  and provider code, \<open>TerminalErr\<close> is \<open>fetch.terminalErr\<close>; the two context errors belong to the
  standard library.
\<close>

datatype sentinel =
    ErrRetryable
  | ErrDeliveryFailed
  | ErrAttemptsExhausted
  | ErrEmptyVideoSkipped
  | ErrQueueClosed
  | ErrDeadLetterFull
  | ErrQueueFull
  | TerminalErr
  | HTTPErr int string
  | DeadlineExceeded
  | Canceled

record goerr =
  emsg :: string
  etree :: "sentinel list"

definition errorf :: "string \<Rightarrow> goerr" where
  "errorf m = \<lparr>emsg = m, etree = []\<rparr>"

definition sentinelErr :: "sentinel \<Rightarrow> string \<Rightarrow> goerr" where
  "sentinelErr s m = \<lparr>emsg = m, etree = [s]\<rparr>"

text \<open>\<open>fmt.Errorf(prefix + "%w", e)\<close>, and the two-verb form that wraps two errors.\<close>

definition wrapf :: "string \<Rightarrow> goerr \<Rightarrow> goerr" where
  "wrapf p e = e\<lparr>emsg := p @ emsg e\<rparr>"

definition wrap2 :: "goerr \<Rightarrow> string \<Rightarrow> goerr \<Rightarrow> goerr" where
  "wrap2 a mid b = \<lparr>emsg = emsg a @ mid @ emsg b, etree = etree a @ etree b\<rparr>"

definition errorsIs :: "goerr \<Rightarrow> sentinel \<Rightarrow> bool" where
  "errorsIs e s \<longleftrightarrow> s \<in> set (etree e)"

type_synonym 'a res = "goerr + 'a"

text \<open>What a call that may panic gives back.\<close>

datatype 'a call = Ret 'a | Panicked string

section \<open>Shared lemmas\<close>

text \<open>Unfolds the string helpers on literals down to character equalities.\<close>

lemmas string_eval =
  ToLower_def ToUpper_def TrimSpace_def is_space_def lower_char_def upper_char_def char_of_def
  HasPrefix_def HasSuffix_def TrimSuffix_def Let_def bit_0 bit_Suc_0_iff

lemma HasPrefix_append [simp, go_simps]: "HasPrefix (p @ s) p"
  by (simp add: HasPrefix_def)

lemma HasPrefix_iff: "HasPrefix s p \<longleftrightarrow> (\<exists>t. s = p @ t)"
  by (metis HasPrefix_append HasPrefix_def append_take_drop_id)

lemma Contains_iff: "Contains s p \<longleftrightarrow> (\<exists>a b. s = a @ p @ b)"
proof (induction s)
  case Nil
  then show ?case by auto
next
  case (Cons c s)
  have "(\<exists>a b. c # s = a @ p @ b) \<longleftrightarrow> (\<exists>b. c # s = p @ b) \<or> (\<exists>a b. s = a @ p @ b)"
    by (metis append_Cons append_Nil list.exhaust list.inject)
  with Cons show ?case by (simp add: HasPrefix_iff)
qed

lemma of_char_less_256 [simp]: "(of_char c :: nat) < 256"
  by (metis nat_of_char_less_256)

lemma lower_char_idem [simp]: "lower_char (lower_char c) = lower_char c"
  by (simp add: lower_char_def Let_def)

lemma ToLower_idem [simp]: "ToLower (ToLower s) = ToLower s"
  by (simp add: ToLower_def)

lemma f64_lt_irrefl [simp, f64_simps]: "\<not> f64_lt x x"
  by (cases x) auto

lemma f64_lt_NaN [simp, f64_simps]: "\<not> f64_lt NaN y" "\<not> f64_lt y NaN"
  by (cases y; simp)+

lemma f64_le_NaN [simp, f64_simps]: "\<not> f64_le NaN y" "\<not> f64_le y NaN"
  by (auto simp: f64_le_def)

lemma f64_le_refl [f64_simps]: "x \<noteq> NaN \<Longrightarrow> f64_le x x"
  by (simp add: f64_le_def)

lemma f64_lt_trans: "f64_lt x y \<Longrightarrow> f64_lt y z \<Longrightarrow> f64_lt x z"
  by (cases x; cases y; cases z) auto

lemma f64_le_trans: "f64_le x y \<Longrightarrow> f64_le y z \<Longrightarrow> f64_le x z"
  by (auto simp: f64_le_def intro: f64_lt_trans)

lemma f64_not_lt: "x \<noteq> NaN \<Longrightarrow> y \<noteq> NaN \<Longrightarrow> \<not> f64_lt x y \<longleftrightarrow> f64_le y x"
  by (cases x; cases y) (auto simp: f64_le_def)

lemma f64_Fin_le [simp, f64_simps]: "f64_le (Fin a) (Fin b) \<longleftrightarrow> a \<le> b"
  by (auto simp: f64_le_def)

lemma errorsIs_wrapf [simp]: "errorsIs (wrapf p e) s = errorsIs e s"
  by (simp add: errorsIs_def wrapf_def)

lemma errorsIs_wrap2 [simp]: "errorsIs (wrap2 a m b) s \<longleftrightarrow> errorsIs a s \<or> errorsIs b s"
  by (auto simp: errorsIs_def wrap2_def)

lemma errorsIs_errorf [simp]: "\<not> errorsIs (errorf m) s"
  by (simp add: errorsIs_def errorf_def)

lemma errorsIs_sentinelErr [simp]: "errorsIs (sentinelErr t m) s \<longleftrightarrow> s = t"
  by (auto simp: errorsIs_def sentinelErr_def)

lemma map_of_rev_distinct: "distinct (map fst xs) \<Longrightarrow> map_of (rev xs) = map_of xs"
  by (rule map_of_eqI) (auto simp: rev_map[symmetric] distinct_map)

lemma filter_key_one:
  "distinct (map f xs) \<Longrightarrow> k \<in> f ` set xs \<Longrightarrow> length (filter (\<lambda>x. f x = k) xs) = 1"
proof (induction xs)
  case (Cons x xs)
  show ?case
  proof (cases "f x = k")
    case True
    then have "filter (\<lambda>x. f x = k) xs = []" using Cons.prems(1) by (auto simp: filter_empty_conv intro: rev_image_eqI)
    then show ?thesis using True by simp
  qed (use Cons in auto)
qed simp

text \<open>Trimming and folding case commute, so a string both were applied to is a fixed point of both.\<close>

lemma is_space_case [simp]: "is_space (lower_char c) = is_space c" "is_space (upper_char c) = is_space c"
  by (auto simp: is_space_def lower_char_def upper_char_def Let_def)

lemma upper_char_idem [simp]: "upper_char (upper_char c) = upper_char c"
proof (cases "97 \<le> (of_char c :: nat) \<and> of_char c \<le> (122 :: nat)")
  case True
  then have "((of_char c :: nat) - 32) mod 256 = of_char c - 32" by (intro mod_less) linarith
  moreover have "\<not> 97 \<le> (of_char c :: nat) - 32" using True by linarith
  ultimately show ?thesis using True by (simp add: upper_char_def Let_def)
next
  case False
  then have "upper_char c = c" unfolding upper_char_def Let_def by (rule if_not_P)
  then show ?thesis by simp
qed

lemma TrimSpace_map: "(\<And>c. is_space (f c) = is_space c) \<Longrightarrow> TrimSpace (map f s) = map f (TrimSpace s)"
  by (simp add: TrimSpace_def dropWhile_map comp_def rev_map)

lemma TrimSpace_idem [simp]: "TrimSpace (TrimSpace s) = TrimSpace s"
proof -
  let ?t = "dropWhile is_space s"
  let ?u = "rev (dropWhile is_space (rev ?t))"
  have t: "?t = ?u @ rev (takeWhile is_space (rev ?t))"
    by (metis rev_append rev_rev_ident takeWhile_dropWhile_id)
  have "dropWhile is_space ?u = ?u"
  proof (cases "?u")
    case (Cons c cs)
    then have "?t = c # cs @ rev (takeWhile is_space (rev ?t))" using t by (metis append_Cons)
    then have "\<not> is_space c" using hd_dropWhile [of is_space s] by (metis list.distinct(1) list.sel(1))
    then show ?thesis using Cons by simp
  next
    case Nil
    show ?thesis by (simp only: Nil dropWhile.simps)
  qed
  moreover have "dropWhile is_space (rev ?u) = rev ?u" by simp
  ultimately show ?thesis by (simp add: TrimSpace_def)
qed

lemma fold_case_idem [simp]:
  "ToLower (TrimSpace (ToLower (TrimSpace s))) = ToLower (TrimSpace s)"
  "ToUpper (TrimSpace (ToUpper (TrimSpace s))) = ToUpper (TrimSpace s)"
  by (simp_all add: ToLower_def ToUpper_def TrimSpace_map)

lemma update_append: "k \<notin> fst ` set al \<Longrightarrow> AList.update k v al = al @ [(k, v)]"
  by (induction al) auto

end
