(* ===== verification/Moderation.thy ===== *)
theory Moderation
  imports Prelude
begin

text \<open>
  The public contract of \<open>pkg/moderation\<close>: the category taxonomy, the result schema every adapter maps
  into, and the retry marker on errors. \<open>Category\<close>, \<open>ScoreOrigin\<close> and \<open>FrameStatus\<close> are open string
  types in the code and stay strings here; \<open>Verdict\<close> is only ever produced by the rollup and is a
  datatype with its wire form as a function. A nil pointer is \<open>None\<close>.
\<close>

section \<open>Types (pkg/moderation/types.go)\<close>

datatype Verdict = VerdictAllow | VerdictFlag | VerdictBlock | VerdictError

fun verdict_string :: "Verdict \<Rightarrow> string" where
  "verdict_string VerdictAllow = ''allow''"
| "verdict_string VerdictFlag = ''flag''"
| "verdict_string VerdictBlock = ''block''"
| "verdict_string VerdictError = ''error''"

type_synonym Category = string
type_synonym ScoreOrigin = string
type_synonym FrameStatus = string

abbreviation "CategorySexual \<equiv> ''SEXUAL''"
abbreviation "CategorySuggestiveRacy \<equiv> ''SUGGESTIVE_RACY''"
abbreviation "CategoryViolence \<equiv> ''VIOLENCE''"
abbreviation "CategoryGoreGraphic \<equiv> ''GORE_GRAPHIC''"
abbreviation "CategoryWeapons \<equiv> ''WEAPONS''"
abbreviation "CategorySelfHarm \<equiv> ''SELF_HARM''"
abbreviation "CategoryHate \<equiv> ''HATE''"
abbreviation "CategoryDrugs \<equiv> ''DRUGS''"
abbreviation "CategoryAlcoholTobacco \<equiv> ''ALCOHOL_TOBACCO''"
abbreviation "CategoryGambling \<equiv> ''GAMBLING''"
abbreviation "CategoryOffensiveGesture \<equiv> ''OFFENSIVE_GESTURE''"
abbreviation "CategoryMedical \<equiv> ''MEDICAL''"
abbreviation "CategorySpoof \<equiv> ''SPOOF''"
abbreviation "CategoryAnimatedSynthetic \<equiv> ''ANIMATED_SYNTHETIC''"
abbreviation "CategoryOther \<equiv> ''OTHER''"

definition canonicalCategories :: "Category list" where
  "canonicalCategories =
     [CategorySexual, CategorySuggestiveRacy, CategoryViolence, CategoryGoreGraphic,
      CategoryWeapons, CategorySelfHarm, CategoryHate, CategoryDrugs, CategoryAlcoholTobacco,
      CategoryGambling, CategoryOffensiveGesture, CategoryMedical, CategorySpoof,
      CategoryAnimatedSynthetic, CategoryOther]"

definition Canonicalize :: "Category \<Rightarrow> Category" where
  "Canonicalize c = (if c \<in> set canonicalCategories then c else CategoryOther)"

abbreviation "OriginProbability \<equiv> ''probability''"
abbreviation "OriginConfidencePct \<equiv> ''confidence_pct''"
abbreviation "OriginLikelihoodEnum \<equiv> ''likelihood_enum''"
abbreviation "OriginSeverity \<equiv> ''severity''"

abbreviation "FrameOK \<equiv> ''ok''"
abbreviation "FrameError \<equiv> ''error''"

record CategoryResult =
  crCategory :: Category
  ProviderLabel :: string
  Score :: "float64 option"
  crScoreOrigin :: ScoreOrigin
  Threshold :: "float64 option"
  Flagged :: bool

record FrameResult =
  TimestampSec :: "float64 option"
  Status :: FrameStatus
  frError :: string
  Categories :: "CategoryResult list"

record OverallVerdict =
  ovVerdict :: Verdict
  ovFlagged :: bool
  TopCategory :: "Category option"
  MaxScore :: "float64 option"
  Confidence :: "float64 option"

text \<open>\<open>Raw\<close> is a \<open>json.RawMessage\<close>: the empty byte string stands for nil and for an empty slice,
  which every reader of the field treats alike.\<close>

record NormalizedResult =
  nrSchemaVersion :: string
  Provider :: string
  nrModelVersion :: string
  nrMediaType :: string
  AssetID :: string
  nrFrames :: "FrameResult list"
  Overall :: OverallVerdict
  Raw :: string

record Image =
  Bytes :: string
  MIME :: string

record Caps =
  SupportsVideo :: bool
  MaxImageBytes :: int
  capCategories :: "Category list"

record Source =
  Kind :: string
  Ref :: string
  RefDigest :: string
  srcMediaType :: string

abbreviation SchemaVersion :: string where
  "SchemaVersion \<equiv> ''1.2.0''"

text \<open>The zero values Go gives an unset struct.\<close>

definition zeroOverall :: OverallVerdict where
  "zeroOverall = \<lparr>ovVerdict = VerdictError, ovFlagged = False, TopCategory = None,
     MaxScore = None, Confidence = None\<rparr>"

definition zeroFrame :: FrameResult where
  "zeroFrame = \<lparr>TimestampSec = None, Status = [], frError = [], Categories = []\<rparr>"

definition zeroResult :: NormalizedResult where
  "zeroResult = \<lparr>nrSchemaVersion = [], Provider = [], nrModelVersion = [], nrMediaType = [],
     AssetID = [], nrFrames = [], Overall = zeroOverall, Raw = []\<rparr>"

section \<open>The retry marker (pkg/moderation/errors.go)\<close>

definition Retryable :: "goerr option \<Rightarrow> goerr option" where
  "Retryable e =
     (case e of None \<Rightarrow> None
      | Some x \<Rightarrow> Some (wrap2 (sentinelErr ErrRetryable ''retryable'') '': '' x))"

definition IsRetryable :: "goerr option \<Rightarrow> bool" where
  "IsRetryable e = (case e of None \<Rightarrow> False | Some x \<Rightarrow> errorsIs x ErrRetryable)"

section \<open>Facts\<close>

lemma Canonicalize_in: "Canonicalize c \<in> set canonicalCategories"
  by (simp add: Canonicalize_def canonicalCategories_def)

lemma Canonicalize_id: "c \<in> set canonicalCategories \<Longrightarrow> Canonicalize c = c"
  by (simp add: Canonicalize_def)

lemma Canonicalize_idem [simp]: "Canonicalize (Canonicalize c) = Canonicalize c"
  by (rule Canonicalize_id) (rule Canonicalize_in)

lemma Canonicalize_fixpoint: "Canonicalize c = c \<longleftrightarrow> c \<in> set canonicalCategories"
  by (metis Canonicalize_id Canonicalize_in)

lemma inj_verdict_string: "verdict_string v = verdict_string w \<longleftrightarrow> v = w"
  by (cases v; cases w) auto

lemma IsRetryable_Retryable: "IsRetryable (Retryable e) \<longleftrightarrow> e \<noteq> None"
  by (cases e) (auto simp: IsRetryable_def Retryable_def)

lemma Retryable_keeps:
  "Retryable (Some x) = Some y \<Longrightarrow> errorsIs x s \<Longrightarrow> errorsIs y s"
  by (auto simp: Retryable_def)

end
