(* ===== verification/Sha256.thy ===== *)
theory Sha256
  imports Prelude
begin

text \<open>
  The pieces of the standard library the digests of the program rest on: \<open>crypto/sha256\<close> (FIPS 180-4),
  \<open>encoding/hex\<close> and the big-endian integers of \<open>encoding/binary\<close>, on byte strings. SHA-256 is
  written out so that a digest is the digest the program computes. Theorems
  about digests never assume it injective: they conclude that two inputs are equal or that they are an
  explicit collision.
\<close>

unbundle bit_operations_syntax

section \<open>Big-endian integers and hexadecimal\<close>

definition be_bytes :: "nat \<Rightarrow> int \<Rightarrow> string" where
  "be_bytes k n = map (\<lambda>i. char_of (n div 256 ^ i)) (rev [0..<k])"

definition be64 :: "64 word \<Rightarrow> string" where
  "be64 w = be_bytes 8 (uint w)"

definition of_be :: "string \<Rightarrow> int" where
  "of_be s = foldl (\<lambda>a c. a * 256 + of_char c) 0 s"

definition hex_digit :: "nat \<Rightarrow> char" where
  "hex_digit n = char_of (if n < 10 then 48 + n else 87 + n)"

definition hex_encode :: "string \<Rightarrow> string" where
  "hex_encode s = concat (map (\<lambda>c. let n = of_char c :: nat in [hex_digit (n div 16), hex_digit (n mod 16)]) s)"

definition hex_value :: "char \<Rightarrow> nat option" where
  "hex_value c =
     (let n = of_char c :: nat in
      if 48 \<le> n \<and> n \<le> 57 then Some (n - 48)
      else if 97 \<le> n \<and> n \<le> 102 then Some (n - 87)
      else if 65 \<le> n \<and> n \<le> 70 then Some (n - 55)
      else None)"

text \<open>\<open>hex.DecodeString\<close>: an odd length or a byte that is no hex digit is an error. The bytes decoded
  before the error are what the function returns beside it, as the callers that ignore the error see.\<close>

fun hex_decode :: "string \<Rightarrow> string \<times> bool" where
  "hex_decode [] = ([], True)"
| "hex_decode [c] = ([], False)"
| "hex_decode (a # b # s) =
     (case (hex_value a, hex_value b) of
        (Some x, Some y) \<Rightarrow>
          (let (r, ok) = hex_decode s in (char_of (x * 16 + y) # r, ok))
      | _ \<Rightarrow> ([], False))"

section \<open>SHA-256\<close>

definition K256 :: "32 word list" where
  "K256 = [
    1116352408, 1899447441, 3049323471, 3921009573, 961987163, 1508970993, 2453635748, 2870763221,
    3624381080, 310598401, 607225278, 1426881987, 1925078388, 2162078206, 2614888103, 3248222580,
    3835390401, 4022224774, 264347078, 604807628, 770255983, 1249150122, 1555081692, 1996064986,
    2554220882, 2821834349, 2952996808, 3210313671, 3336571891, 3584528711, 113926993, 338241895,
    666307205, 773529912, 1294757372, 1396182291, 1695183700, 1986661051, 2177026350, 2456956037,
    2730485921, 2820302411, 3259730800, 3345764771, 3516065817, 3600352804, 4094571909, 275423344,
    430227734, 506948616, 659060556, 883997877, 958139571, 1322822218, 1537002063, 1747873779,
    1955562222, 2024104815, 2227730452, 2361852424, 2428436474, 2756734187, 3204031479, 3329325298]"

definition rotr :: "nat \<Rightarrow> 32 word \<Rightarrow> 32 word" where
  "rotr n x = drop_bit n x OR push_bit (32 - n) x"

type_synonym hstate = "32 word \<times> 32 word \<times> 32 word \<times> 32 word \<times> 32 word \<times> 32 word \<times> 32 word \<times> 32 word"

fun sha_round :: "hstate \<Rightarrow> 32 word \<times> 32 word \<Rightarrow> hstate" where
  "sha_round (a, b, c, d, e, f, g, h) (k, w) =
     (let t1 = h + (rotr 6 e XOR rotr 11 e XOR rotr 25 e) + ((e AND f) XOR (NOT e AND g)) + k + w;
          t2 = (rotr 2 a XOR rotr 13 a XOR rotr 22 a) + ((a AND b) XOR (a AND c) XOR (b AND c))
      in (t1 + t2, a, b, c, d + t1, e, f, g))"

text \<open>The message schedule, newest word first.\<close>

fun sha_expand :: "nat \<Rightarrow> 32 word list \<Rightarrow> 32 word list" where
  "sha_expand 0 ws = ws"
| "sha_expand (Suc n) ws =
     (let x = ws ! 1; y = ws ! 14
      in sha_expand n (((rotr 17 x XOR rotr 19 x XOR drop_bit 10 x) + ws ! 6
           + (rotr 7 y XOR rotr 18 y XOR drop_bit 3 y) + ws ! 15) # ws))"

fun words_of :: "string \<Rightarrow> 32 word list" where
  "words_of (a # b # c # d # s) = word_of_int (of_be [a, b, c, d]) # words_of s"
| "words_of s = []"

fun hadd :: "hstate \<Rightarrow> hstate \<Rightarrow> hstate" where
  "hadd (a, b, c, d, e, f, g, h) (a', b', c', d', e', f', g', h') =
     (a + a', b + b', c + c', d + d', e + e', f + f', g + g', h + h')"

definition sha_block :: "hstate \<Rightarrow> string \<Rightarrow> hstate" where
  "sha_block st blk =
     hadd st (foldl sha_round st (zip K256 (rev (sha_expand 48 (rev (words_of blk))))))"

fun sha_blocks :: "nat \<Rightarrow> hstate \<Rightarrow> string \<Rightarrow> hstate" where
  "sha_blocks 0 st s = st"
| "sha_blocks (Suc n) st s = sha_blocks n (sha_block st (take 64 s)) (drop 64 s)"

definition sha_pad :: "string \<Rightarrow> string" where
  "sha_pad m = m @ char_of (128::nat) # replicate ((119 - length m mod 64) mod 64) (char_of (0::nat))
     @ be_bytes 8 (int (8 * length m))"

definition sha_init :: hstate where
  "sha_init = (1779033703, 3144134277, 1013904242, 2773480762, 1359893119, 2600822924, 528734635, 1541459225)"

fun hstate_bytes :: "hstate \<Rightarrow> string" where
  "hstate_bytes (a, b, c, d, e, f, g, h) =
     concat (map (\<lambda>w. be_bytes 4 (uint w)) [a, b, c, d, e, f, g, h])"

definition sha256 :: "string \<Rightarrow> string" where
  "sha256 m = hstate_bytes (sha_blocks (length (sha_pad m) div 64) sha_init (sha_pad m))"

section \<open>Facts\<close>

lemma length_be_bytes [simp]: "length (be_bytes k n) = k"
  by (simp add: be_bytes_def)

lemma length_be64 [simp]: "length (be64 w) = 8"
  by (simp add: be64_def)

lemma length_sha256 [simp]: "length (sha256 m) = 32"
proof -
  have "length (hstate_bytes st) = 32" for st
    by (cases st rule: hstate_bytes.cases) simp
  then show ?thesis by (simp add: sha256_def)
qed

lemma length_hex_encode [simp]: "length (hex_encode s) = 2 * length s"
  by (induction s) (simp_all add: hex_encode_def Let_def)

lemma be_bytes_Suc: "be_bytes (Suc k) n = char_of (n div 256 ^ k) # be_bytes k n"
  by (simp add: be_bytes_def)

lemma of_be_Cons: "of_be (c # s) = of_char c * 256 ^ length s + of_be s"
proof -
  have "foldl (\<lambda>a c. a * 256 + of_char c) x s = x * 256 ^ length s + foldl (\<lambda>a c. a * 256 + of_char c) 0 s"
    for x :: int and s
  proof (induction s arbitrary: x)
    case (Cons c s)
    show ?case using Cons [of "x * 256 + of_char c"] Cons [of "of_char c"] by (simp add: algebra_simps)
  qed simp
  from this [of "of_char c" s] show ?thesis by (simp add: of_be_def)
qed

lemma of_be_be_bytes: "of_be (be_bytes k n) = n mod 256 ^ k"
proof (induction k)
  case 0
  then show ?case by (simp add: of_be_def be_bytes_def)
next
  case (Suc k)
  have "n mod 256 ^ Suc k = n mod 256 ^ k + 256 ^ k * (n div 256 ^ k mod 256)"
    using mod_mult2_eq' [of n "256 ^ k" 256] zmod_zmult2_eq [of 256 n "256 ^ k"]
    by (simp add: mult.commute)
  then show ?case using Suc by (simp add: be_bytes_Suc of_be_Cons)
qed

lemma be64_inject [simp]: "be64 v = be64 w \<longleftrightarrow> v = w"
proof
  assume "be64 v = be64 w"
  then have "uint v mod 256 ^ 8 = uint w mod 256 ^ 8"
    unfolding be64_def by (metis of_be_be_bytes)
  moreover have "uint x mod 256 ^ 8 = uint x" for x :: "64 word"
    using uint_lt2p [of x] by simp
  ultimately show "v = w" by (simp add: word_uint_eq_iff)
qed simp

lemma hex_value_digit [simp]: "n < 16 \<Longrightarrow> hex_value (hex_digit n) = Some n"
  by (auto simp: hex_value_def hex_digit_def Let_def)

lemma hex_decode_encode [simp]: "hex_decode (hex_encode s) = (s, True)"
proof (induction s)
  case Nil
  then show ?case by (simp add: hex_encode_def)
next
  case (Cons c s)
  have "(of_char c :: nat) div 16 < 16" using of_char_less_256 [of c] by linarith
  moreover have "(of_char c :: nat) div 16 * 16 + of_char c mod 16 = of_char c" by simp
  ultimately show ?case using Cons by (simp add: hex_encode_def Let_def)
qed

lemma hex_encode_inject [simp]: "hex_encode s = hex_encode t \<longleftrightarrow> s = t"
  by (metis fst_conv hex_decode_encode)

lemma hex_digit_ascii: "n < 16 \<Longrightarrow> (of_char (hex_digit n) :: nat) < 0x80"
  by (simp add: hex_digit_def)

lemma hex_encode_ascii: "c \<in> set (hex_encode s) \<Longrightarrow> (of_char c :: nat) < 0x80"
proof -
  have "(of_char d :: nat) div 16 < 16" for d :: char using of_char_less_256 [of d] by linarith
  then show "c \<in> set (hex_encode s) \<Longrightarrow> (of_char c :: nat) < 0x80"
    by (auto simp: hex_encode_def Let_def hex_digit_ascii)
qed

end
