(* ===== verification/Json.thy ===== *)
theory Json
  imports Sha256
begin

text \<open>
  The byte scanner of \<open>encoding/json\<close> as \<open>json.Compact\<close> and \<open>json.Valid\<close> drive it: one state and a stack
  of open objects and arrays, stepped once per byte. The program uses it to check and compact caller
  metadata (\<open>queue.ValidateMetadata\<close>) and, through \<open>json.Marshal\<close>, on every raw message it embeds.
\<close>

datatype ParseState = ParseObjectKey | ParseObjectValue | ParseArrayValue

datatype ScanState =
    BeginValueOrEmpty | BeginValue | BeginStringOrEmpty | BeginString | EndValue | EndTop
  | InString | InStringEsc | InStringEscU nat
  | Neg | One | Zero | Dot | Dot0 | Exp | ExpSign | Exp0
  | InLiteral string

type_synonym scanner = "ScanState \<times> ParseState list"

text \<open>A step keeps the byte, skips it as white space, or fails.\<close>

datatype ScanResult = Keep scanner | Skip scanner | Fail

definition jsonSpace :: "char \<Rightarrow> bool" where
  "jsonSpace c \<longleftrightarrow> c = CHR '' '' \<or> c = CHR 0x09 \<or> c = CHR 0x0D \<or> c = CHR 0x0A"

definition jsonDigit :: "char \<Rightarrow> bool" where
  "jsonDigit c \<longleftrightarrow> 48 \<le> (of_char c :: nat) \<and> (of_char c :: nat) \<le> 57"

definition maxNestingDepth :: nat where "maxNestingDepth = 10000"

definition pushState :: "ParseState \<Rightarrow> ScanState \<Rightarrow> ParseState list \<Rightarrow> ScanResult" where
  "pushState p nxt st = (if maxNestingDepth \<le> length st then Fail else Keep (nxt, p # st))"

definition popState :: "ParseState list \<Rightarrow> scanner" where
  "popState st = (if tl st = [] then (EndTop, []) else (EndValue, tl st))"

definition beginValue :: "ParseState list \<Rightarrow> char \<Rightarrow> ScanResult" where
  "beginValue st c =
     (if jsonSpace c then Skip (BeginValue, st)
      else if c = CHR ''{'' then pushState ParseObjectKey BeginStringOrEmpty st
      else if c = CHR ''['' then pushState ParseArrayValue BeginValueOrEmpty st
      else if c = CHR 0x22 then Keep (InString, st)
      else if c = CHR ''-'' then Keep (Neg, st)
      else if c = CHR ''0'' then Keep (Zero, st)
      else if c = CHR ''t'' then Keep (InLiteral ''rue'', st)
      else if c = CHR ''f'' then Keep (InLiteral ''alse'', st)
      else if c = CHR ''n'' then Keep (InLiteral ''ull'', st)
      else if jsonDigit c then Keep (One, st)
      else Fail)"

fun endValue :: "ParseState list \<Rightarrow> char \<Rightarrow> ScanResult" where
  "endValue [] c = (if jsonSpace c then Skip (EndTop, []) else Fail)"
| "endValue (p # st) c =
     (if jsonSpace c then Skip (EndValue, p # st)
      else case p of
          ParseObjectKey \<Rightarrow>
            (if c = CHR '':'' then Keep (BeginValue, ParseObjectValue # st) else Fail)
        | ParseObjectValue \<Rightarrow>
            (if c = CHR '','' then Keep (BeginString, ParseObjectKey # st)
             else if c = CHR ''}'' then Keep (popState (p # st)) else Fail)
        | ParseArrayValue \<Rightarrow>
            (if c = CHR '','' then Keep (BeginValue, p # st)
             else if c = CHR '']'' then Keep (popState (p # st)) else Fail))"

definition beginString :: "ParseState list \<Rightarrow> char \<Rightarrow> ScanResult" where
  "beginString st c =
     (if jsonSpace c then Skip (BeginString, st) else if c = CHR 0x22 then Keep (InString, st) else Fail)"

definition expStart :: "ParseState list \<Rightarrow> char \<Rightarrow> ScanResult" where
  "expStart st c =
     (if c = CHR ''e'' \<or> c = CHR ''E'' then Keep (Exp, st) else endValue st c)"

definition afterInt :: "ParseState list \<Rightarrow> char \<Rightarrow> ScanResult" where
  "afterInt st c = (if c = CHR ''.'' then Keep (Dot, st) else expStart st c)"

definition hexByte :: "char \<Rightarrow> bool" where
  "hexByte c \<longleftrightarrow> hex_value c \<noteq> None"

fun scanStep :: "scanner \<Rightarrow> char \<Rightarrow> ScanResult" where
  "scanStep (BeginValueOrEmpty, st) c =
     (if jsonSpace c then Skip (BeginValueOrEmpty, st)
      else if c = CHR '']'' then endValue st c else beginValue st c)"
| "scanStep (BeginValue, st) c = beginValue st c"
| "scanStep (BeginStringOrEmpty, st) c =
     (if jsonSpace c then Skip (BeginStringOrEmpty, st)
      else if c = CHR ''}'' then endValue (ParseObjectValue # tl st) c else beginString st c)"
| "scanStep (BeginString, st) c = beginString st c"
| "scanStep (EndValue, st) c = endValue st c"
| "scanStep (EndTop, st) c = (if jsonSpace c then Skip (EndTop, st) else Fail)"
| "scanStep (InString, st) c =
     (if c = CHR 0x22 then Keep (EndValue, st)
      else if c = CHR 0x5C then Keep (InStringEsc, st)
      else if (of_char c :: nat) < 0x20 then Fail else Keep (InString, st))"
| "scanStep (InStringEsc, st) c =
     (if c \<in> set (''bfnrt/'' @ [CHR 0x5C, CHR 0x22]) then Keep (InString, st)
      else if c = CHR ''u'' then Keep (InStringEscU 4, st) else Fail)"
| "scanStep (InStringEscU n, st) c =
     (if hexByte c then Keep (if n \<le> 1 then InString else InStringEscU (n - 1), st) else Fail)"
| "scanStep (Neg, st) c =
     (if c = CHR ''0'' then Keep (Zero, st) else if jsonDigit c then Keep (One, st) else Fail)"
| "scanStep (One, st) c = (if jsonDigit c then Keep (One, st) else afterInt st c)"
| "scanStep (Zero, st) c = afterInt st c"
| "scanStep (Dot, st) c = (if jsonDigit c then Keep (Dot0, st) else Fail)"
| "scanStep (Dot0, st) c = (if jsonDigit c then Keep (Dot0, st) else expStart st c)"
| "scanStep (Exp, st) c =
     (if c = CHR ''+'' \<or> c = CHR ''-'' then Keep (ExpSign, st)
      else if jsonDigit c then Keep (Exp0, st) else Fail)"
| "scanStep (ExpSign, st) c = (if jsonDigit c then Keep (Exp0, st) else Fail)"
| "scanStep (Exp0, st) c = (if jsonDigit c then Keep (Exp0, st) else endValue st c)"
| "scanStep (InLiteral [], st) c = endValue st c"
| "scanStep (InLiteral (x # xs), st) c =
     (if c = x then Keep (if xs = [] then EndValue else InLiteral xs, st) else Fail)"

fun scanEOF :: "scanner \<Rightarrow> bool" where
  "scanEOF (EndTop, st) = True"
| "scanEOF s = (case scanStep s (CHR '' '') of Skip (EndTop, _) \<Rightarrow> True | _ \<Rightarrow> False)"

text \<open>The scanner over a whole text, keeping the bytes that are not white space between tokens.\<close>

fun compactFrom :: "scanner \<Rightarrow> string \<Rightarrow> string option" where
  "compactFrom s [] = (if scanEOF s then Some [] else None)"
| "compactFrom s (c # cs) =
     (case scanStep s c of
        Fail \<Rightarrow> None
      | Skip s' \<Rightarrow> compactFrom s' cs
      | Keep s' \<Rightarrow> map_option (Cons c) (compactFrom s' cs))"

definition Compact :: "string \<Rightarrow> string option" where
  "Compact s = compactFrom (BeginValue, []) s"

definition jsonValid :: "string \<Rightarrow> bool" where
  "jsonValid s \<longleftrightarrow> Compact s \<noteq> None"

text \<open>The states in which a number or literal may end, and the bytes that end it.\<close>

fun mayEnd :: "ScanState \<Rightarrow> bool" where
  "mayEnd One = True" | "mayEnd Zero = True" | "mayEnd Dot0 = True" | "mayEnd Exp0 = True"
| "mayEnd EndValue = True" | "mayEnd (InLiteral l) = (l = [])" | "mayEnd _ = False"

definition closer :: "char \<Rightarrow> bool" where
  "closer d \<longleftrightarrow> \<not> jsonDigit d \<and> d \<noteq> CHR ''.'' \<and> d \<noteq> CHR ''e'' \<and> d \<noteq> CHR ''E''"

section \<open>Facts\<close>

lemma compactFrom_length: "compactFrom s cs = Some t \<Longrightarrow> length t \<le> length cs"
  by (induction s cs arbitrary: t rule: compactFrom.induct) (auto split: ScanResult.splits if_splits simp: le_SucI)

lemma endValue_Skip: "endValue st c = Skip s' \<Longrightarrow> jsonSpace c \<and> s' = (if st = [] then EndTop else EndValue, st)"
  by (cases st) (auto split: if_splits ParseState.splits)

lemma endValue_Keep: "endValue st c = Keep s' \<Longrightarrow> st \<noteq> [] \<and> closer c"
  by (cases st) (auto simp: closer_def jsonDigit_def split: if_splits ParseState.splits)

lemma closer_space: "jsonSpace c \<Longrightarrow> closer c"
  by (auto simp: closer_def jsonSpace_def jsonDigit_def)

lemma mayEnd_step: "mayEnd q \<Longrightarrow> closer d \<Longrightarrow> scanStep (q, st) d = endValue st d"
  by (cases q) (auto simp: closer_def afterInt_def expStart_def)

lemma scanStep_Skip:
  assumes "scanStep (q, st) c = Skip s'"
  shows "s' = (q, st) \<or> mayEnd q \<and> s' = (if st = [] then EndTop else EndValue, st)"
proof (cases q)
  case (InLiteral l)
  then show ?thesis using assms by (cases l) (auto dest: endValue_Skip split: if_splits)
qed (use assms in \<open>auto simp: beginValue_def beginString_def afterInt_def expStart_def pushState_def
      dest: endValue_Skip split: if_splits\<close>)

text \<open>What a skipped byte changes is invisible to the bytes that are kept, so compacting compacted text
  gives it back.\<close>

lemma skip_invisible:
  assumes "scanStep s c = Skip s'" "scanStep s' d = Keep s''"
  shows "scanStep s d = Keep s''"
proof -
  obtain q st where s: "s = (q, st)" by fastforce
  show ?thesis
  proof (cases "s' = s")
    case False
    then have m: "mayEnd q" "s' = (if st = [] then EndTop else EndValue, st)"
      using scanStep_Skip [of q st c s'] assms(1) s by simp_all
    then have k: "endValue st d = Keep s''" using assms(2) by (simp split: if_splits)
    then show ?thesis using mayEnd_step [OF m(1)] endValue_Keep [OF k] s by simp
  qed (use assms in simp)
qed

lemma skip_eof:
  assumes "scanStep s c = Skip s'" "scanEOF s'"
  shows "scanEOF s"
proof -
  obtain q st where s: "s = (q, st)" by fastforce
  show ?thesis
  proof (cases "s' = s")
    case False
    then have m: "mayEnd q" "s' = (if st = [] then EndTop else EndValue, st)"
      using scanStep_Skip [of q st c s'] assms(1) s by simp_all
    then have "st = []" using assms(2) by (cases st) (simp_all add: jsonSpace_def)
    moreover have "closer (CHR '' '')" by (simp add: closer_def jsonDigit_def)
    ultimately have "scanStep (q, []) (CHR '' '') = Skip (EndTop, [])"
      using mayEnd_step [OF m(1)] by (simp add: jsonSpace_def)
    then show ?thesis using s \<open>st = []\<close> by (cases q) simp_all
  qed (use assms in simp)
qed

lemma compactFrom_idem: "compactFrom s cs = Some t \<Longrightarrow> compactFrom s t = Some t"
proof (induction s cs arbitrary: t rule: compactFrom.induct)
  case (1 s)
  then show ?case by (auto split: if_splits)
next
  case (2 s c cs)
  show ?case
  proof (cases "scanStep s c")
    case (Keep s')
    then obtain t' where t: "t = c # t'" and c: "compactFrom s' cs = Some t'" using 2(3) by auto
    have "compactFrom s' t' = Some t'" using 2(1) [OF Keep] c by blast
    then show ?thesis using t Keep by simp
  next
    case (Skip s')
    then have IH: "compactFrom s' t = Some t" using 2(2) [OF Skip] 2(3) Skip by simp
    show ?thesis
    proof (cases t)
      case Nil
      then show ?thesis using IH skip_eof [OF Skip] by (auto split: if_splits)
    next
      case (Cons d ds)
      have "compactFrom s3 ds \<noteq> Some (d # ds)" for s3 using compactFrom_length [of s3 ds "d # ds"] by auto
      then obtain s'' where k: "scanStep s' d = Keep s''"
        using IH Cons by (cases "scanStep s' d") simp_all
      then show ?thesis using IH skip_invisible [OF Skip k] Cons by simp
    qed
  qed (use 2(3) in simp)
qed

lemma compact_samples:
  "Compact '' { } '' = Some ''{}''" "Compact ''[1, 2 ,-0.5e+3]'' = Some ''[1,2,-0.5e+3]''"
  "Compact ''{,}'' = None" "Compact ''01'' = None" "Compact ''true '' = Some ''true''" "Compact [] = None"
  by code_simp+

end
