(* ===== verification/Queue.thy ===== *)
theory Queue
  imports Moderation Json "HOL-Library.Multiset"
begin

text \<open>
  The job queue contract of \<open>internal/queue/queue.go\<close> and the in-memory dead-letter sink of
  \<open>internal/queue/memdlq.go\<close>: the job, the handler's disposition, the driver tuning and its defaults,
  and the envelope a finished job carries (\<open>internal/result/sink.go\<close>). Durations and instants are
  integers, in nanoseconds.
\<close>

section \<open>Types\<close>

datatype Disposition = Ack | Retry | DeadLetter

type_synonym JobID = string

text \<open>A nil \<open>DedupThreshold\<close> is \<open>None\<close>; a nil \<open>Metadata\<close> is the empty byte string, as \<open>omitempty\<close>
  and every reader treats it.\<close>

record Job =
  jID :: JobID
  jSource :: Source
  Workflows :: "string list"
  DedupThreshold :: "int option"
  jMetadata :: string
  SubmittedAt :: int

record DeadLetterEntry =
  dlJob :: Job
  dlReason :: string
  dlAttempts :: int
  dlAt :: int

record QueueConfig =
  Workers :: int
  Buffer :: int
  MaxRetries :: int
  RetryBackoff :: int
  DrainTimeout :: int
  JobTimeout :: int
  DeadLetterMax :: int

abbreviation Millisecond :: int where "Millisecond \<equiv> 1000000"
abbreviation Second :: int where "Second \<equiv> 1000000000"
abbreviation Minute :: int where "Minute \<equiv> 60 * Second"
abbreviation Hour :: int where "Hour \<equiv> 60 * Minute"

definition applyDefaults :: "QueueConfig \<Rightarrow> QueueConfig" where
  "applyDefaults c =
     \<lparr>Workers = (if Workers c \<le> 0 then 4 else Workers c),
      Buffer = (if Buffer c \<le> 0 then 1024 else Buffer c),
      MaxRetries = (if MaxRetries c < 0 then 0 else MaxRetries c),
      RetryBackoff = (if RetryBackoff c \<le> 0 then 2 * Second else RetryBackoff c),
      DrainTimeout = (if DrainTimeout c \<le> 0 then 30 * Second else DrainTimeout c),
      JobTimeout = (if JobTimeout c \<le> 0 then 5 * Minute else JobTimeout c),
      DeadLetterMax = (if DeadLetterMax c \<le> 0 then 1000 else DeadLetterMax c)\<rparr>"

definition errQueueClosed :: goerr where
  "errQueueClosed = sentinelErr ErrQueueClosed ''queue: closed''"

definition errDeadLetterFull :: goerr where
  "errDeadLetterFull = sentinelErr ErrDeadLetterFull ''queue: dead-letter queue at capacity; rejecting new work''"

definition errQueueFull :: goerr where
  "errQueueFull = sentinelErr ErrQueueFull ''queue: pending buffer full''"

definition MaxMetadataBytes :: nat where "MaxMetadataBytes = 4096"

definition ValidateMetadata :: "string \<Rightarrow> string res" where
  "ValidateMetadata m =
     (if m = [] then Inr []
      else case Compact m of
          None \<Rightarrow> Inl (errorf ''metadata is not valid JSON: syntax error'')
        | Some c \<Rightarrow>
            if c = [] \<or> c ! 0 \<noteq> CHR ''{'' then Inl (errorf ''metadata must be a JSON object'')
            else if length c > MaxMetadataBytes then
              Inl (errorf (''metadata must be at most '' @ show_nat MaxMetadataBytes @ '' bytes once compacted, got ''
                @ show_nat (length c)))
            else Inr c)"

section \<open>The in-memory dead-letter sink (memdlq.go)\<close>

type_synonym MemDLQ = "DeadLetterEntry list"

definition MemDLQ_Write :: "MemDLQ \<Rightarrow> DeadLetterEntry \<Rightarrow> MemDLQ" where
  "MemDLQ_Write d e = d @ [e]"

definition MemDLQ_Depth :: "MemDLQ \<Rightarrow> int" where
  "MemDLQ_Depth d = int (length d)"

section \<open>The result envelope (internal/result/sink.go)\<close>

record ModelIdentity =
  Adapter :: string
  miModelVersion :: string
  ConfigHash :: string

text \<open>A nil \<open>Result\<close> is \<open>None\<close>.\<close>

record ResultEnvelope =
  eJobID :: JobID
  eSource :: Source
  ModelID :: ModelIdentity
  eResult :: "NormalizedResult option"
  eError :: string
  eMetadata :: string
  RawSHA256 :: string
  StartedAt :: int
  FinishedAt :: int

section \<open>What a driver owes its jobs\<close>

text \<open>
  What every queue driver owes the jobs it accepted: each is held (waiting, running or between attempts),
  settled (acknowledged or dead-lettered), or given up, and no step of the driver breaks that.
\<close>

locale ledger =
  fixes start :: 's
    and step :: "'s \<Rightarrow> 's \<Rightarrow> bool"
    and inv :: "'s \<Rightarrow> bool"
    and accepted :: "'s \<Rightarrow> Job set"
    and held :: "'s \<Rightarrow> Job set"
    and settled :: "'s \<Rightarrow> Job set"
    and lost :: "'s \<Rightarrow> Job set"
  assumes inv_start: "inv start"
    and inv_step: "inv s \<Longrightarrow> step s t \<Longrightarrow> inv t"
    and covered: "inv s \<Longrightarrow> accepted s \<subseteq> held s \<union> settled s \<union> lost s"
begin

lemma reach_inv: "step\<^sup>*\<^sup>* start s \<Longrightarrow> inv s"
  by (induction rule: rtranclp_induct) (auto intro: inv_start inv_step)

lemma never_dropped:
  "step\<^sup>*\<^sup>* start s \<Longrightarrow> j \<in> accepted s \<Longrightarrow> j \<notin> lost s \<Longrightarrow> j \<in> held s \<or> j \<in> settled s"
  using covered [OF reach_inv] by blast

lemma idle_settled:
  "step\<^sup>*\<^sup>* start s \<Longrightarrow> lost s = {} \<Longrightarrow> held s = {} \<Longrightarrow> accepted s \<subseteq> settled s"
  using covered [OF reach_inv] by blast

end

section \<open>Facts\<close>

lemma applyDefaults_idem [simp]: "applyDefaults (applyDefaults c) = applyDefaults c"
  by (simp add: applyDefaults_def)

lemma applyDefaults_positive:
  "0 < Workers (applyDefaults c)" "0 < Buffer (applyDefaults c)" "0 \<le> MaxRetries (applyDefaults c)"
  "0 < RetryBackoff (applyDefaults c)" "0 < DeadLetterMax (applyDefaults c)"
  by (simp_all add: applyDefaults_def)

section \<open>Properties\<close>

text \<open>
  Accepted metadata is a compacted JSON object of at most 4096 bytes that validating again returns
  unchanged, however large or indented the caller's text was; empty input is accepted as absent.
\<close>

theorem metadata_validated:
  assumes "ValidateMetadata m = Inr c"
  shows "c = [] \<and> m = [] \<or> c \<noteq> [] \<and> hd c = CHR ''{'' \<and> length c \<le> 4096 \<and> jsonValid c \<and> ValidateMetadata c = Inr c"
  using assms compactFrom_idem [of "(BeginValue, [])" m]
  by (auto simp: ValidateMetadata_def MaxMetadataBytes_def Compact_def jsonValid_def hd_conv_nth
      split: if_splits option.splits)

theorem metadata_validated_witness:
  "ValidateMetadata ('' { '' @ [CHR 0x22] @ ''k'' @ [CHR 0x22] @ '' : 1 } '') = Inr (''{'' @ [CHR 0x22] @ ''k'' @ [CHR 0x22] @ '':1}'') \<and>
   ValidateMetadata (''{'' @ [CHR 0x22] @ ''k'' @ [CHR 0x22] @ '':1}'') = Inr (''{'' @ [CHR 0x22] @ ''k'' @ [CHR 0x22] @ '':1}'')"
proof -
  have "ValidateMetadata ('' { '' @ [CHR 0x22] @ ''k'' @ [CHR 0x22] @ '' : 1 } '') = Inr (''{'' @ [CHR 0x22] @ ''k'' @ [CHR 0x22] @ '':1}'')"
    by code_simp
  from metadata_validated [OF this] this show ?thesis by simp
qed

end
