(* ===== verification/Memq.thy ===== *)
theory Memq
  imports Queue
begin

text \<open>
  The in-process queue driver (\<open>internal/queue/memq.go\<close>) as a transition system. The channel is a list of
  bounded length. The operations of the code that run under one lock or on one atomic are one step;
  \<open>Enqueue\<close> is three, because a shutdown can come between its checks and the send on the channel, and a
  worker can take the job between the send and the bookkeeping that follows it; the timer of a retry is
  two. The fields \<open>gSent\<close>, \<open>gTaken\<close>, \<open>gAccepted\<close>, \<open>gAcked\<close>
  and \<open>gLost\<close> only record history.
\<close>

record queuedJob =
  qjob :: Job
  attempts :: int

record Memq =
  mcfg :: QueueConfig
  mjobs :: "queuedJob list"
  mclosed :: bool
  mstarted :: bool
  mpending :: int
  mactive :: int
  mstates :: "(JobID \<times> string) list"
  finished :: "JobID list"
  mdlq :: MemDLQ
  admitted :: "Job list"
  enqueuing :: "Job list"
  running :: "queuedJob list"
  timers :: "queuedJob list"
  refired :: "queuedJob list"
  gSent :: "queuedJob list"
  gTaken :: "queuedJob list"
  gAccepted :: "Job list"
  gAcked :: "Job list"
  gLost :: "Job list"

definition maxFinishedStates :: nat where "maxFinishedStates = 500"

definition isTerminalState :: "string \<Rightarrow> bool" where
  "isTerminalState s \<longleftrightarrow> s = ''done'' \<or> s = ''dead''"

definition NewMemq :: "QueueConfig \<Rightarrow> Memq" where
  "NewMemq cfg =
     \<lparr>mcfg = applyDefaults cfg, mjobs = [], mclosed = False, mstarted = False, mpending = 0, mactive = 0,
      mstates = [], finished = [], mdlq = [], admitted = [], enqueuing = [], running = [], timers = [], refired = [],
      gSent = [], gTaken = [], gAccepted = [], gAcked = [], gLost = []\<rparr>"

section \<open>Operations\<close>

text \<open>The eviction loop of \<open>setState\<close>.\<close>

fun evict :: "(JobID \<times> string) list \<Rightarrow> JobID list \<Rightarrow> (JobID \<times> string) list \<times> JobID list" where
  "evict sts fin =
     (if length fin > maxFinishedStates then
        (let oldest = hd fin;
             sts' = (if isTerminalState (case map_of sts oldest of None \<Rightarrow> [] | Some v \<Rightarrow> v)
                     then AList.delete oldest sts else sts)
         in evict sts' (tl fin))
      else (sts, fin))"

declare evict.simps [simp del]

definition setState :: "Memq \<Rightarrow> JobID \<Rightarrow> string \<Rightarrow> Memq" where
  "setState q job s =
     (let prev = map_of (mstates q) job;
          sts = AList.update job s (mstates q)
      in if \<not> isTerminalState s \<or> (case prev of None \<Rightarrow> False | Some p \<Rightarrow> isTerminalState p)
         then q\<lparr>mstates := sts\<rparr>
         else (let (sts', fin) = evict sts (finished q @ [job]) in q\<lparr>mstates := sts', finished := fin\<rparr>))"

definition States :: "Memq \<Rightarrow> JobID \<Rightarrow> string option" where
  "States q = map_of (mstates q)"

text \<open>The checks of \<open>Enqueue\<close>, its send, and the bookkeeping after it.\<close>

definition enqueueCheck :: "Memq \<Rightarrow> Job \<Rightarrow> Memq res" where
  "enqueueCheck q j =
     (if mclosed q then Inl errQueueClosed
      else if MemDLQ_Depth (mdlq q) \<ge> DeadLetterMax (mcfg q) then Inl errDeadLetterFull
      else Inr (q\<lparr>admitted := admitted q @ [j]\<rparr>))"

definition enqueueSend :: "Memq \<Rightarrow> Job \<Rightarrow> Memq res" where
  "enqueueSend q j =
     (if int (length (mjobs q)) < Buffer (mcfg q) then
        Inr (q\<lparr>admitted := remove1 j (admitted q), mjobs := mjobs q @ [\<lparr>qjob = j, attempts = 0\<rparr>],
               enqueuing := enqueuing q @ [j],
               gSent := gSent q @ [\<lparr>qjob = j, attempts = 0\<rparr>], gAccepted := gAccepted q @ [j]\<rparr>)
      else Inl errQueueFull)"

definition enqueueFinish :: "Memq \<Rightarrow> Job \<Rightarrow> Memq" where
  "enqueueFinish q j =
     setState (q\<lparr>mpending := mpending q + 1, enqueuing := remove1 j (enqueuing q)\<rparr>) (jID j) ''queued''"

definition Enqueue :: "Memq \<Rightarrow> Job \<Rightarrow> Memq \<times> JobID res" where
  "Enqueue q j =
     (case enqueueCheck q j of
        Inl e \<Rightarrow> (q, Inl e)
      | Inr q1 \<Rightarrow>
          (case enqueueSend q1 j of
             Inl e \<Rightarrow> (q1\<lparr>admitted := remove1 j (admitted q1)\<rparr>, Inl e)
           | Inr q2 \<Rightarrow> (enqueueFinish q2 j, Inr (jID j))))"

definition Start :: "Memq \<Rightarrow> Memq res" where
  "Start q = (if mstarted q then Inl (errorf ''memq: Start called twice'') else Inr (q\<lparr>mstarted := True\<rparr>))"

text \<open>A worker takes the oldest job and enters \<open>process\<close>.\<close>

definition pull :: "Memq \<Rightarrow> Memq option" where
  "pull q =
     (case mjobs q of
        [] \<Rightarrow> None
      | qj # rest \<Rightarrow>
          Some (setState (q\<lparr>mjobs := rest, mpending := mpending q - 1, mactive := mactive q + 1,
            running := running q @ [qj], gTaken := gTaken q @ [qj]\<rparr>) (jID (qjob qj)) ''running''))"

text \<open>A panic in the handler is recovered into a dead letter.\<close>

definition runHandler :: "(Disposition \<times> goerr option) call \<Rightarrow> Disposition \<times> goerr option" where
  "runHandler h = (case h of Ret r \<Rightarrow> r | Panicked m \<Rightarrow> (DeadLetter, Some (errorf (''handler panic: '' @ m))))"

definition showErr :: "goerr option \<Rightarrow> string" where
  "showErr e = (case e of None \<Rightarrow> ''<nil>'' | Some x \<Rightarrow> emsg x)"

definition deadLetter :: "Memq \<Rightarrow> queuedJob \<Rightarrow> string \<Rightarrow> int \<Rightarrow> Memq" where
  "deadLetter q qj reason t =
     (let q1 = setState q (jID (qjob qj)) ''dead'' in
      q1\<lparr>mdlq := MemDLQ_Write (mdlq q1) \<lparr>dlJob = qjob qj, dlReason = reason, dlAttempts = attempts qj, dlAt = t\<rparr>\<rparr>)"

definition scheduleRetry :: "Memq \<Rightarrow> queuedJob \<Rightarrow> Memq" where
  "scheduleRetry q qj =
     (let q1 = setState q (jID (qjob qj)) ''retrying'' in
      q1\<lparr>mpending := mpending q1 + 1, timers := timers q1 @ [qj]\<rparr>)"

definition retryBackoff :: "Memq \<Rightarrow> queuedJob \<Rightarrow> int" where
  "retryBackoff q qj = RetryBackoff (mcfg q) * attempts qj"

text \<open>The rest of \<open>process\<close>, from the handler's return on.\<close>

definition process :: "Memq \<Rightarrow> queuedJob \<Rightarrow> (Disposition \<times> goerr option) call \<Rightarrow> int \<Rightarrow> Memq" where
  "process q qj h t =
     (let (disp, e) = runHandler h;
          qj' = qj\<lparr>attempts := attempts qj + 1\<rparr>;
          q0 = q\<lparr>running := remove1 qj (running q)\<rparr>;
          q1 = (case disp of
             Ack \<Rightarrow> (setState q0 (jID (qjob qj')) ''done'')\<lparr>gAcked := gAcked q0 @ [qjob qj']\<rparr>
           | Retry \<Rightarrow>
               if attempts qj' > MaxRetries (mcfg q0)
               then deadLetter q0 qj' (''max retries ('' @ show_int (MaxRetries (mcfg q0)) @ '') exceeded: '' @ showErr e) t
               else scheduleRetry q0 qj'
           | DeadLetter \<Rightarrow> deadLetter q0 qj' (''dead-lettered: '' @ showErr e) t)
      in q1\<lparr>mactive := mactive q1 - 1\<rparr>)"

text \<open>A retry timer fires while there is room in the channel; the state change follows. On shutdown it is
  abandoned.\<close>

definition fire :: "Memq \<Rightarrow> queuedJob \<Rightarrow> Memq" where
  "fire q qj = q\<lparr>timers := remove1 qj (timers q), mjobs := mjobs q @ [qj], refired := refired q @ [qj], gSent := gSent q @ [qj]\<rparr>"

definition fireFinish :: "Memq \<Rightarrow> queuedJob \<Rightarrow> Memq" where
  "fireFinish q qj = setState (q\<lparr>refired := remove1 qj (refired q)\<rparr>) (jID (qjob qj)) ''queued''"

definition abandon :: "Memq \<Rightarrow> queuedJob \<Rightarrow> Memq" where
  "abandon q qj = q\<lparr>timers := remove1 qj (timers q), mpending := mpending q - 1, gLost := gLost q @ [qjob qj]\<rparr>"

definition QueueDepth :: "Memq \<Rightarrow> int" where "QueueDepth q = mpending q"

definition ActiveWorkers :: "Memq \<Rightarrow> int" where "ActiveWorkers q = mactive q"

text \<open>\<open>Close\<close>: no more enqueues or pulls; what is still buffered is surfaced and lost.\<close>

definition closeBegin :: "Memq \<Rightarrow> Memq" where
  "closeBegin q = q\<lparr>mclosed := True\<rparr>"

definition drainOne :: "Memq \<Rightarrow> Memq option" where
  "drainOne q =
     (case mjobs q of
        [] \<Rightarrow> None
      | qj # rest \<Rightarrow> Some (q\<lparr>mjobs := rest, mpending := mpending q - 1, gTaken := gTaken q @ [qj], gLost := gLost q @ [qjob qj]\<rparr>))"

section \<open>Interleavings\<close>

inductive memStep :: "Memq \<Rightarrow> Memq \<Rightarrow> bool" where
  check: "enqueueCheck q j = Inr q' \<Longrightarrow> memStep q q'"
| send: "j \<in> set (admitted q) \<Longrightarrow> enqueueSend q j = Inr q' \<Longrightarrow> memStep q q'"
| refused: "j \<in> set (admitted q) \<Longrightarrow> enqueueSend q j = Inl e \<Longrightarrow>
    memStep q (q\<lparr>admitted := remove1 j (admitted q)\<rparr>)"
| enqFinish: "j \<in> set (enqueuing q) \<Longrightarrow> memStep q (enqueueFinish q j)"
| start: "Start q = Inr q' \<Longrightarrow> memStep q q'"
| worker: "mstarted q \<Longrightarrow> int (length (running q)) < Workers (mcfg q) \<Longrightarrow> pull q = Some q' \<Longrightarrow> memStep q q'"
| handled: "qj \<in> set (running q) \<Longrightarrow> memStep q (process q qj h t)"
| timer: "qj \<in> set (timers q) \<Longrightarrow> int (length (mjobs q)) < Buffer (mcfg q) \<Longrightarrow> memStep q (fire q qj)"
| timerFinish: "qj \<in> set (refired q) \<Longrightarrow> memStep q (fireFinish q qj)"
| timerStop: "mclosed q \<Longrightarrow> qj \<in> set (timers q) \<Longrightarrow> memStep q (abandon q qj)"
| shut: "memStep q (closeBegin q)"
| drain: "mclosed q \<Longrightarrow> drainOne q = Some q' \<Longrightarrow> memStep q q'"

definition memReach :: "QueueConfig \<Rightarrow> Memq \<Rightarrow> bool" where
  "memReach cfg q \<longleftrightarrow> memStep\<^sup>*\<^sup>* (NewMemq cfg) q"

definition heldJobs :: "Memq \<Rightarrow> Job multiset" where
  "heldJobs q = mset (map qjob (mjobs q)) + mset (map qjob (running q)) + mset (map qjob (timers q))"

definition settledJobs :: "Memq \<Rightarrow> Job multiset" where
  "settledJobs q = mset (gAcked q) + mset (map dlJob (mdlq q))"

section \<open>The invariant\<close>

text \<open>Every accepted job is somewhere: waiting, running, between attempts, acknowledged, dead-lettered, or
  lost, which needs a shutdown.\<close>

definition conserved :: "Memq \<Rightarrow> bool" where
  "conserved q \<longleftrightarrow>
     mset (gAccepted q) = mset (map qjob (mjobs q)) + mset (map qjob (running q)) + mset (map qjob (timers q))
       + mset (gAcked q) + mset (map dlJob (mdlq q)) + mset (gLost q)"

definition terminalIDs :: "(JobID \<times> string) list \<Rightarrow> JobID set" where
  "terminalIDs sts = {j. \<exists>s. map_of sts j = Some s \<and> isTerminalState s}"

definition statesBounded :: "Memq \<Rightarrow> bool" where
  "statesBounded q \<longleftrightarrow> length (finished q) \<le> maxFinishedStates \<and>
     terminalIDs (mstates q) \<subseteq> set (finished q)"

definition attemptsBounded :: "Memq \<Rightarrow> bool" where
  "attemptsBounded q \<longleftrightarrow>
     list_all (\<lambda>qj. 0 \<le> attempts qj \<and> attempts qj \<le> MaxRetries (mcfg q)) (mjobs q @ running q @ timers q @ gSent q) \<and>
     list_all (\<lambda>e. 0 < dlAttempts e \<and> dlAttempts e \<le> MaxRetries (mcfg q) + 1) (mdlq q)"

definition countersExact :: "Memq \<Rightarrow> bool" where
  "countersExact q \<longleftrightarrow>
     mactive q = int (length (running q)) \<and> mactive q \<le> Workers (mcfg q) \<and> int (length (mjobs q)) \<le> Buffer (mcfg q) \<and>
     mpending q = int (length (mjobs q)) + int (length (timers q)) - int (length (enqueuing q))"

definition memInv :: "QueueConfig \<Rightarrow> Memq \<Rightarrow> bool" where
  "memInv cfg q \<longleftrightarrow> mcfg q = applyDefaults cfg \<and> conserved q \<and> gSent q = gTaken q @ mjobs q \<and>
     (gLost q = [] \<or> mclosed q) \<and> attemptsBounded q \<and> countersExact q \<and> statesBounded q"

definition demoJob :: "JobID \<Rightarrow> Job" where
  "demoJob i = \<lparr>jID = i, jSource = \<lparr>Kind = ''file'', Ref = ''a.png'', RefDigest = [], srcMediaType = ''image''\<rparr>,
     Workflows = [], DedupThreshold = None, jMetadata = [], SubmittedAt = 0\<rparr>"

definition demoCfg :: QueueConfig where
  "demoCfg = \<lparr>Workers = 1, Buffer = 2, MaxRetries = 1, RetryBackoff = 1, DrainTimeout = 1, JobTimeout = 1, DeadLetterMax = 1\<rparr>"

text \<open>A run: a job is sent, taken and acknowledged before its producer finishes the bookkeeping.\<close>

definition raceSent :: Memq where
  "raceSent = projr (enqueueSend (projr (enqueueCheck (NewMemq demoCfg) (demoJob ''j''))) (demoJob ''j''))"

definition racePulled :: Memq where
  "racePulled = the (pull (projr (Start raceSent)))"

definition raceAcked :: Memq where
  "raceAcked = process racePulled \<lparr>qjob = demoJob ''j'', attempts = 0\<rparr> (Ret (Ack, None)) 0"

text \<open>A run: a producer passed the checks, the queue is closed, and only then the job is sent.\<close>

definition lateSent :: Memq where
  "lateSent = projr (enqueueSend (closeBegin (projr (enqueueCheck (NewMemq demoCfg) (demoJob ''j'')))) (demoJob ''j''))"

section \<open>Facts\<close>

lemma setState_fields [simp]:
  "mcfg (setState q j s) = mcfg q" "mjobs (setState q j s) = mjobs q" "mclosed (setState q j s) = mclosed q"
  "mstarted (setState q j s) = mstarted q" "mpending (setState q j s) = mpending q" "mactive (setState q j s) = mactive q"
  "mdlq (setState q j s) = mdlq q" "admitted (setState q j s) = admitted q" "enqueuing (setState q j s) = enqueuing q"
  "running (setState q j s) = running q" "timers (setState q j s) = timers q" "refired (setState q j s) = refired q"
  "gSent (setState q j s) = gSent q" "gTaken (setState q j s) = gTaken q" "gAccepted (setState q j s) = gAccepted q"
  "gAcked (setState q j s) = gAcked q" "gLost (setState q j s) = gLost q"
  by (simp_all add: setState_def Let_def split: prod.splits)

lemma evict_bound:
  "terminalIDs sts \<subseteq> set fin \<Longrightarrow> evict sts fin = (sts', fin') \<Longrightarrow>
     length fin' \<le> maxFinishedStates \<and> terminalIDs sts' \<subseteq> set fin'"
proof (induction sts fin rule: evict.induct)
  case (1 sts fin)
  show ?case
  proof (cases "length fin > maxFinishedStates")
    case True
    then obtain x xs where fin: "fin = x # xs" by (cases fin) auto
    let ?sts = "if isTerminalState (case map_of sts x of None \<Rightarrow> [] | Some v \<Rightarrow> v) then AList.delete x sts else sts"
    have "terminalIDs ?sts \<subseteq> set xs"
      using 1(2) fin by (auto simp: terminalIDs_def delete_conv' split: if_splits option.splits)
    moreover have "evict ?sts xs = (sts', fin')"
      using 1(3) True fin by (subst (asm) evict.simps) (simp add: Let_def)
    ultimately show ?thesis using 1(1) True fin by simp
  next
    case False
    then show ?thesis using 1 by (subst (asm) (2) evict.simps) simp
  qed
qed

lemma setState_bounded:
  assumes "statesBounded q"
  shows "statesBounded (setState q j s)"
proof (cases "\<not> isTerminalState s \<or> (case map_of (mstates q) j of None \<Rightarrow> False | Some p \<Rightarrow> isTerminalState p)")
  case True
  then have "terminalIDs (AList.update j s (mstates q)) \<subseteq> terminalIDs (mstates q)"
    by (auto simp: terminalIDs_def update_conv' split: option.splits if_splits)
  then show ?thesis using assms True by (auto simp: statesBounded_def setState_def Let_def)
next
  case False
  obtain sts fin where e: "evict (AList.update j s (mstates q)) (finished q @ [j]) = (sts, fin)" by fastforce
  have "terminalIDs (AList.update j s (mstates q)) \<subseteq> set (finished q @ [j])"
    using assms by (auto simp: statesBounded_def terminalIDs_def update_conv' split: if_splits)
  from evict_bound [OF this e] show ?thesis using False e by (simp add: statesBounded_def setState_def Let_def)
qed

lemma statesBounded_cong: "mstates q = mstates q' \<Longrightarrow> finished q = finished q' \<Longrightarrow> statesBounded q = statesBounded q'"
  by (simp add: statesBounded_def)

lemma bounded_setState:
  "statesBounded q \<Longrightarrow> mstates q' = mstates q \<Longrightarrow> finished q' = finished q \<Longrightarrow> statesBounded (setState q' j s)"
  using setState_bounded [of q'] statesBounded_cong [of q' q] by simp

lemma mset_map_remove1: "x \<in> set xs \<Longrightarrow> mset (map f xs) = add_mset (f x) (mset (map f (remove1 x xs)))"
  by (induction xs) auto

lemma int_length_remove1: "x \<in> set xs \<Longrightarrow> int (length (remove1 x xs)) = int (length xs) - 1"
proof -
  assume "x \<in> set xs"
  then have "0 < length xs" and "length (remove1 x xs) = length xs - 1"
    by (auto simp: length_remove1)
  then show "int (length (remove1 x xs)) = int (length xs) - 1" by linarith
qed

lemma list_all_remove1: "list_all P xs \<Longrightarrow> list_all P (remove1 x xs)"
  by (auto simp: list_all_iff dest: notin_set_remove1 [rotated])

lemmas op_defs = enqueueCheck_def enqueueSend_def enqueueFinish_def Start_def pull_def process_def deadLetter_def
  scheduleRetry_def fire_def fireFinish_def abandon_def closeBegin_def drainOne_def MemDLQ_Write_def

lemmas inv_parts = conserved_def attemptsBounded_def countersExact_def

lemma enqueueFinish_inv:
  assumes "memInv cfg q" "j \<in> set (enqueuing q)"
  shows "memInv cfg (enqueueFinish q j)"
proof -
  have "statesBounded (enqueueFinish q j)"
    unfolding enqueueFinish_def using assms(1) by (intro bounded_setState [of q]) (simp_all add: memInv_def)
  then show ?thesis using assms
    by (auto simp: memInv_def inv_parts enqueueFinish_def int_length_remove1)
qed

lemma pull_inv:
  assumes "memInv cfg q" "int (length (running q)) < Workers (mcfg q)" "pull q = Some q'"
  shows "memInv cfg q'"
proof -
  obtain qj rest where m: "mjobs q = qj # rest" using assms(3) by (auto simp: pull_def split: list.splits)
  have q': "q' = setState (q\<lparr>mjobs := rest, mpending := mpending q - 1, mactive := mactive q + 1,
            running := running q @ [qj], gTaken := gTaken q @ [qj]\<rparr>) (jID (qjob qj)) ''running''"
    using assms(3) m by (simp add: pull_def)
  moreover have "statesBounded q'"
    unfolding q' using assms(1) by (intro bounded_setState [of q]) (simp_all add: memInv_def)
  ultimately show ?thesis using assms(1,2) m
    by (auto simp: memInv_def inv_parts)
qed

text \<open>What the three ways a handled job can go do to the fields the invariant reads.\<close>

lemma process_inv:
  assumes "memInv cfg q" "qj \<in> set (running q)"
  shows "memInv cfg (process q qj h t)"
proof -
  obtain disp e where d: "runHandler h = (disp, e)" by fastforce
  let ?q0 = "q\<lparr>running := remove1 qj (running q)\<rparr>"
  let ?qj = "qj\<lparr>attempts := attempts qj + 1\<rparr>"
  have sb: "statesBounded (setState ?q0 j s)" for j s
    using assms(1) by (intro bounded_setState [of q]) (simp_all add: memInv_def)
  have att: "0 \<le> attempts qj" "attempts qj \<le> MaxRetries (mcfg q)" "MaxRetries (mcfg q) \<ge> 0"
    using assms applyDefaults_positive(3) [of cfg] by (auto simp: memInv_def attemptsBounded_def list_all_iff)
  have m: "mset (map qjob (running q)) = add_mset (qjob qj) (mset (map qjob (remove1 qj (running q))))"
    by (rule mset_map_remove1 [OF assms(2)])
  have base: "mcfg q = applyDefaults cfg" "gSent q = gTaken q @ mjobs q" "gLost q = [] \<or> mclosed q"
    using assms(1) by (auto simp: memInv_def)
  have c: "conserved q" and a: "attemptsBounded q" and n: "countersExact q" using assms(1) by (auto simp: memInv_def)
  note len = int_length_remove1 [OF assms(2)]
  have ra: "list_all P (running q) \<Longrightarrow> list_all P (remove1 qj (running q))" for P by (rule list_all_remove1)
  have dead: "process q qj h t = (deadLetter ?q0 ?qj r t)\<lparr>mactive := mactive q - 1\<rparr>"
    if "disp = DeadLetter \<and> r = ''dead-lettered: '' @ showErr e \<or> disp = Retry \<and> \<not> attempts qj + 1 \<le> MaxRetries (mcfg q) \<and>
      r = ''max retries ('' @ show_int (MaxRetries (mcfg q)) @ '') exceeded: '' @ showErr e" for r
    using that d by (auto simp: process_def deadLetter_def Let_def)
  consider "disp = Ack" | "disp = Retry" "attempts qj + 1 \<le> MaxRetries (mcfg q)"
    | r where "process q qj h t = (deadLetter ?q0 ?qj r t)\<lparr>mactive := mactive q - 1\<rparr>"
    using dead by (cases disp) blast+
  then show ?thesis
  proof cases
    case 1
    have p: "process q qj h t = (setState ?q0 (jID (qjob qj)) ''done'')\<lparr>gAcked := gAcked q @ [qjob qj], mactive := mactive q - 1\<rparr>"
      using d 1 by (simp add: process_def Let_def)
    show ?thesis using sb [of "jID (qjob qj)" "''done''"] base c a n m len ra
      by (auto simp: p memInv_def inv_parts statesBounded_def)
  next
    case 2
    have p: "process q qj h t = (setState ?q0 (jID (qjob qj)) ''retrying'')\<lparr>mpending := mpending q + 1,
        timers := timers q @ [?qj], mactive := mactive q - 1\<rparr>"
      using d 2 by (simp add: process_def Let_def scheduleRetry_def)
    show ?thesis using sb [of "jID (qjob qj)" "''retrying''"] base c a n m len ra att 2
      by (auto simp: p memInv_def inv_parts statesBounded_def)
  next
    case (3 r)
    show ?thesis using sb [of "jID (qjob qj)" "''dead''"] base c a n m len ra att
      by (auto simp: 3 deadLetter_def Let_def MemDLQ_Write_def memInv_def inv_parts statesBounded_def)
  qed
qed

lemma memInv_init: "memInv cfg (NewMemq cfg)"
  using applyDefaults_positive [of cfg]
  by (simp add: memInv_def NewMemq_def inv_parts statesBounded_def terminalIDs_def)

lemma memStep_inv:
  assumes "memInv cfg q" "memStep q q'"
  shows "memInv cfg q'"
  using assms(2)
proof cases
  case (check j)
  then show ?thesis using assms(1)
    by (auto simp: enqueueCheck_def memInv_def inv_parts statesBounded_def split: if_splits)
next
  case (send j)
  have "MaxRetries (applyDefaults cfg) \<ge> 0" by (rule applyDefaults_positive(3))
  with send show ?thesis using assms(1)
    by (auto simp: enqueueSend_def memInv_def inv_parts statesBounded_def split: if_splits)
next
  case (refused j e)
  then show ?thesis using assms(1) by (auto simp: memInv_def inv_parts statesBounded_def)
next
  case (enqFinish j)
  then show ?thesis using assms(1) enqueueFinish_inv by simp
next
  case start
  then show ?thesis using assms(1) by (auto simp: Start_def memInv_def inv_parts statesBounded_def split: if_splits)
next
  case worker
  then show ?thesis using assms(1) pull_inv by simp
next
  case (handled qj h t)
  then show ?thesis using assms(1) process_inv by simp
next
  case (timer qj)
  have "list_all P (timers q) \<Longrightarrow> list_all P (remove1 qj (timers q))" for P by (rule list_all_remove1)
  moreover have "0 \<le> attempts qj" "attempts qj \<le> MaxRetries (mcfg q)"
    using assms(1) timer(2) by (auto simp: memInv_def attemptsBounded_def list_all_iff)
  ultimately show ?thesis using assms(1) timer mset_map_remove1 [OF timer(2), of qjob] int_length_remove1 [OF timer(2)]
    by (auto simp: fire_def memInv_def inv_parts statesBounded_def)
next
  case (timerFinish qj)
  have "statesBounded (fireFinish q qj)"
    unfolding fireFinish_def using assms(1) by (intro bounded_setState [of q]) (simp_all add: memInv_def)
  then show ?thesis using assms(1) timerFinish by (auto simp: fireFinish_def memInv_def inv_parts)
next
  case (timerStop qj)
  have "list_all P (timers q) \<Longrightarrow> list_all P (remove1 qj (timers q))" for P by (rule list_all_remove1)
  then show ?thesis using assms(1) timerStop mset_map_remove1 [OF timerStop(3), of qjob] int_length_remove1 [OF timerStop(3)]
    by (auto simp: abandon_def memInv_def inv_parts statesBounded_def)
next
  case shut
  then show ?thesis using assms(1) by (auto simp: closeBegin_def memInv_def inv_parts statesBounded_def)
next
  case drain
  then show ?thesis using assms(1)
    by (auto simp: drainOne_def memInv_def inv_parts statesBounded_def split: list.splits)
qed

interpretation memq: ledger "NewMemq cfg" memStep "memInv cfg" "\<lambda>q. set (gAccepted q)" "\<lambda>q. set_mset (heldJobs q)"
  "\<lambda>q. set_mset (settledJobs q)" "\<lambda>q. set (gLost q)"
  for cfg
proof
  show "memInv cfg (NewMemq cfg)" by (rule memInv_init)
  show "memInv cfg q \<Longrightarrow> memStep q q' \<Longrightarrow> memInv cfg q'" for q q' by (rule memStep_inv)
  show "set (gAccepted q) \<subseteq> set_mset (heldJobs q) \<union> set_mset (settledJobs q) \<union> set (gLost q)" if "memInv cfg q" for q
  proof -
    have "mset (gAccepted q) = heldJobs q + settledJobs q + mset (gLost q)"
      using that by (simp add: memInv_def conserved_def heldJobs_def settledJobs_def)
    then have "set_mset (mset (gAccepted q)) = set_mset (heldJobs q + settledJobs q + mset (gLost q))" by simp
    then show ?thesis by simp
  qed
qed

lemma memReach_inv: "memReach cfg q \<Longrightarrow> memInv cfg q"
  unfolding memReach_def by (rule memq.reach_inv)

lemma memReach_init: "memReach cfg (NewMemq cfg)"
  by (simp add: memReach_def)

lemma memReach_step: "memReach cfg q \<Longrightarrow> memStep q q' \<Longrightarrow> memReach cfg q'"
  by (simp add: memReach_def)

lemmas demo_defs = demoCfg_def NewMemq_def applyDefaults_def MemDLQ_Depth_def

lemma race_sent: "memReach demoCfg raceSent" "mjobs raceSent = [\<lparr>qjob = demoJob ''j'', attempts = 0\<rparr>]"
  "mstarted raceSent = False" "running raceSent = []" "enqueuing raceSent = [demoJob ''j'']" "mcfg raceSent = demoCfg"
  "timers raceSent = []" "gAcked raceSent = []" "mstates raceSent = []" "finished raceSent = []"
proof -
  obtain q1 where q1: "enqueueCheck (NewMemq demoCfg) (demoJob ''j'') = Inr q1" "demoJob ''j'' \<in> set (admitted q1)"
    by (simp add: enqueueCheck_def demo_defs)
  have q2: "enqueueSend q1 (demoJob ''j'') = Inr raceSent"
    using q1(1) by (auto simp: raceSent_def enqueueCheck_def enqueueSend_def demo_defs)
  show "memReach demoCfg raceSent"
    by (rule memReach_step [OF memReach_step [OF memReach_init memStep.check [OF q1(1)]] memStep.send [OF q1(2) q2]])
qed (simp_all add: raceSent_def enqueueCheck_def enqueueSend_def demo_defs)

lemma race_pulled: "memReach demoCfg racePulled" "mjobs racePulled = []" "running racePulled = [\<lparr>qjob = demoJob ''j'', attempts = 0\<rparr>]"
  "enqueuing racePulled = [demoJob ''j'']" "timers racePulled = []" "gAcked racePulled = []"
proof -
  have s: "Start raceSent = Inr (raceSent\<lparr>mstarted := True\<rparr>)" by (simp add: Start_def race_sent)
  then obtain q where p: "pull (raceSent\<lparr>mstarted := True\<rparr>) = Some q" "q = racePulled"
    by (simp add: pull_def race_sent racePulled_def)
  have "memReach demoCfg (raceSent\<lparr>mstarted := True\<rparr>)" by (rule memReach_step [OF race_sent(1) memStep.start [OF s]])
  moreover have "memStep (raceSent\<lparr>mstarted := True\<rparr>) racePulled"
    using p by (intro memStep.worker) (simp_all add: race_sent demoCfg_def)
  ultimately show "memReach demoCfg racePulled" by (rule memReach_step)
qed (simp_all add: racePulled_def Start_def pull_def race_sent)

lemma race_acked: "memReach demoCfg raceAcked" "mjobs raceAcked = []" "running raceAcked = []"
  "enqueuing raceAcked = [demoJob ''j'']" "timers raceAcked = []" "gAcked raceAcked = [demoJob ''j'']"
proof -
  show "memReach demoCfg raceAcked"
    unfolding raceAcked_def by (rule memReach_step [OF race_pulled(1) memStep.handled]) (simp add: race_pulled)
qed (simp_all add: raceAcked_def process_def runHandler_def race_pulled)

section \<open>Properties\<close>

text \<open>
  C10. No job is dropped: under every interleaving of producers, workers, timers and shutdown, each accepted
  job is exactly once waiting, running, between attempts, acknowledged, dead-lettered, or lost, and none is
  lost before \<open>Close\<close>.
\<close>

theorem memq_conserves_jobs:
  assumes "memReach cfg q"
  shows "mset (gAccepted q) = heldJobs q + settledJobs q + mset (gLost q) \<and> (gLost q = [] \<or> mclosed q)"
  using memReach_inv [OF assms] by (simp add: memInv_def conserved_def heldJobs_def settledJobs_def)

theorem memq_conserves_jobs_witness:
  "mset (gAccepted racePulled) = heldJobs racePulled + settledJobs racePulled + mset (gLost racePulled) \<and>
   (gLost racePulled = [] \<or> mclosed racePulled) \<and> demoJob ''j'' \<in># heldJobs racePulled"
  using memq_conserves_jobs [OF race_pulled(1)] by (simp add: heldJobs_def race_pulled)

text \<open>
  Dequeue order is enqueue order: the jobs the workers (and the shutdown drain) took, followed by those
  still buffered, are exactly the jobs sent on the channel in the order they were sent. A job is never
  handled more than \<open>MaxRetries + 1\<close> times: no job waiting or running has completed more than \<open>MaxRetries\<close>
  attempts, and every dead letter records between one and \<open>MaxRetries + 1\<close>.
\<close>

theorem memq_fifo_bounded_attempts:
  assumes "memReach cfg q"
  shows "gSent q = gTaken q @ mjobs q \<and>
    list_all (\<lambda>qj. 0 \<le> attempts qj \<and> attempts qj \<le> MaxRetries (applyDefaults cfg)) (mjobs q @ running q @ timers q) \<and>
    list_all (\<lambda>e. 0 < dlAttempts e \<and> dlAttempts e \<le> MaxRetries (applyDefaults cfg) + 1) (mdlq q)"
  using memReach_inv [OF assms] by (auto simp: memInv_def attemptsBounded_def)

theorem memq_fifo_bounded_attempts_witness:
  "gSent racePulled = gTaken racePulled @ mjobs racePulled \<and>
   list_all (\<lambda>qj. 0 \<le> attempts qj \<and> attempts qj \<le> MaxRetries (applyDefaults demoCfg)) (running racePulled)"
  using memq_fifo_bounded_attempts [OF race_pulled(1)] by simp

text \<open>
  The job-state table is bounded: at most 500 jobs in a terminal state are remembered, the pool never
  runs more jobs than it has workers, and the reported depth is the number of buffered and waiting jobs
  less the producers still between their send and their bookkeeping.
\<close>

theorem memq_bounded:
  assumes "memReach cfg q"
  shows "card (terminalIDs (mstates q)) \<le> 500 \<and> ActiveWorkers q \<le> Workers (applyDefaults cfg) \<and>
    QueueDepth q = int (length (mjobs q)) + int (length (timers q)) - int (length (enqueuing q))"
proof -
  have i: "statesBounded q" "countersExact q" "mcfg q = applyDefaults cfg" using memReach_inv [OF assms] by (auto simp: memInv_def)
  have "card (terminalIDs (mstates q)) \<le> card (set (finished q))"
    using i(1) by (intro card_mono) (auto simp: statesBounded_def)
  also have "\<dots> \<le> 500" using i(1) card_length [of "finished q"] by (simp add: statesBounded_def maxFinishedStates_def)
  finally show ?thesis using i(2,3) by (simp add: countersExact_def ActiveWorkers_def QueueDepth_def)
qed

theorem memq_bounded_witness: "ActiveWorkers racePulled \<le> 1 \<and> QueueDepth racePulled = - 1"
  using memq_bounded [OF race_pulled(1)] race_pulled by (simp add: demoCfg_def applyDefaults_def)

text \<open>
  The bookkeeping of \<open>Enqueue\<close> can overtake the job: in a reachable state the job is acknowledged,
  nothing is waiting, running or pending, and the state table still reports it as queued, an entry that no
  eviction removes.
\<close>

theorem memq_state_race:
  "\<exists>q. memReach demoCfg q \<and> gAcked q = [demoJob ''j''] \<and> heldJobs q = {#} \<and> enqueuing q = [] \<and> States q ''j'' = Some ''queued''"
proof (intro exI conjI)
  let ?q = "enqueueFinish raceAcked (demoJob ''j'')"
  show "memReach demoCfg ?q" by (rule memReach_step [OF race_acked(1) memStep.enqFinish]) (simp add: race_acked)
  show "gAcked ?q = [demoJob ''j'']" "heldJobs ?q = {#}" "enqueuing ?q = []"
    by (simp_all add: enqueueFinish_def heldJobs_def race_acked)
  show "States ?q ''j'' = Some ''queued''"
    by (simp add: States_def enqueueFinish_def setState_def isTerminalState_def demoJob_def update_conv')
qed

text \<open>
  \<open>Enqueue\<close> can report success after shutdown: a producer that passed the closed check before \<open>Close\<close>
  sends its job into the closed queue after the drain, where no worker and no warning will ever see it.
\<close>

theorem memq_enqueue_after_close:
  "\<exists>q. memReach demoCfg q \<and> mclosed q \<and> gAccepted q = [demoJob ''j''] \<and> map qjob (mjobs q) = [demoJob ''j''] \<and>
     running q = [] \<and> gLost q = []"
proof (intro exI conjI)
  obtain q1 where q1: "enqueueCheck (NewMemq demoCfg) (demoJob ''j'') = Inr q1" by (simp add: enqueueCheck_def demo_defs)
  have q2: "enqueueSend (closeBegin q1) (demoJob ''j'') = Inr lateSent" "demoJob ''j'' \<in> set (admitted (closeBegin q1))"
    using q1 by (auto simp: lateSent_def enqueueCheck_def enqueueSend_def closeBegin_def demo_defs)
  show "memReach demoCfg lateSent"
    by (rule memReach_step [OF memReach_step [OF memReach_step [OF memReach_init memStep.check [OF q1]] memStep.shut]
          memStep.send [OF q2(2,1)]])
qed (simp_all add: lateSent_def enqueueCheck_def enqueueSend_def closeBegin_def demo_defs)

end
