(* ===== verification/Redisq.thy ===== *)
theory Redisq
  imports Memq
begin

text \<open>
  The production queue driver (\<open>internal/queue/redisq.go\<close>). The Redis server is a parameter: its commands
  are the fields of a record, and what the driver relies on (lists and sorted sets with the documented
  effect of each command) are the laws of the locale \<open>redis\<close>. Each command is one atomic step of the
  transition system, so replicas interleave between any two commands and may stop after any of them.
  A list element is what \<open>json.Unmarshal\<close> reads from it.
\<close>

section \<open>The server\<close>

datatype RKey = KPending | KProcessing string | KLegacy | KInstances | KRetry | KDead

datatype RVal = VPayload Job int | VPoison string | VDead DeadLetterEntry | VInstance string

record 'r Redis =
  LPush :: "RKey \<Rightarrow> RVal \<Rightarrow> 'r \<Rightarrow> 'r"
  LMoveRightLeft :: "RKey \<Rightarrow> RKey \<Rightarrow> 'r \<Rightarrow> ('r \<times> RVal) option"
  LMoveRightRight :: "RKey \<Rightarrow> RKey \<Rightarrow> 'r \<Rightarrow> ('r \<times> RVal) option"
  LRem1 :: "RKey \<Rightarrow> RVal \<Rightarrow> 'r \<Rightarrow> 'r"
  LLen :: "RKey \<Rightarrow> 'r \<Rightarrow> nat"
  ZAdd :: "RKey \<Rightarrow> int \<Rightarrow> RVal \<Rightarrow> 'r \<Rightarrow> 'r"
  ZAddNX :: "RKey \<Rightarrow> int \<Rightarrow> RVal \<Rightarrow> 'r \<Rightarrow> 'r \<times> nat"
  ZRem :: "RKey \<Rightarrow> RVal \<Rightarrow> 'r \<Rightarrow> 'r"
  ZRangeByScore :: "RKey \<Rightarrow> int \<Rightarrow> nat \<Rightarrow> 'r \<Rightarrow> RVal list"
  ZCard :: "RKey \<Rightarrow> 'r \<Rightarrow> nat"

text \<open>The documented effect of the commands on the lists (left end first) and sorted sets of a server.\<close>

locale redis =
  fixes R :: "'r Redis"
    and lst :: "'r \<Rightarrow> RKey \<Rightarrow> RVal list"
    and zset :: "'r \<Rightarrow> RKey \<Rightarrow> RVal \<Rightarrow> int option"
  assumes LPush_lst: "lst (LPush R k v r) = (lst r)(k := v # lst r k)"
    and LPush_zset: "zset (LPush R k v r) = zset r"
    and LMoveRL_empty: "lst r a = [] \<Longrightarrow> LMoveRightLeft R a b r = None"
    and LMoveRL_some: "lst r a = xs @ [v] \<Longrightarrow> a \<noteq> b \<Longrightarrow>
      \<exists>r'. LMoveRightLeft R a b r = Some (r', v) \<and> lst r' = (lst r)(a := xs, b := v # lst r b) \<and> zset r' = zset r"
    and LMoveRR_empty: "lst r a = [] \<Longrightarrow> LMoveRightRight R a b r = None"
    and LMoveRR_some: "lst r a = xs @ [v] \<Longrightarrow> a \<noteq> b \<Longrightarrow>
      \<exists>r'. LMoveRightRight R a b r = Some (r', v) \<and> lst r' = (lst r)(a := xs, b := lst r b @ [v]) \<and> zset r' = zset r"
    and LRem_lst: "lst (LRem1 R k v r) = (lst r)(k := remove1 v (lst r k))"
    and LRem_zset: "zset (LRem1 R k v r) = zset r"
    and LLen_lst: "LLen R k r = length (lst r k)"
    and ZAdd_lst: "lst (ZAdd R k s v r) = lst r"
    and ZAdd_zset: "zset (ZAdd R k s v r) = (zset r)(k := (zset r k)(v \<mapsto> s))"
    and ZAddNX_some: "zset r k v \<noteq> None \<Longrightarrow> ZAddNX R k s v r = (r, 0)"
    and ZAddNX_none: "zset r k v = None \<Longrightarrow> ZAddNX R k s v r = (ZAdd R k s v r, 1)"
    and ZRem_lst: "lst (ZRem R k v r) = lst r"
    and ZRem_zset: "zset (ZRem R k v r) = (zset r)(k := (zset r k)(v := None))"
    and ZRange_member: "v \<in> set (ZRangeByScore R k mx n r) \<Longrightarrow> \<exists>s. zset r k v = Some s \<and> s \<le> mx"
    and ZRange_some: "zset r k v = Some s \<Longrightarrow> s \<le> mx \<Longrightarrow> 0 < n \<Longrightarrow> ZRangeByScore R k mx n r \<noteq> []"

section \<open>Driver operations\<close>

definition legacyInstance :: string where "legacyInstance = ''legacy''"

definition instanceProcessingKey :: "string \<Rightarrow> RKey" where
  "instanceProcessingKey i = (if i = legacyInstance then KLegacy else KProcessing i)"

definition instanceReclaimAfter :: int where "instanceReclaimAfter = 60000"

text \<open>The replica: its identifier, its tuning and whether it was closed.\<close>

record Replica =
  rcfg :: QueueConfig
  rinstance :: string
  rclosed :: bool
  rstarted :: bool

definition NewRedisq :: "QueueConfig \<Rightarrow> string \<Rightarrow> Replica" where
  "NewRedisq cfg i = \<lparr>rcfg = applyDefaults cfg, rinstance = i, rclosed = False, rstarted = False\<rparr>"

definition processingKey :: "Replica \<Rightarrow> RKey" where
  "processingKey q = KProcessing (rinstance q)"

definition newInstanceID :: "string res \<Rightarrow> int \<Rightarrow> string" where
  "newInstanceID entropy nanos =
     (case entropy of Inl e \<Rightarrow> ''i-'' @ show_int nanos | Inr b \<Rightarrow> ''i-'' @ hex_encode b)"

definition redisDLQ_Write :: "'r Redis \<Rightarrow> DeadLetterEntry \<Rightarrow> 'r \<Rightarrow> 'r" where
  "redisDLQ_Write R e r = LPush R KDead (VDead e) r"

definition redisDLQ_Depth :: "'r Redis \<Rightarrow> 'r \<Rightarrow> int" where
  "redisDLQ_Depth R r = int (LLen R KDead r)"

text \<open>An error argument stands for the failure of the command at that place.\<close>

definition rEnqueue :: "'r Redis \<Rightarrow> Replica \<Rightarrow> goerr option \<Rightarrow> goerr option \<Rightarrow> Job \<Rightarrow> 'r \<Rightarrow> 'r \<times> JobID res" where
  "rEnqueue R q depthErr pushErr j r =
     (if rclosed q then (r, Inl errQueueClosed)
      else case depthErr of
          Some e \<Rightarrow> (r, Inl (wrapf ''redisq: dlq depth: '' e))
        | None \<Rightarrow>
            if redisDLQ_Depth R r \<ge> DeadLetterMax (rcfg q) then (r, Inl errDeadLetterFull)
            else case pushErr of
                Some e \<Rightarrow> (r, Inl (wrapf ''redisq: enqueue: '' e))
              | None \<Rightarrow> (LPush R KPending (VPayload j 0) r, Inr (jID j)))"

text \<open>A worker claims the oldest pending payload.\<close>

definition claimNext :: "'r Redis \<Rightarrow> Replica \<Rightarrow> 'r \<Rightarrow> ('r \<times> RVal) option" where
  "claimNext R q r = LMoveRightLeft R KPending (processingKey q) r"

definition ack :: "'r Redis \<Rightarrow> Replica \<Rightarrow> RVal \<Rightarrow> 'r \<Rightarrow> 'r" where
  "ack R q raw r = LRem1 R (processingKey q) raw r"

text \<open>What \<open>process\<close> decides for a claimed payload and a handler result, before it touches the server.\<close>

datatype Outcome = Acked | Dead DeadLetterEntry | Again Job int int

definition zeroJob :: Job where
  "zeroJob = \<lparr>jID = [], jSource = \<lparr>Kind = [], Ref = [], RefDigest = [], srcMediaType = []\<rparr>, Workflows = [],
     DedupThreshold = None, jMetadata = [], SubmittedAt = 0\<rparr>"

definition processOutcome ::
  "Replica \<Rightarrow> RVal \<Rightarrow> (Disposition \<times> goerr option) call \<Rightarrow> int \<Rightarrow> Outcome option" where
  "processOutcome q raw h t =
     (case raw of
        VPayload j n \<Rightarrow>
          (let (disp, e) = runHandler h; n' = n + 1 in
           Some (case disp of
              Ack \<Rightarrow> Acked
            | Retry \<Rightarrow>
                if n' > MaxRetries (rcfg q) then
                  Dead \<lparr>dlJob = j, dlReason = ''max retries ('' @ show_int (MaxRetries (rcfg q)) @ '') exceeded: '' @ showErr e,
                    dlAttempts = n', dlAt = t\<rparr>
                else Again j n' (t + RetryBackoff (rcfg q) * n')
            | DeadLetter \<Rightarrow> Dead \<lparr>dlJob = j, dlReason = ''dead-lettered: '' @ showErr e, dlAttempts = n', dlAt = t\<rparr>))
      | VPoison m \<Rightarrow>
          Some (Dead \<lparr>dlJob = zeroJob, dlReason = ''undecodable payload: '' @ m, dlAttempts = 0, dlAt = t\<rparr>)
      | _ \<Rightarrow> None)"

text \<open>The first command \<open>process\<close> issues for an outcome; the acknowledgement is the second, and is
  skipped when the first failed.\<close>

definition recordOutcome :: "'r Redis \<Rightarrow> Outcome \<Rightarrow> 'r \<Rightarrow> 'r" where
  "recordOutcome R out r =
     (case out of
        Acked \<Rightarrow> r
      | Dead e \<Rightarrow> redisDLQ_Write R e r
      | Again j n ready \<Rightarrow> ZAdd R KRetry (ready div Millisecond) (VPayload j n) r)"

definition heartbeat :: "'r Redis \<Rightarrow> Replica \<Rightarrow> int \<Rightarrow> 'r \<Rightarrow> 'r" where
  "heartbeat R q nowMs r = ZAdd R KInstances nowMs (VInstance (rinstance q)) r"

definition registerLegacyIfPresent :: "'r Redis \<Rightarrow> int \<Rightarrow> 'r \<Rightarrow> 'r" where
  "registerLegacyIfPresent R nowMs r =
     (if LLen R KLegacy r = 0 then r else fst (ZAddNX R KInstances nowMs (VInstance legacyInstance) r))"

text \<open>The loop of \<open>drainProcessing\<close>, with the number of moves it may make.\<close>

fun drainLoop :: "'r Redis \<Rightarrow> nat \<Rightarrow> RKey \<Rightarrow> 'r \<Rightarrow> nat \<Rightarrow> ('r \<times> nat) option" where
  "drainLoop R 0 key r n = None"
| "drainLoop R (Suc fuel) key r n =
     (case LMoveRightRight R key KPending r of
        None \<Rightarrow> Some (r, n)
      | Some (r', v) \<Rightarrow> drainLoop R fuel key r' (n + 1))"

definition drainProcessing :: "'r Redis \<Rightarrow> RKey \<Rightarrow> 'r \<Rightarrow> ('r \<times> nat) option" where
  "drainProcessing R key r = drainLoop R (LLen R key r + 1) key r 0"

definition recoverOrphans :: "'r Redis \<Rightarrow> Replica \<Rightarrow> 'r \<Rightarrow> 'r option" where
  "recoverOrphans R q r = map_option fst (drainProcessing R (processingKey q) r)"

definition staleInstances :: "'r Redis \<Rightarrow> int \<Rightarrow> 'r \<Rightarrow> RVal list" where
  "staleInstances R nowMs r = ZRangeByScore R KInstances (nowMs - instanceReclaimAfter) 100 r"

fun reapLoop :: "'r Redis \<Rightarrow> Replica \<Rightarrow> RVal list \<Rightarrow> 'r \<Rightarrow> 'r option" where
  "reapLoop R q [] r = Some r"
| "reapLoop R q (v # vs) r =
     (case v of
        VInstance i \<Rightarrow>
          if i = rinstance q then reapLoop R q vs r
          else (case drainProcessing R (instanceProcessingKey i) r of
                  None \<Rightarrow> None
                | Some (r', n) \<Rightarrow> reapLoop R q vs (ZRem R KInstances v r'))
      | _ \<Rightarrow> reapLoop R q vs r)"

definition reapDeadInstances :: "'r Redis \<Rightarrow> Replica \<Rightarrow> int \<Rightarrow> 'r \<Rightarrow> 'r option" where
  "reapDeadInstances R q nowMs r = reapLoop R q (staleInstances R nowMs r) r"

definition rStart :: "'r Redis \<Rightarrow> Replica \<Rightarrow> int \<Rightarrow> 'r \<Rightarrow> (Replica \<times> 'r) res option" where
  "rStart R q nowMs r =
     (if rstarted q then Some (Inl (errorf ''redisq: Start called twice''))
      else case recoverOrphans R q (registerLegacyIfPresent R nowMs (heartbeat R q nowMs r)) of
          None \<Rightarrow> None
        | Some r' \<Rightarrow> map_option (\<lambda>r''. Inr (q\<lparr>rstarted := True\<rparr>, r'')) (reapDeadInstances R q nowMs r'))"

text \<open>One pass of \<open>retryMover\<close> over the due members.\<close>

definition dueRetries :: "'r Redis \<Rightarrow> int \<Rightarrow> 'r \<Rightarrow> RVal list" where
  "dueRetries R nowMs r = ZRangeByScore R KRetry nowMs 100 r"

definition moveRetries :: "'r Redis \<Rightarrow> int \<Rightarrow> 'r \<Rightarrow> 'r" where
  "moveRetries R nowMs r = foldl (\<lambda>s v. ZRem R KRetry v (LPush R KPending v s)) r (dueRetries R nowMs r)"

definition rQueueDepth :: "'r Redis \<Rightarrow> 'r \<Rightarrow> nat" where
  "rQueueDepth R r = LLen R KPending r + ZCard R KRetry r"

text \<open>The argument holds the instances whose keys the scan of the key space found.\<close>

definition ProcessingDepth :: "'r Redis \<Rightarrow> string list \<Rightarrow> 'r \<Rightarrow> nat" where
  "ProcessingDepth R keys r = sum_list (map (\<lambda>i. LLen R (KProcessing i) r) keys) + LLen R KLegacy r"

definition rClose :: "Replica \<Rightarrow> Replica" where
  "rClose q = q\<lparr>rclosed := True\<rparr>"

section \<open>Replicas sharing a server\<close>

text \<open>What the replicas hold in memory between two commands: payloads in a handler, outcomes recorded but not
  yet acknowledged, retries pushed but not yet removed, and the stale instances a reaper works on, with
  whether it found their list empty. A crash loses any of it. \<open>gEnqueued\<close> and
  \<open>gAcked\<close> record history.\<close>

record 'r Cluster =
  store :: 'r
  handling :: "(Replica \<times> RVal) list"
  recorded :: "(Replica \<times> RVal) list"
  promoted :: "RVal list"
  reaping :: "(Replica \<times> string \<times> bool) list"
  gEnqueued :: "Job set"
  gAckedJobs :: "Job set"

definition emptyCluster :: "'r \<Rightarrow> 'r Cluster" where
  "emptyCluster r = \<lparr>store = r, handling = [], recorded = [], promoted = [], reaping = [], gEnqueued = {}, gAckedJobs = {}\<rparr>"

inductive redStep :: "'r Redis \<Rightarrow> 'r Cluster \<Rightarrow> 'r Cluster \<Rightarrow> bool" for R where
  rsEnqueue: "rEnqueue R q None None j (store c) = (r', Inr i) \<Longrightarrow>
    redStep R c (c\<lparr>store := r', gEnqueued := insert j (gEnqueued c)\<rparr>)"
| rsClaim: "claimNext R q (store c) = Some (r', raw) \<Longrightarrow>
    redStep R c (c\<lparr>store := r', handling := (q, raw) # handling c\<rparr>)"
| rsRecord: "(q, raw) \<in> set (handling c) \<Longrightarrow> processOutcome q raw h t = Some out \<Longrightarrow>
    redStep R c (c\<lparr>store := recordOutcome R out (store c), handling := remove1 (q, raw) (handling c),
      recorded := (q, raw) # recorded c,
      gAckedJobs := (case (out, raw) of (Acked, VPayload j n) \<Rightarrow> insert j (gAckedJobs c) | _ \<Rightarrow> gAckedJobs c)\<rparr>)"
| rsAck: "(q, raw) \<in> set (recorded c) \<Longrightarrow>
    redStep R c (c\<lparr>store := ack R q raw (store c), recorded := remove1 (q, raw) (recorded c)\<rparr>)"
| rsPromote: "v \<in> set (dueRetries R nowMs (store c)) \<Longrightarrow>
    redStep R c (c\<lparr>store := LPush R KPending v (store c), promoted := v # promoted c\<rparr>)"
| rsPromoted: "v \<in> set (promoted c) \<Longrightarrow>
    redStep R c (c\<lparr>store := ZRem R KRetry v (store c), promoted := remove1 v (promoted c)\<rparr>)"
| rsRecover: "LMoveRightRight R (processingKey q) KPending (store c) = Some (r', v) \<Longrightarrow>
    redStep R c (c\<lparr>store := r'\<rparr>)"
| rsScan: "VInstance i \<in> set (staleInstances R nowMs (store c)) \<Longrightarrow> i \<noteq> rinstance q \<Longrightarrow>
    redStep R c (c\<lparr>reaping := (q, i, False) # reaping c\<rparr>)"
| rsReclaim: "(q, i, False) \<in> set (reaping c) \<Longrightarrow>
    LMoveRightRight R (instanceProcessingKey i) KPending (store c) = Some (r', v) \<Longrightarrow>
    redStep R c (c\<lparr>store := r'\<rparr>)"
| rsDrained: "(q, i, False) \<in> set (reaping c) \<Longrightarrow>
    LMoveRightRight R (instanceProcessingKey i) KPending (store c) = None \<Longrightarrow>
    redStep R c (c\<lparr>reaping := (q, i, True) # remove1 (q, i, False) (reaping c)\<rparr>)"
| rsDeregister: "(q, i, True) \<in> set (reaping c) \<Longrightarrow>
    redStep R c (c\<lparr>store := ZRem R KInstances (VInstance i) (store c), reaping := remove1 (q, i, True) (reaping c)\<rparr>)"
| rsBeat: "redStep R c (c\<lparr>store := heartbeat R q nowMs (store c)\<rparr>)"
| rsLegacy: "redStep R c (c\<lparr>store := registerLegacyIfPresent R nowMs (store c)\<rparr>)"
| rsCrash: "set hs \<subseteq> set (handling c) \<Longrightarrow> set rs \<subseteq> set (recorded c) \<Longrightarrow> set ps \<subseteq> set (promoted c) \<Longrightarrow>
    set qs \<subseteq> set (reaping c) \<Longrightarrow> redStep R c (c\<lparr>handling := hs, recorded := rs, promoted := ps, reaping := qs\<rparr>)"

section \<open>Where a job is\<close>

definition inList :: "('r \<Rightarrow> RKey \<Rightarrow> RVal list) \<Rightarrow> 'r Cluster \<Rightarrow> Job \<Rightarrow> int \<Rightarrow> bool" where
  "inList lst c j n \<longleftrightarrow> (\<exists>k. VPayload j n \<in> set (lst (store c) k))"

definition inRetry :: "('r \<Rightarrow> RKey \<Rightarrow> RVal \<Rightarrow> int option) \<Rightarrow> 'r Cluster \<Rightarrow> Job \<Rightarrow> int \<Rightarrow> bool" where
  "inRetry zset c j n \<longleftrightarrow> zset (store c) KRetry (VPayload j n) \<noteq> None"

definition settledJob :: "('r \<Rightarrow> RKey \<Rightarrow> RVal list) \<Rightarrow> 'r Cluster \<Rightarrow> Job \<Rightarrow> bool" where
  "settledJob lst c j \<longleftrightarrow> j \<in> gAckedJobs c \<or> (\<exists>e. VDead e \<in> set (lst (store c) KDead) \<and> dlJob e = j)"

text \<open>The job is settled or a copy with at least \<open>n\<close> attempts (in the retry set: \<open>n + b\<close>) is on the server.\<close>

definition secured ::
  "('r \<Rightarrow> RKey \<Rightarrow> RVal list) \<Rightarrow> ('r \<Rightarrow> RKey \<Rightarrow> RVal \<Rightarrow> int option) \<Rightarrow> 'r Cluster \<Rightarrow> Job \<Rightarrow> int \<Rightarrow> int \<Rightarrow> bool" where
  "secured lst zset c j n b \<longleftrightarrow> settledJob lst c j \<or> (\<exists>m \<ge> n. inList lst c j m) \<or> (\<exists>m \<ge> n + b. inRetry zset c j m)"

definition redInv ::
  "('r \<Rightarrow> RKey \<Rightarrow> RVal list) \<Rightarrow> ('r \<Rightarrow> RKey \<Rightarrow> RVal \<Rightarrow> int option) \<Rightarrow> 'r Cluster \<Rightarrow> bool" where
  "redInv lst zset c \<longleftrightarrow>
     (\<forall>j \<in> gEnqueued c. \<exists>n. secured lst zset c j n 0) \<and>
     (\<forall>q j n. (q, VPayload j n) \<in> set (recorded c) \<longrightarrow> secured lst zset c j (n + 1) 0) \<and>
     (\<forall>j n. VPayload j n \<in> set (promoted c) \<longrightarrow> secured lst zset c j n 1)"

section \<open>Facts\<close>

lemma secured_mono:
  assumes "secured lst zset c j n b"
    and "settledJob lst c j \<Longrightarrow> settledJob lst c' j"
    and "\<And>m. inList lst c j m \<Longrightarrow> inList lst c' j m" and "\<And>m. inRetry zset c j m \<Longrightarrow> inRetry zset c' j m"
  shows "secured lst zset c' j n b"
  using assms unfolding secured_def by blast

lemma redInv_grow:
  assumes "redInv lst zset c" "gEnqueued c' = gEnqueued c" "set (recorded c') \<subseteq> set (recorded c)" "set (promoted c') \<subseteq> set (promoted c)"
    and "\<And>j. settledJob lst c j \<Longrightarrow> settledJob lst c' j"
    and "\<And>j m. inList lst c j m \<Longrightarrow> inList lst c' j m" and "\<And>j m. inRetry zset c j m \<Longrightarrow> inRetry zset c' j m"
  shows "redInv lst zset c'"
proof -
  have "secured lst zset c j n b \<Longrightarrow> secured lst zset c' j n b" for j n b
    using secured_mono assms(5-7) by blast
  then show ?thesis using assms(1-4) unfolding redInv_def by blast
qed

lemma view_mono:
  assumes "gAckedJobs c \<subseteq> gAckedJobs c'" "\<And>k. set (lst (store c) k) \<subseteq> set (lst (store c') k)"
    "\<And>v. zset (store c) KRetry v \<noteq> None \<Longrightarrow> zset (store c') KRetry v \<noteq> None"
  shows "settledJob lst c j \<Longrightarrow> settledJob lst c' j" "inList lst c j m \<Longrightarrow> inList lst c' j m"
    "inRetry zset c j m \<Longrightarrow> inRetry zset c' j m"
  using assms unfolding settledJob_def inList_def inRetry_def by blast+

text \<open>Removing one copy is harmless when what the remover holds secures the job without that copy.\<close>

lemma secured_after_ack:
  assumes "secured lst zset c j (n + 1) 0" "secured lst zset c k m b" "b = 0 \<or> b = 1"
    and "\<And>i. settledJob lst c i \<Longrightarrow> settledJob lst c' i"
    and "\<And>i a. inList lst c i a \<Longrightarrow> (i, a) \<noteq> (j, n) \<Longrightarrow> inList lst c' i a"
    and "\<And>i a. inRetry zset c i a \<Longrightarrow> inRetry zset c' i a"
  shows "secured lst zset c' k m b"
proof (cases "k = j \<and> m \<le> n")
  case True
  from assms(1) consider "settledJob lst c j" | a where "a \<ge> n + 1" "inList lst c j a" | a where "a \<ge> n + 1" "inRetry zset c j a"
    by (auto simp: secured_def)
  then show ?thesis
  proof cases
    case 2
    then have "inList lst c' j a" using assms(5) by simp
    then show ?thesis using True 2(1) by (auto simp: secured_def intro!: exI [of _ a])
  next
    case 3
    then have "inRetry zset c' j a" using assms(6) by simp
    then show ?thesis using True 3(1) assms(3) by (auto simp: secured_def intro!: exI [of _ a])
  qed (use True assms(4) in \<open>auto simp: secured_def\<close>)
next
  case False
  then have "\<And>a. a \<ge> m \<Longrightarrow> inList lst c k a \<Longrightarrow> inList lst c' k a" using assms(5) by auto
  then show ?thesis using assms(2,4,6) by (auto simp: secured_def)
qed

lemma secured_after_promote:
  assumes "secured lst zset c j n 1" "secured lst zset c k m b" "b = 0 \<or> b = 1"
    and "\<And>i. settledJob lst c i \<Longrightarrow> settledJob lst c' i"
    and "\<And>i a. inList lst c i a \<Longrightarrow> inList lst c' i a"
    and "\<And>i a. inRetry zset c i a \<Longrightarrow> (i, a) \<noteq> (j, n) \<Longrightarrow> inRetry zset c' i a"
  shows "secured lst zset c' k m b"
proof (cases "k = j \<and> m + b \<le> n")
  case True
  from assms(1) consider "settledJob lst c j" | a where "a \<ge> n" "inList lst c j a" | a where "a \<ge> n + 1" "inRetry zset c j a"
    by (auto simp: secured_def)
  then show ?thesis
  proof cases
    case 2
    then have "inList lst c' j a" "m \<le> a" using assms(3,5) True by auto
    then show ?thesis using True by (auto simp: secured_def)
  next
    case 3
    then have "inRetry zset c' j a" using assms(6) by simp
    then show ?thesis using True 3(1) by (auto simp: secured_def intro!: exI [of _ a])
  qed (use True assms(4) in \<open>auto simp: secured_def\<close>)
next
  case False
  then have "\<And>a. a \<ge> m + b \<Longrightarrow> inRetry zset c k a \<Longrightarrow> inRetry zset c' k a" using assms(6) by auto
  then show ?thesis using assms(2,4,5) by (auto simp: secured_def)
qed

context redis
begin

lemma LPush_sub: "set (lst r k) \<subseteq> set (lst (LPush R k' v r) k)"
  by (auto simp: LPush_lst)

lemma recordOutcome_sub:
  "set (lst r k) \<subseteq> set (lst (recordOutcome R out r) k)"
  "zset r KRetry v \<noteq> None \<Longrightarrow> zset (recordOutcome R out r) KRetry v \<noteq> None"
  by (cases out; auto simp: recordOutcome_def redisDLQ_Write_def LPush_lst ZAdd_lst LPush_zset ZAdd_zset)+

lemma LMoveRL_cases:
  assumes "LMoveRightLeft R a b r = Some (r', v)" "a \<noteq> b"
  obtains xs where "lst r a = xs @ [v]" "lst r' = (lst r)(a := xs, b := v # lst r b)" "zset r' = zset r"
proof (cases "lst r a" rule: rev_cases)
  case Nil
  then show thesis using assms(1) LMoveRL_empty by simp
next
  case (snoc xs w)
  then show thesis using LMoveRL_some [OF snoc assms(2)] assms(1) that by auto
qed

lemma LMoveRR_cases:
  assumes "LMoveRightRight R a b r = Some (r', v)" "a \<noteq> b"
  obtains xs where "lst r a = xs @ [v]" "lst r' = (lst r)(a := xs, b := lst r b @ [v])" "zset r' = zset r"
proof (cases "lst r a" rule: rev_cases)
  case Nil
  then show thesis using assms(1) LMoveRR_empty by simp
next
  case (snoc xs w)
  then show thesis using LMoveRR_some [OF snoc assms(2)] assms(1) that by auto
qed

text \<open>Moving an element between lists keeps every copy.\<close>

lemma move_keeps:
  assumes "lst r a = xs @ [v]" "lst r' = (lst r)(a := xs, b := ys)" "set ys = insert v (set (lst r b))" "a \<noteq> b" "a \<noteq> KDead" "b \<noteq> KDead"
  shows "VPayload j m \<in> set (lst r k) \<Longrightarrow> \<exists>k'. VPayload j m \<in> set (lst r' k')" "lst r' KDead = lst r KDead"
proof -
  show "\<exists>k'. VPayload j m \<in> set (lst r' k')" if "VPayload j m \<in> set (lst r k)"
  proof (cases "k = a")
    case True
    then have "VPayload j m \<in> set xs \<or> VPayload j m = v" using that assms(1) by auto
    then show ?thesis using assms(2-4) by (metis fun_upd_apply insertI1)
  next
    case False
    then show ?thesis using that assms(2,3) by (intro exI [of _ k]) auto
  qed
  show "lst r' KDead = lst r KDead" using assms by simp
qed

lemma redInv_LPush:
  assumes "redInv lst zset c" "gEnqueued c' = gEnqueued c" "recorded c' = recorded c" "promoted c' = promoted c"
    "gAckedJobs c' = gAckedJobs c" "store c' = LPush R k v (store c)"
  shows "redInv lst zset c'"
proof (rule redInv_grow [OF assms(1,2)])
  note vm = view_mono [of c c' lst zset]
  have m: "gAckedJobs c \<subseteq> gAckedJobs c'" "\<And>k. set (lst (store c) k) \<subseteq> set (lst (store c') k)"
    "\<And>v. zset (store c) KRetry v \<noteq> None \<Longrightarrow> zset (store c') KRetry v \<noteq> None"
    using assms LPush_sub by (simp_all add: LPush_zset)
  show "settledJob lst c j \<Longrightarrow> settledJob lst c' j" for j by (rule vm(1) [OF m])
  show "inList lst c j i \<Longrightarrow> inList lst c' j i" for j i by (rule vm(2) [OF m])
  show "inRetry zset c j i \<Longrightarrow> inRetry zset c' j i" for j i by (rule vm(3) [OF m])
qed (use assms in simp_all)

lemma redInv_same:
  assumes "redInv lst zset c" "gEnqueued c' = gEnqueued c" "set (recorded c') \<subseteq> set (recorded c)"
    "set (promoted c') \<subseteq> set (promoted c)" "gAckedJobs c' = gAckedJobs c" "lst (store c') = lst (store c)"
    "zset (store c') KRetry = zset (store c) KRetry"
  shows "redInv lst zset c'"
  by (rule redInv_grow [OF assms(1-4)]) (use assms in \<open>auto simp: settledJob_def inList_def inRetry_def\<close>)

lemma redInv_move:
  assumes "redInv lst zset c" "gEnqueued c' = gEnqueued c" "recorded c' = recorded c" "promoted c' = promoted c"
    "gAckedJobs c' = gAckedJobs c" "zset (store c') = zset (store c)"
    "lst (store c) a = xs @ [v]" "lst (store c') = (lst (store c))(a := xs, b := ys)" "set ys = insert v (set (lst (store c) b))"
    "a \<noteq> b" "a \<noteq> KDead" "b \<noteq> KDead"
  shows "redInv lst zset c'"
proof (rule redInv_grow [OF assms(1,2)])
  note mk = move_keeps [OF assms(7-12)]
  show "settledJob lst c j \<Longrightarrow> settledJob lst c' j" for j using mk(2) assms(5) by (auto simp: settledJob_def)
  show "inList lst c j m \<Longrightarrow> inList lst c' j m" for j m using mk(1) by (auto simp: inList_def)
qed (use assms in \<open>auto simp: inRetry_def\<close>)

lemma redInv_moveRR:
  assumes "redInv lst zset c" "a \<noteq> KPending" "a \<noteq> KDead" "LMoveRightRight R a KPending (store c) = Some (r', v)"
    "c' = c\<lparr>store := r'\<rparr>"
  shows "redInv lst zset c'"
proof -
  obtain xs where "lst (store c) a = xs @ [v]" "lst r' = (lst (store c))(a := xs, KPending := lst (store c) KPending @ [v])"
    "zset r' = zset (store c)"
    using LMoveRR_cases [OF assms(4,2)] by blast
  then show ?thesis using assms
    by (intro redInv_move [OF assms(1), where a = a and b = KPending and xs = xs and v = v]) auto
qed

lemma redInv_recorded:
  assumes "redInv lst zset c" "processOutcome q raw h t = Some out"
    "c' = c\<lparr>store := recordOutcome R out (store c), handling := hs, recorded := (q, raw) # recorded c,
      gAckedJobs := (case (out, raw) of (Acked, VPayload j n) \<Rightarrow> insert j (gAckedJobs c) | _ \<Rightarrow> gAckedJobs c)\<rparr>"
  shows "redInv lst zset c'"
proof -
  have ck: "gAckedJobs c \<subseteq> gAckedJobs c'" using assms(3) by (cases out; cases raw) auto
  have st: "store c' = recordOutcome R out (store c)" using assms(3) by simp
  have m: "\<And>k. set (lst (store c) k) \<subseteq> set (lst (store c') k)"
    "\<And>v. zset (store c) KRetry v \<noteq> None \<Longrightarrow> zset (store c') KRetry v \<noteq> None"
    unfolding st using recordOutcome_sub by simp_all
  note keep = view_mono [of c c' lst zset, OF ck m]
  have old: "secured lst zset c j n b \<Longrightarrow> secured lst zset c' j n b" for j n b
    using secured_mono keep by blast
  have new: "secured lst zset c' j (n + 1) 0" if "raw = VPayload j n" for j n
  proof (cases out)
    case Acked
    then show ?thesis using that assms(3) by (simp add: secured_def settledJob_def)
  next
    case (Dead e)
    then have "dlJob e = j" using assms(2) that by (auto simp: processOutcome_def Let_def split: prod.splits Disposition.splits if_splits)
    moreover have "VDead e \<in> set (lst (store c') KDead)" using Dead by (simp add: st recordOutcome_def redisDLQ_Write_def LPush_lst)
    ultimately show ?thesis by (auto simp: secured_def settledJob_def)
  next
    case (Again i m ready)
    then have "i = j" "m = n + 1" using assms(2) that by (auto simp: processOutcome_def Let_def split: prod.splits Disposition.splits if_splits)
    moreover have "inRetry zset c' i m" using Again assms(3) ZAdd_zset by (simp add: inRetry_def recordOutcome_def)
    ultimately show ?thesis by (auto simp: secured_def)
  qed
  have "gEnqueued c' = gEnqueued c" "recorded c' = (q, raw) # recorded c" "promoted c' = promoted c" using assms(3) by simp_all
  moreover have "\<exists>n. secured lst zset c' j n 0" if "j \<in> gEnqueued c" for j
    using assms(1) that old unfolding redInv_def by blast
  moreover have "secured lst zset c' j (n + 1) 0" if "(q', VPayload j n) = (q, raw) \<or> (q', VPayload j n) \<in> set (recorded c)" for q' j n
    using assms(1) that old new unfolding redInv_def by blast
  moreover have "secured lst zset c' j n 1" if "VPayload j n \<in> set (promoted c)" for j n
    using assms(1) that old unfolding redInv_def by blast
  ultimately show ?thesis unfolding redInv_def by (metis set_ConsD)
qed

lemma redInv_drop:
  assumes "redInv lst zset c" "(q, raw) \<in> set (recorded c)"
    "c' = c\<lparr>store := ack R q raw (store c), recorded := rs\<rparr>" "set rs \<subseteq> set (recorded c)" "\<And>j n. raw \<noteq> VPayload j n"
  shows "redInv lst zset c'"
proof (rule redInv_grow [OF assms(1)])
  have l: "lst (store c') = (lst (store c))(processingKey q := remove1 raw (lst (store c) (processingKey q)))"
    using assms(3) by (simp add: ack_def LRem_lst)
  show "settledJob lst c i \<Longrightarrow> settledJob lst c' i" for i using l assms(3) by (auto simp: settledJob_def processingKey_def)
  show "inList lst c' i a" if i: "inList lst c i a" for i a
  proof -
    obtain k where "VPayload i a \<in> set (lst (store c) k)" using i by (auto simp: inList_def)
    moreover have "VPayload i a \<noteq> raw" using assms(5) by metis
    ultimately show ?thesis unfolding inList_def using l by (intro exI [of _ k]) (auto simp: in_set_remove1)
  qed
qed (use assms in \<open>auto simp: inRetry_def ack_def LRem_zset\<close>)

lemma redInv_acked:
  assumes "redInv lst zset c" "(q, raw) \<in> set (recorded c)"
    "c' = c\<lparr>store := ack R q raw (store c), recorded := rs\<rparr>" "set rs \<subseteq> set (recorded c)"
  shows "redInv lst zset c'"
proof (cases raw)
  case (VPayload j n)
  have s: "secured lst zset c j (n + 1) 0" using assms(1,2) VPayload by (auto simp: redInv_def)
  have l: "lst (store c') = (lst (store c))(processingKey q := remove1 raw (lst (store c) (processingKey q)))"
    using assms(3) by (simp add: ack_def LRem_lst)
  have "secured lst zset c' k m b" if "secured lst zset c k m b" "b = 0 \<or> b = 1" for k m b
  proof (rule secured_after_ack [OF s that])
    show "settledJob lst c i \<Longrightarrow> settledJob lst c' i" for i using l assms(3) by (auto simp: settledJob_def processingKey_def)
    show "inList lst c' i a" if i: "inList lst c i a" "(i, a) \<noteq> (j, n)" for i a
    proof -
      obtain k where "VPayload i a \<in> set (lst (store c) k)" using i(1) by (auto simp: inList_def)
      moreover have "VPayload i a \<noteq> raw" using i(2) VPayload by auto
      ultimately show ?thesis unfolding inList_def using l by (intro exI [of _ k]) (auto simp: in_set_remove1)
    qed
    show "inRetry zset c i a \<Longrightarrow> inRetry zset c' i a" for i a using assms(3) by (simp add: inRetry_def ack_def LRem_zset)
  qed
  then show ?thesis using assms(1,3,4) unfolding redInv_def by (simp; blast)
qed (use redInv_drop [OF assms] in simp_all)

lemma redInv_promoted:
  assumes "redInv lst zset c" "v \<in> set (promoted c)"
    "c' = c\<lparr>store := ZRem R KRetry v (store c), promoted := ps\<rparr>" "set ps \<subseteq> set (promoted c)"
  shows "redInv lst zset c'"
proof -
  have l: "lst (store c') = lst (store c)" "zset (store c') = (zset (store c))(KRetry := (zset (store c) KRetry)(v := None))"
    using assms(3) by (simp_all add: ZRem_lst ZRem_zset)
  have set': "settledJob lst c i \<Longrightarrow> settledJob lst c' i" "inList lst c i a \<Longrightarrow> inList lst c' i a" for i a
    using l(1) assms(3) by (simp_all add: settledJob_def inList_def)
  have "secured lst zset c' k m b" if sec: "secured lst zset c k m b" "b = 0 \<or> b = 1" for k m b
  proof (cases "\<exists>j n. v = VPayload j n")
    case True
    then obtain j n where v: "v = VPayload j n" by blast
    have s: "secured lst zset c j n 1" using assms(1,2) v by (auto simp: redInv_def)
    show ?thesis
      by (rule secured_after_promote [OF s sec]) (use set' l(2) v in \<open>auto simp: inRetry_def\<close>)
  next
    case False
    show ?thesis
    proof (rule secured_mono [OF sec(1)])
      show "inRetry zset c k a \<Longrightarrow> inRetry zset c' k a" for a using False l(2) by (auto simp: inRetry_def)
    qed (use set' in blast)+
  qed
  then show ?thesis using assms(1,3,4) unfolding redInv_def by (simp; blast)
qed

lemma redInv_enqueued:
  assumes "redInv lst zset c" "rEnqueue R q None None j (store c) = (r', Inr i)"
  shows "redInv lst zset (c\<lparr>store := r', gEnqueued := insert j (gEnqueued c)\<rparr>)"
proof -
  have r': "r' = LPush R KPending (VPayload j 0) (store c)" using assms(2) by (auto simp: rEnqueue_def split: if_splits)
  let ?c = "c\<lparr>store := r'\<rparr>"
  have i: "redInv lst zset ?c" by (rule redInv_LPush [OF assms(1)]) (simp_all add: r')
  have "inList lst ?c j 0" by (auto simp: inList_def r' LPush_lst intro!: exI [of _ KPending])
  then have "secured lst zset ?c j 0 0" by (auto simp: secured_def)
  moreover have "secured lst zset (?c\<lparr>gEnqueued := E\<rparr>) k n b = secured lst zset ?c k n b" for E k n b
    by (simp add: secured_def settledJob_def inList_def inRetry_def)
  ultimately show ?thesis using i unfolding redInv_def by (auto simp: secured_def settledJob_def inList_def inRetry_def)
qed

lemma redStep_inv:
  assumes "redInv lst zset c" "redStep R c c'"
  shows "redInv lst zset c'"
  using assms(2)
proof cases
  case (rsEnqueue q j r' i)
  then show ?thesis using redInv_enqueued [OF assms(1)] by simp
next
  case (rsClaim q r' raw)
  obtain xs where "lst (store c) KPending = xs @ [raw]"
    "lst r' = (lst (store c))(KPending := xs, processingKey q := raw # lst (store c) (processingKey q))" "zset r' = zset (store c)"
    using LMoveRL_cases [OF rsClaim(2) [unfolded claimNext_def]] by (auto simp: processingKey_def)
  then show ?thesis using rsClaim(1)
    by (intro redInv_move [OF assms(1), where a = KPending and b = "processingKey q" and xs = xs and v = raw])
      (auto simp: processingKey_def)
next
  case (rsRecord q raw h t out)
  then show ?thesis using redInv_recorded [OF assms(1) rsRecord(3)] by blast
next
  case (rsAck q raw)
  show ?thesis by (rule redInv_acked [OF assms(1) rsAck(2,1)]) (rule set_remove1_subset)
next
  case (rsPromote v nowMs)
  then obtain s where z: "zset (store c) KRetry v = Some s" using ZRange_member unfolding dueRetries_def by blast
  let ?c = "c\<lparr>store := LPush R KPending v (store c)\<rparr>"
  have i: "redInv lst zset ?c" by (rule redInv_LPush [OF assms(1)]) simp_all
  have "secured lst zset ?c j n 1" if "v = VPayload j n" for j n
    using that by (auto simp: secured_def inList_def LPush_lst intro!: exI [of _ n] exI [of _ KPending])
  moreover have "secured lst zset c' k n b = secured lst zset ?c k n b" for k n b
    using rsPromote(1) by (simp add: secured_def settledJob_def inList_def inRetry_def)
  ultimately show ?thesis using i rsPromote(1) unfolding redInv_def by auto
next
  case (rsPromoted v)
  show ?thesis by (rule redInv_promoted [OF assms(1) rsPromoted(2,1)]) (rule set_remove1_subset)
next
  case (rsRecover q r' v)
  have ne: "processingKey q \<noteq> KPending" "processingKey q \<noteq> KDead" by (simp_all add: processingKey_def)
  show ?thesis using rsRecover by (intro redInv_moveRR [OF assms(1) ne]) auto
next
  case (rsScan i nowMs q)
  then show ?thesis by (intro redInv_same [OF assms(1)]) simp_all
next
  case (rsReclaim q i r' v)
  have ne: "instanceProcessingKey i \<noteq> KPending" "instanceProcessingKey i \<noteq> KDead" by (simp_all add: instanceProcessingKey_def)
  show ?thesis using rsReclaim by (intro redInv_moveRR [OF assms(1) ne]) auto
next
  case (rsDrained q i)
  then show ?thesis by (intro redInv_same [OF assms(1)]) simp_all
next
  case (rsBeat q nowMs)
  then show ?thesis by (intro redInv_same [OF assms(1)]) (simp_all add: heartbeat_def ZAdd_lst ZAdd_zset)
next
  case (rsLegacy nowMs)
  have "lst (registerLegacyIfPresent R nowMs r) = lst r \<and> zset (registerLegacyIfPresent R nowMs r) KRetry = zset r KRetry" for r
    by (cases "zset r KInstances (VInstance legacyInstance)")
      (auto simp: registerLegacyIfPresent_def ZAddNX_some ZAddNX_none ZAdd_lst ZAdd_zset)
  then show ?thesis using rsLegacy by (intro redInv_same [OF assms(1)]) simp_all
next
  case (rsDeregister q i)
  then show ?thesis by (intro redInv_same [OF assms(1)]) (simp_all add: ZRem_lst ZRem_zset)
next
  case (rsCrash hs rs ps qs)
  then show ?thesis by (intro redInv_same [OF assms(1)]) simp_all
qed

lemma redInv_empty: "redInv lst zset (emptyCluster r)"
  by (simp add: redInv_def emptyCluster_def)

lemma redReach_inv: "(redStep R)\<^sup>*\<^sup>* (emptyCluster r) c \<Longrightarrow> redInv lst zset c"
  by (induction rule: rtranclp_induct) (auto intro: redInv_empty redStep_inv)

text \<open>The drain terminates and moves the whole list, newest claim last.\<close>

lemma drainLoop_moves:
  "length (lst r key) < fuel \<Longrightarrow> key \<noteq> KPending \<Longrightarrow>
     \<exists>r'. drainLoop R fuel key r n = Some (r', n + length (lst r key)) \<and> zset r' = zset r \<and>
       lst r' = (lst r)(key := [], KPending := lst r KPending @ rev (lst r key))"
proof (induction fuel arbitrary: r n)
  case (Suc fuel)
  show ?case
  proof (cases "lst r key" rule: rev_cases)
    case Nil
    then show ?thesis using LMoveRR_empty by (auto intro!: ext)
  next
    case (snoc xs v)
    obtain r1 where m: "LMoveRightRight R key KPending r = Some (r1, v)"
      "lst r1 = (lst r)(key := xs, KPending := lst r KPending @ [v])" "zset r1 = zset r"
      using LMoveRR_some [OF snoc Suc.prems(2)] by blast
    have "length (lst r1 key) < fuel" using Suc.prems snoc m(2) by simp
    from Suc.IH [OF this Suc.prems(2), of "n + 1"] obtain r' where r': "drainLoop R fuel key r1 (n + 1) = Some (r', n + 1 + length (lst r1 key))"
      "zset r' = zset r1" "lst r' = (lst r1)(key := [], KPending := lst r1 KPending @ rev (lst r1 key))" by blast
    have l: "lst r' = (lst r)(key := [], KPending := lst r KPending @ rev (lst r key))"
      using r'(3) m(2) snoc Suc.prems(2) by (auto simp: fun_eq_iff)
    have d: "drainLoop R (Suc fuel) key r n = Some (r', n + length (lst r key))"
      using r'(1) m snoc Suc.prems(2) by simp
    have "zset r' = zset r" using r'(2) m(3) by simp
    with d l show ?thesis by blast
  qed
qed simp

lemma drainProcessing_moves:
  "key \<noteq> KPending \<Longrightarrow> \<exists>r'. drainProcessing R key r = Some (r', length (lst r key)) \<and> zset r' = zset r \<and>
     lst r' = (lst r)(key := [], KPending := lst r KPending @ rev (lst r key))"
  using drainLoop_moves [of r key "LLen R key r + 1" 0] by (simp add: drainProcessing_def LLen_lst)

end

text \<open>Any server that keeps the laws makes the driver a ledger that loses nothing.\<close>

sublocale redis \<subseteq> replicas: ledger "emptyCluster r0" "redStep R" "redInv lst zset" gEnqueued
  "\<lambda>c. {j. (\<exists>n. inList lst c j n) \<or> (\<exists>n. inRetry zset c j n)}" "\<lambda>c. {j. settledJob lst c j}" "\<lambda>_. {}" for r0
proof
  show "redInv lst zset (emptyCluster r0)" by (rule redInv_empty)
  show "redInv lst zset s \<Longrightarrow> redStep R s t \<Longrightarrow> redInv lst zset t" for s t by (rule redStep_inv)
  show "redInv lst zset s \<Longrightarrow>
      gEnqueued s \<subseteq> {j. (\<exists>n. inList lst s j n) \<or> (\<exists>n. inRetry zset s j n)} \<union> {j. settledJob lst s j} \<union> {}" for s
    by (auto simp: redInv_def secured_def)
qed

context redis
begin

lemma reapLoop_clears:
  "\<exists>r'. reapLoop R q vs r = Some r' \<and>
     (\<forall>i. VInstance i \<in> set vs \<longrightarrow> i \<noteq> rinstance q \<longrightarrow>
        lst r' (instanceProcessingKey i) = [] \<and> zset r' KInstances (VInstance i) = None) \<and>
     (\<forall>k. k \<noteq> KPending \<longrightarrow> lst r k = [] \<longrightarrow> lst r' k = []) \<and>
     (\<forall>v. zset r KInstances v = None \<longrightarrow> zset r' KInstances v = None) \<and>
     set (lst r KPending) \<subseteq> set (lst r' KPending) \<and>
     (\<forall>k. set (lst r k) \<subseteq> set (lst r' KPending) \<union> set (lst r' k))"
proof (induction vs arbitrary: r)
  case (Cons v vs)
  show ?case
  proof (cases "\<exists>i. v = VInstance i \<and> i \<noteq> rinstance q")
    case True
    then obtain i where v: "v = VInstance i" "i \<noteq> rinstance q" by blast
    have k: "instanceProcessingKey i \<noteq> KPending" by (simp add: instanceProcessingKey_def)
    obtain r1 where d: "drainProcessing R (instanceProcessingKey i) r = Some (r1, length (lst r (instanceProcessingKey i)))"
      "zset r1 = zset r"
      "lst r1 = (lst r)(instanceProcessingKey i := [], KPending := lst r KPending @ rev (lst r (instanceProcessingKey i)))"
      using drainProcessing_moves [OF k] by blast
    obtain r' where r': "reapLoop R q vs (ZRem R KInstances v r1) = Some r'"
      and a: "\<forall>i. VInstance i \<in> set vs \<longrightarrow> i \<noteq> rinstance q \<longrightarrow>
        lst r' (instanceProcessingKey i) = [] \<and> zset r' KInstances (VInstance i) = None"
      and b: "\<forall>k. k \<noteq> KPending \<longrightarrow> lst (ZRem R KInstances v r1) k = [] \<longrightarrow> lst r' k = []"
      and c: "\<forall>w. zset (ZRem R KInstances v r1) KInstances w = None \<longrightarrow> zset r' KInstances w = None"
      and e: "set (lst (ZRem R KInstances v r1) KPending) \<subseteq> set (lst r' KPending)"
      and f: "\<forall>k. set (lst (ZRem R KInstances v r1) k) \<subseteq> set (lst r' KPending) \<union> set (lst r' k)"
      using Cons.IH [of "ZRem R KInstances v r1"] by blast
    have l: "lst (ZRem R KInstances v r1) = lst r1" by (simp add: ZRem_lst)
    have z: "zset (ZRem R KInstances v r1) KInstances = (zset r KInstances)(v := None)" using d(2) by (simp add: ZRem_zset)
    have "lst r' (instanceProcessingKey i) = []" using b l d(3) k by simp
    moreover have "zset r' KInstances v = None" using c z by simp
    moreover have "set (lst r KPending) \<subseteq> set (lst r' KPending)" using e l d(3) k by auto
    moreover have "set (lst r k') \<subseteq> set (lst r' KPending) \<union> set (lst r' k')" for k'
      using f [rule_format, of k'] e l d(3) k by (cases "k' = instanceProcessingKey i"; cases "k' = KPending") auto
    moreover have "lst r' k' = []" if "k' \<noteq> KPending" "lst r k' = []" for k' using b l d(3) that by simp
    moreover have "zset r' KInstances w = None" if "zset r KInstances w = None" for w using c z that by simp
    moreover have "reapLoop R q (v # vs) r = Some r'" using d(1) r' v by simp
    ultimately show ?thesis using a v(1) by auto
  next
    case False
    then have "reapLoop R q (v # vs) r = reapLoop R q vs r" by (cases v) auto
    then show ?thesis using Cons.IH [of r] False by auto
  qed
qed simp

end

section \<open>A reference server\<close>

type_synonym refStore = "(RKey \<Rightarrow> RVal list) \<times> (RKey \<Rightarrow> (RVal \<times> int) list)"

definition refMove :: "bool \<Rightarrow> RKey \<Rightarrow> RKey \<Rightarrow> refStore \<Rightarrow> (refStore \<times> RVal) option" where
  "refMove left a b r =
     (if fst r a = [] then None
      else let v = last (fst r a); l = (fst r)(a := butlast (fst r a))
           in Some ((l(b := (if left then v # l b else l b @ [v])), snd r), v))"

definition refRedis :: "refStore Redis" where
  "refRedis =
     \<lparr>LPush = (\<lambda>k v r. ((fst r)(k := v # fst r k), snd r)),
      LMoveRightLeft = refMove True, LMoveRightRight = refMove False,
      LRem1 = (\<lambda>k v r. ((fst r)(k := remove1 v (fst r k)), snd r)),
      LLen = (\<lambda>k r. length (fst r k)),
      ZAdd = (\<lambda>k s v r. (fst r, (snd r)(k := AList.update v s (snd r k)))),
      ZAddNX = (\<lambda>k s v r. if map_of (snd r k) v \<noteq> None then (r, 0)
        else ((fst r, (snd r)(k := AList.update v s (snd r k))), 1)),
      ZRem = (\<lambda>k v r. (fst r, (snd r)(k := AList.delete v (snd r k)))),
      ZRangeByScore = (\<lambda>k mx n r. take n (filter (\<lambda>v. case map_of (snd r k) v of None \<Rightarrow> False | Some s \<Rightarrow> s \<le> mx) (map fst (snd r k)))),
      ZCard = (\<lambda>k r. length (remdups (map fst (snd r k))))\<rparr>"

definition refEmpty :: refStore where "refEmpty = (\<lambda>_. [], \<lambda>_. [])"

definition refZset :: "refStore \<Rightarrow> RKey \<Rightarrow> RVal \<Rightarrow> int option" where
  "refZset r k = map_of (snd r k)"

interpretation refServer: redis refRedis fst refZset
proof
  fix r a b xs v
  show "fst r a = [] \<Longrightarrow> LMoveRightLeft refRedis a b r = None" "fst r a = [] \<Longrightarrow> LMoveRightRight refRedis a b r = None"
    by (simp_all add: refRedis_def refMove_def)
  show "fst r a = xs @ [v] \<Longrightarrow> a \<noteq> b \<Longrightarrow>
      \<exists>r'. LMoveRightLeft refRedis a b r = Some (r', v) \<and> fst r' = (fst r)(a := xs, b := v # fst r b) \<and> refZset r' = refZset r"
    by (simp add: refRedis_def refMove_def refZset_def fun_eq_iff)
  show "fst r a = xs @ [v] \<Longrightarrow> a \<noteq> b \<Longrightarrow>
      \<exists>r'. LMoveRightRight refRedis a b r = Some (r', v) \<and> fst r' = (fst r)(a := xs, b := fst r b @ [v]) \<and> refZset r' = refZset r"
    by (simp add: refRedis_def refMove_def refZset_def fun_eq_iff)
next
  fix r k v mx n s
  show "v \<in> set (ZRangeByScore refRedis k mx n r) \<Longrightarrow> \<exists>s. refZset r k v = Some s \<and> s \<le> mx"
    by (auto simp: refRedis_def refZset_def dest!: in_set_takeD split: option.splits)
  assume z: "refZset r k v = Some s" "s \<le> mx" "0 < n"
  then have "v \<in> set (filter (\<lambda>v. case map_of (snd r k) v of None \<Rightarrow> False | Some s \<Rightarrow> s \<le> mx) (map fst (snd r k)))"
    by (auto simp: refZset_def dest: map_of_SomeD intro: rev_image_eqI)
  then have "filter (\<lambda>v. case map_of (snd r k) v of None \<Rightarrow> False | Some s \<Rightarrow> s \<le> mx) (map fst (snd r k)) \<noteq> []"
    by (metis empty_iff list.set(1))
  then show "ZRangeByScore refRedis k mx n r \<noteq> []" using z(3) by (simp add: refRedis_def del: filter_map)
qed (simp_all add: refRedis_def refZset_def fun_eq_iff update_conv' delete_conv')

section \<open>A crash during reclamation\<close>

text \<open>Replica \<open>a\<close> missed its heartbeats; \<open>b\<close> finds its list empty, \<open>a\<close> claims a job, \<open>b\<close> deregisters \<open>a\<close>.\<close>

definition demoReplica :: "string \<Rightarrow> Replica" where
  "demoReplica i = NewRedisq demoCfg i"

definition strandBeat :: "refStore Cluster" where
  "strandBeat = (emptyCluster refEmpty)\<lparr>store := heartbeat refRedis (demoReplica ''a'') 0 refEmpty\<rparr>"

definition strandSent :: "refStore Cluster" where
  "strandSent = strandBeat\<lparr>store := fst (rEnqueue refRedis (demoReplica ''b'') None None (demoJob ''j'') (store strandBeat)),
     gEnqueued := {demoJob ''j''}\<rparr>"

definition strandScanned :: "refStore Cluster" where
  "strandScanned = strandSent\<lparr>reaping := [(demoReplica ''b'', ''a'', False)]\<rparr>"

definition strandDrained :: "refStore Cluster" where
  "strandDrained = strandScanned\<lparr>reaping := [(demoReplica ''b'', ''a'', True)]\<rparr>"

definition strandClaimed :: "refStore Cluster" where
  "strandClaimed = strandDrained\<lparr>store := fst (the (claimNext refRedis (demoReplica ''a'') (store strandDrained))),
     handling := [(demoReplica ''a'', VPayload (demoJob ''j'') 0)]\<rparr>"

definition strandDeregistered :: "refStore Cluster" where
  "strandDeregistered = strandClaimed\<lparr>store := ZRem refRedis KInstances (VInstance ''a'') (store strandClaimed), reaping := []\<rparr>"

definition stranded :: "refStore Cluster" where
  "stranded = strandDeregistered\<lparr>handling := []\<rparr>"

lemmas strand_defs = demoReplica_def strandBeat_def strandSent_def strandScanned_def strandDrained_def strandClaimed_def
  strandDeregistered_def stranded_def emptyCluster_def refEmpty_def refRedis_def refMove_def NewRedisq_def rEnqueue_def
  redisDLQ_Depth_def heartbeat_def claimNext_def processingKey_def staleInstances_def instanceReclaimAfter_def
  instanceProcessingKey_def legacyInstance_def demoCfg_def applyDefaults_def refZset_def

lemma strand_sent: "(redStep refRedis)\<^sup>*\<^sup>* (emptyCluster refEmpty) strandSent"
proof -
  have "redStep refRedis (emptyCluster refEmpty) strandBeat"
    using rsBeat [of refRedis "emptyCluster refEmpty" "demoReplica ''a''" 0] by (simp add: strandBeat_def emptyCluster_def)
  moreover have "redStep refRedis strandBeat strandSent"
    using rsEnqueue [of refRedis "demoReplica ''b''" "demoJob ''j''" strandBeat] by (simp add: strand_defs)
  ultimately show ?thesis by (meson converse_rtranclp_into_rtranclp rtranclp.rtrancl_refl)
qed

lemma strand_run: "(redStep refRedis)\<^sup>*\<^sup>* strandSent stranded"
proof -
  have "redStep refRedis strandSent strandScanned"
    using rsScan [of "''a''" refRedis instanceReclaimAfter strandSent "demoReplica ''b''"] by (simp add: strand_defs)
  moreover have "redStep refRedis strandScanned strandDrained"
    using rsDrained [of "demoReplica ''b''" "''a''" strandScanned refRedis] by (simp add: strand_defs)
  moreover have "redStep refRedis strandDrained strandClaimed"
    using rsClaim [of refRedis "demoReplica ''a''" strandDrained] by (simp add: strand_defs Let_def)
  moreover have "redStep refRedis strandClaimed strandDeregistered"
    using rsDeregister [of "demoReplica ''b''" "''a''" strandClaimed refRedis] by (simp add: strand_defs)
  moreover have "redStep refRedis strandDeregistered stranded"
    using rsCrash [of "[]" strandDeregistered "[]" "[]" "[]" refRedis] by (simp add: strand_defs)
  ultimately show ?thesis by (meson converse_rtranclp_into_rtranclp rtranclp.rtrancl_refl)
qed

section \<open>Properties\<close>

text \<open>
  C9. No job is lost: with any number of replicas interleaving at every Redis command and crashing at any
  point, each job whose enqueue succeeded is acknowledged, in the dead-letter list, or still on the server
  in a pending, processing or retry structure.
\<close>

theorem redisq_no_job_lost:
  assumes "redis R lst zset" "(redStep R)\<^sup>*\<^sup>* (emptyCluster r) c" "j \<in> gEnqueued c"
  shows "settledJob lst c j \<or> (\<exists>n. inList lst c j n) \<or> (\<exists>n. inRetry zset c j n)"
  using redis.redReach_inv [OF assms(1,2)] assms(3) unfolding redInv_def secured_def by blast

theorem redisq_no_job_lost_witness:
  "settledJob fst strandSent (demoJob ''j'') \<or> (\<exists>n. inList fst strandSent (demoJob ''j'') n) \<or>
     (\<exists>n. inRetry refZset strandSent (demoJob ''j'') n)"
  using redisq_no_job_lost [OF refServer.redis_axioms strand_sent, of "demoJob ''j''"] by (simp add: strand_defs)

text \<open>
  C11. Recovery of a processing list terminates, empties the list and puts every payload back on the pending
  list; the payload claimed first ends up furthest from the end the workers take from, so recovered jobs
  are redelivered newest claim first.
\<close>

theorem redisq_drain_moves_all:
  assumes "redis R lst zset" "key \<noteq> KPending"
  shows "\<exists>r'. drainProcessing R key r = Some (r', length (lst r key)) \<and> zset r' = zset r \<and>
    lst r' = (lst r)(key := [], KPending := lst r KPending @ rev (lst r key))"
  using redis.drainProcessing_moves [OF assms] .

theorem redisq_drain_moves_all_witness:
  "\<exists>r'. drainProcessing refRedis (KProcessing ''a'') ((fst refEmpty)(KProcessing ''a'' := [VPoison ''x'', VPoison ''y'']), snd refEmpty) = Some (r', 2) \<and>
     fst r' KPending = [VPoison ''y'', VPoison ''x'']"
  using redisq_drain_moves_all [OF refServer.redis_axioms, of "KProcessing ''a''" "((fst refEmpty)(KProcessing ''a'' := [VPoison ''x'', VPoison ''y'']), snd refEmpty)"]
  by (auto simp: refEmpty_def)

text \<open>
  A completed reaping pass leaves no stale replica behind: every instance the scan reported, other than
  the reaper itself, has an empty processing list and is deregistered, and no payload of any list was dropped.
\<close>

theorem redisq_reap_clears:
  assumes "redis R lst zset"
  shows "\<exists>r'. reapDeadInstances R q nowMs r = Some r' \<and>
    (\<forall>i. VInstance i \<in> set (staleInstances R nowMs r) \<longrightarrow> i \<noteq> rinstance q \<longrightarrow>
       lst r' (instanceProcessingKey i) = [] \<and> zset r' KInstances (VInstance i) = None) \<and>
    (\<forall>k. set (lst r k) \<subseteq> set (lst r' KPending) \<union> set (lst r' k))"
  using redis.reapLoop_clears [OF assms, of q "staleInstances R nowMs r" r] unfolding reapDeadInstances_def by blast

definition demoStale :: refStore where
  "demoStale = (\<lambda>k. if k = KProcessing ''a'' then [VPoison ''x''] else [], \<lambda>k. if k = KInstances then [(VInstance ''a'', 0)] else [])"

theorem redisq_reap_clears_witness:
  "\<exists>r'. reapDeadInstances refRedis (demoReplica ''b'') instanceReclaimAfter demoStale = Some r' \<and>
     fst r' (KProcessing ''a'') = [] \<and> refZset r' KInstances (VInstance ''a'') = None \<and>
     set (fst demoStale (KProcessing ''a'')) \<subseteq> set (fst r' KPending)"
proof -
  have s: "VInstance ''a'' \<in> set (staleInstances refRedis instanceReclaimAfter demoStale)" "rinstance (demoReplica ''b'') \<noteq> ''a''"
    "instanceProcessingKey ''a'' = KProcessing ''a''"
    by (simp_all add: demoStale_def strand_defs)
  show ?thesis
    using redisq_reap_clears [OF refServer.redis_axioms, of "demoReplica ''b''" instanceReclaimAfter demoStale] s
    by (metis (no_types, lifting) list.set(1) sup_bot_right)
qed

text \<open>
  Reclaiming can strand a job: after a run in which a stale replica claims between the reaper's last look
  at its list and its deregistration, and then stops, the job sits in the list of an instance no reaper
  will ever scan again, and nothing is in flight.
\<close>

theorem redisq_reap_strands_job:
  "(redStep refRedis)\<^sup>*\<^sup>* (emptyCluster refEmpty) stranded \<and> handling stranded = [] \<and> reaping stranded = [] \<and>
   fst (store stranded) (KProcessing ''a'') = [VPayload (demoJob ''j'') 0] \<and>
   refZset (store stranded) KInstances = Map.empty"
  using rtranclp_trans [OF strand_sent strand_run] by (simp add: strand_defs Let_def)

end
