(* ===== verification/Jcs.thy ===== *)
theory Jcs
  imports Sha256
begin

text \<open>
  The canonical encoding the audit log hashes (\<open>canonicalJSON\<close> and \<open>writeJCSString\<close> of
  \<open>internal/audit/audit.go\<close>): a JSON object over a flat map of strings with sorted keys, each string
  written by the \<open>encoding/json\<close> encoder with HTML escaping off. The encoder is modelled byte for byte:
  the short escapes, \<open>\u00xx\<close> for the other control bytes, \<open>\u2028\<close>/\<open>\u2029\<close>, and \<open>\ufffd\<close> for
  a byte that is not part of valid UTF-8. A decoder for such strings shows the encoding loses nothing on
  valid UTF-8, and the encoding of a payload therefore determines it.
\<close>

section \<open>UTF-8\<close>

definition inR :: "char \<Rightarrow> nat \<Rightarrow> nat \<Rightarrow> bool" where
  "inR c lo hi \<longleftrightarrow> lo \<le> of_char c \<and> of_char c \<le> hi"

text \<open>The size \<open>utf8.DecodeRune\<close> reports for a multi-byte rune at the head, 0 where it reports an
  invalid byte. The \<open>E0\<close>, \<open>ED\<close>, \<open>F0\<close> and \<open>F4\<close> leads restrict the second byte.\<close>

abbreviation cont :: "char \<Rightarrow> bool" where "cont c \<equiv> inR c 0x80 0xBF"

definition lead2 :: "char \<Rightarrow> char \<Rightarrow> bool" where
  "lead2 a b \<longleftrightarrow> inR a 0xC2 0xDF \<and> cont b"

definition lead3 :: "char \<Rightarrow> char \<Rightarrow> bool" where
  "lead3 a b \<longleftrightarrow> inR a 0xE0 0xE0 \<and> inR b 0xA0 0xBF \<or> (inR a 0xE1 0xEC \<or> inR a 0xEE 0xEF) \<and> cont b
     \<or> inR a 0xED 0xED \<and> inR b 0x80 0x9F"

definition lead4 :: "char \<Rightarrow> char \<Rightarrow> bool" where
  "lead4 a b \<longleftrightarrow> inR a 0xF0 0xF0 \<and> inR b 0x90 0xBF \<or> inR a 0xF1 0xF3 \<and> cont b
     \<or> inR a 0xF4 0xF4 \<and> inR b 0x80 0x8F"

fun rune_len :: "string \<Rightarrow> nat" where
  "rune_len (a # b # s) =
     (if lead2 a b then 2
      else if lead3 a b then (case s of c # _ \<Rightarrow> if cont c then 3 else 0 | _ \<Rightarrow> 0)
      else if lead4 a b then (case s of c # d # _ \<Rightarrow> if cont c \<and> cont d then 4 else 0 | _ \<Rightarrow> 0)
      else 0)"
| "rune_len s = 0"

fun valid_utf8 :: "string \<Rightarrow> bool" where
  "valid_utf8 [] \<longleftrightarrow> True"
| "valid_utf8 (b # s) \<longleftrightarrow>
     (if (of_char b :: nat) < 0x80 then valid_utf8 s
      else rune_len (b # s) \<noteq> 0 \<and> valid_utf8 (drop (rune_len (b # s) - 1) s))"

section \<open>The string encoder\<close>

abbreviation quoteCh :: char where "quoteCh \<equiv> CHR 0x22"
abbreviation backslash :: char where "backslash \<equiv> CHR 0x5C"

definition escape_ascii :: "char \<Rightarrow> string" where
  "escape_ascii b =
     (let n = of_char b :: nat in
      if b = quoteCh \<or> b = backslash then [backslash, b]
      else if 0x20 \<le> n then [b]
      else if n = 8 then [backslash, CHR ''b'']
      else if n = 12 then [backslash, CHR ''f'']
      else if n = 10 then [backslash, CHR ''n'']
      else if n = 13 then [backslash, CHR ''r'']
      else if n = 9 then [backslash, CHR ''t'']
      else [backslash, CHR ''u'', CHR ''0'', CHR ''0'', hex_digit (n div 16), hex_digit (n mod 16)])"

abbreviation lineSep :: string where "lineSep \<equiv> [CHR 0xE2, CHR 0x80, CHR 0xA8]"
abbreviation paraSep :: string where "paraSep \<equiv> [CHR 0xE2, CHR 0x80, CHR 0xA9]"

fun json_escape :: "string \<Rightarrow> string" where
  "json_escape [] = []"
| "json_escape (b # s) =
     (if (of_char b :: nat) < 0x80 then escape_ascii b @ json_escape s
      else if rune_len (b # s) = 0 then backslash # ''ufffd'' @ json_escape s
      else if take (rune_len (b # s)) (b # s) = lineSep
        then backslash # ''u2028'' @ json_escape (drop (rune_len (b # s) - 1) s)
      else if take (rune_len (b # s)) (b # s) = paraSep
        then backslash # ''u2029'' @ json_escape (drop (rune_len (b # s) - 1) s)
      else take (rune_len (b # s)) (b # s) @ json_escape (drop (rune_len (b # s) - 1) s))"

definition writeJCSString :: "string \<Rightarrow> string" where
  "writeJCSString s = quoteCh # json_escape s @ [quoteCh]"

section \<open>The object encoder\<close>

fun canonMembers :: "(string \<times> string) list \<Rightarrow> string" where
  "canonMembers [] = []"
| "canonMembers [(k, v)] = writeJCSString k @ '':'' @ writeJCSString v"
| "canonMembers ((k, v) # kv # kvs) =
     writeJCSString k @ '':'' @ writeJCSString v @ '','' @ canonMembers (kv # kvs)"

definition sortedKVs :: "(string \<times> string) list \<Rightarrow> (string \<times> string) list" where
  "sortedKVs payload =
     map (\<lambda>k. (k, case map_of payload k of None \<Rightarrow> [] | Some v \<Rightarrow> v)) (sort (map fst payload))"

definition canonicalJSON :: "(string \<times> string) list \<Rightarrow> string" where
  "canonicalJSON payload = ''{'' @ canonMembers (sortedKVs payload) @ ''}''"

definition valid_kvs :: "(string \<times> string) list \<Rightarrow> bool" where
  "valid_kvs kvs \<longleftrightarrow> list_all (\<lambda>(k, v). valid_utf8 k \<and> valid_utf8 v) kvs"

section \<open>A decoder\<close>

text \<open>Reads the rest of a quoted string: the decoded bytes and what follows the closing quote. Only
  escapes the encoder writes for valid UTF-8 are accepted.\<close>

definition hex4 :: "string \<Rightarrow> nat option" where
  "hex4 s =
     (case map hex_value s of
        [Some a, Some b, Some c, Some d] \<Rightarrow> Some (((a * 16 + b) * 16 + c) * 16 + d) | _ \<Rightarrow> None)"

definition short_escape :: "char \<Rightarrow> char option" where
  "short_escape e =
     (if e = quoteCh \<or> e = backslash then Some e
      else map_of [(CHR ''b'', CHR 0x08), (CHR ''f'', CHR 0x0C), (CHR ''n'', CHR 0x0A),
        (CHR ''r'', CHR 0x0D), (CHR ''t'', CHR 0x09)] e)"

definition unicode_bytes :: "nat \<Rightarrow> string option" where
  "unicode_bytes v =
     (if v < 0x80 then Some [char_of v]
      else if v = 0x2028 then Some lineSep else if v = 0x2029 then Some paraSep else None)"

definition consume :: "string \<Rightarrow> (string \<times> string) option \<Rightarrow> (string \<times> string) option" where
  "consume p r = map_option (\<lambda>(a, b). (p @ a, b)) r"

fun unquote :: "string \<Rightarrow> (string \<times> string) option" where
  "unquote [] = None"
| "unquote (c # r) =
     (if c = quoteCh then Some ([], r)
      else if c \<noteq> backslash then consume [c] (unquote r)
      else case r of
          [] \<Rightarrow> None
        | e # r' \<Rightarrow>
            (if e = CHR ''u'' then
               (case Option.bind (hex4 (take 4 r')) unicode_bytes of
                  None \<Rightarrow> None | Some bs \<Rightarrow> consume bs (unquote (drop 4 r')))
             else case short_escape e of None \<Rightarrow> None | Some b \<Rightarrow> consume [b] (unquote r')))"

section \<open>Facts\<close>

lemma consume_Some [simp]: "consume p (Some (a, b)) = Some (p @ a, b)"
  by (simp add: consume_def)

lemma rune_len_cases:
  assumes "rune_len s \<noteq> 0"
  obtains a b r where "s = a # b # r" "lead2 a b" "rune_len s = 2"
    | a b c r where "s = a # b # c # r" "lead3 a b" "cont c" "rune_len s = 3"
    | a b c d r where "s = a # b # c # d # r" "lead4 a b" "cont c" "cont d" "rune_len s = 4"
  using assms
  by (cases s rule: rune_len.cases) (auto split: if_splits list.splits)

lemma rune_len_bounds: "rune_len s \<noteq> 0 \<Longrightarrow> 2 \<le> rune_len s \<and> rune_len s \<le> length s"
  by (erule rune_len_cases) simp_all

lemma lead_high:
  "lead2 a b \<Longrightarrow> 0x80 \<le> (of_char a :: nat) \<and> 0x80 \<le> (of_char b :: nat)"
  "lead3 a b \<Longrightarrow> 0x80 \<le> (of_char a :: nat) \<and> 0x80 \<le> (of_char b :: nat)"
  "lead4 a b \<Longrightarrow> 0x80 \<le> (of_char a :: nat) \<and> 0x80 \<le> (of_char b :: nat)"
  by (auto simp: lead2_def lead3_def lead4_def inR_def)

lemma cont_high: "cont c \<Longrightarrow> 0x80 \<le> (of_char c :: nat)"
  by (simp add: inR_def)

lemma rune_len_high: "\<forall>c \<in> set (take (rune_len s) s). 0x80 \<le> (of_char c :: nat)"
proof (cases "rune_len s = 0")
  case False
  then show ?thesis
    by (cases rule: rune_len_cases) (simp_all only:, auto dest: lead_high cont_high)
qed simp

lemma hex_value_zero: "hex_value (CHR ''0'') = Some 0"
  by (simp add: hex_value_def)

lemma unquote_high:
  assumes "\<forall>c \<in> set p. 0x80 \<le> (of_char c :: nat)"
  shows "unquote (p @ r) = consume p (unquote r)"
  using assms
proof (induction p)
  case Nil
  then show ?case by (cases "unquote r") (auto simp: consume_def)
next
  case (Cons c p)
  have "c \<noteq> quoteCh" "c \<noteq> backslash" using Cons.prems by auto
  with Cons show ?case by (cases "unquote r") (auto simp: consume_def)
qed

lemma unquote_u:
  assumes "Option.bind (hex4 h) unicode_bytes = Some bs" "length h = 4"
  shows "unquote (backslash # CHR ''u'' # h @ r) = consume bs (unquote r)"
  using assms by simp

lemma hex4_control:
  assumes "(of_char b :: nat) < 0x20"
  shows "Option.bind (hex4 [CHR ''0'', CHR ''0'', hex_digit (of_char b div 16), hex_digit (of_char b mod 16)])
        unicode_bytes = Some [b]"
proof -
  have "(of_char b :: nat) div 16 < 16" "(of_char b :: nat) mod 16 < 16" using assms by simp_all
  then show ?thesis using assms by (simp add: hex4_def unicode_bytes_def hex_value_zero)
qed

lemma unquote_ascii:
  assumes "(of_char b :: nat) < 0x80"
  shows "unquote (escape_ascii b @ r) = consume [b] (unquote r)"
proof -
  let ?n = "of_char b :: nat"
  consider "b = quoteCh" | "b = backslash" | "b \<noteq> quoteCh" "b \<noteq> backslash" "0x20 \<le> ?n"
    | "b = CHR 0x08" | "b = CHR 0x0C" | "b = CHR 0x0A" | "b = CHR 0x0D" | "b = CHR 0x09"
    | "?n < 0x20" "?n \<noteq> 8" "?n \<noteq> 9" "?n \<noteq> 10" "?n \<noteq> 12" "?n \<noteq> 13"
  proof -
    have "?n = 8 \<Longrightarrow> b = CHR 0x08" "?n = 12 \<Longrightarrow> b = CHR 0x0C" "?n = 10 \<Longrightarrow> b = CHR 0x0A"
      "?n = 13 \<Longrightarrow> b = CHR 0x0D" "?n = 9 \<Longrightarrow> b = CHR 0x09"
      by (simp_all add: of_char_eq_iff [symmetric, where ?'a = nat])
    then show thesis using that by (metis not_le)
  qed
  then show ?thesis
  proof cases
    case 9
    then have "b \<noteq> quoteCh" "b \<noteq> backslash" by auto
    then have "escape_ascii b @ r = backslash # CHR ''u''
        # [CHR ''0'', CHR ''0'', hex_digit (?n div 16), hex_digit (?n mod 16)] @ r"
      using 9 by (simp add: escape_ascii_def Let_def)
    then show ?thesis by (simp only: unquote_u [OF hex4_control [OF 9(1)]] list.size)
  qed (simp_all add: escape_ascii_def short_escape_def Let_def)
qed

lemma hex4_separators:
  "Option.bind (hex4 ''2028'') unicode_bytes = Some lineSep"
  "Option.bind (hex4 ''2029'') unicode_bytes = Some paraSep"
  by (simp_all add: hex4_def unicode_bytes_def hex_value_def)

lemma unquote_json_escape:
  "valid_utf8 s \<Longrightarrow> unquote (json_escape s @ quoteCh # r) = Some (s, r)"
proof (induction s rule: valid_utf8.induct)
  case (2 b s)
  show ?case
  proof (cases "(of_char b :: nat) < 0x80")
    case True
    then show ?thesis using 2 by (simp add: unquote_ascii)
  next
    case False
    let ?n = "rune_len (b # s)" let ?p = "take ?n (b # s)"
    have n: "?n \<noteq> 0" and IH: "unquote (json_escape (drop (?n - 1) s) @ quoteCh # r) = Some (drop (?n - 1) s, r)"
      using 2 False by auto
    have s: "?p @ drop (?n - 1) s = b # s"
      using n by (metis append_take_drop_id drop_Cons')
    consider "?p = lineSep" | "?p = paraSep" | "?p \<noteq> lineSep" "?p \<noteq> paraSep" by blast
    then show ?thesis
    proof cases
      case 1
      then show ?thesis
        using False n IH s unquote_u [OF hex4_separators(1)] by (simp del: unquote.simps take_Suc_Cons)
    next
      case 2
      then show ?thesis
        using False n IH s unquote_u [OF hex4_separators(2)] by (simp del: unquote.simps take_Suc_Cons)
    next
      case 3
      then have "json_escape (b # s) = ?p @ json_escape (drop (?n - 1) s)" using False n by simp
      then have "unquote (json_escape (b # s) @ quoteCh # r) = consume ?p (Some (drop (?n - 1) s, r))"
        by (simp only: append_assoc unquote_high [OF rune_len_high] IH)
      then show ?thesis using s by (simp del: unquote.simps json_escape.simps)
    qed
  qed
qed simp

lemma writeJCSString_cancel:
  assumes "valid_utf8 s" "valid_utf8 t" "writeJCSString s @ r = writeJCSString t @ r'"
  shows "s = t \<and> r = r'"
proof -
  have "json_escape s @ quoteCh # r = json_escape t @ quoteCh # r'"
    using assms(3) by (simp add: writeJCSString_def)
  then have "Some (s, r) = Some (t, r')"
    by (metis unquote_json_escape [OF assms(1), of r] unquote_json_escape [OF assms(2), of r'])
  then show ?thesis by simp
qed

lemma canonMembers_Cons:
  "canonMembers ((k, v) # kvs) =
     writeJCSString k @ '':'' @ writeJCSString v @ (if kvs = [] then [] else '','' @ canonMembers kvs)"
  by (cases kvs) simp_all

lemma canonMembers_inj:
  "valid_kvs kvs \<Longrightarrow> valid_kvs kvs' \<Longrightarrow> canonMembers kvs @ ''}'' = canonMembers kvs' @ ''}'' \<Longrightarrow> kvs = kvs'"
proof (induction kvs arbitrary: kvs')
  case Nil
  then show ?case by (cases kvs') (auto simp: canonMembers_Cons writeJCSString_def)
next
  case (Cons kv kvs)
  obtain k v where kv: "kv = (k, v)" by force
  from Cons.prems(3) obtain k' v' kvs'' where kvs': "kvs' = (k', v') # kvs''"
    by (cases kvs') (auto simp: kv canonMembers_Cons writeJCSString_def)
  let ?t = "\<lambda>xs. (if xs = [] then [] else '','' @ canonMembers xs) @ ''}''"
  have valid: "valid_utf8 k" "valid_utf8 v" "valid_utf8 k'" "valid_utf8 v'" "valid_kvs kvs" "valid_kvs kvs''"
    using Cons.prems(1,2) by (auto simp: kv kvs' valid_kvs_def)
  have "writeJCSString k @ '':'' @ writeJCSString v @ ?t kvs = writeJCSString k' @ '':'' @ writeJCSString v' @ ?t kvs''"
    using Cons.prems(3) by (simp only: kv kvs' canonMembers_Cons append_assoc)
  from writeJCSString_cancel [OF valid(1,3) this]
  have k: "k = k'" and "writeJCSString v @ ?t kvs = writeJCSString v' @ ?t kvs''" by simp_all
  then have v: "v = v'" and t: "?t kvs = ?t kvs''"
    using writeJCSString_cancel [OF valid(2,4)] by blast+
  from t have "canonMembers kvs @ ''}'' = canonMembers kvs'' @ ''}''"
    by (cases "kvs = []"; cases "kvs'' = []") simp_all
  with Cons.IH [OF valid(5,6)] show ?case by (simp add: kv kvs' k v)
qed

lemma map_of_sortedKVs: "map_of (sortedKVs p) = map_of p"
proof
  fix k
  show "map_of (sortedKVs p) k = map_of p k"
  proof (cases "map_of p k")
    case None
    then have "k \<notin> set (sort (map fst p))" by (simp add: map_of_eq_None_iff)
    then show ?thesis using None
      by (simp add: sortedKVs_def map_of_map_restrict restrict_map_def)
  next
    case (Some v)
    then have "k \<in> set (sort (map fst p))" by (auto dest: map_of_SomeD intro: rev_image_eqI)
    then show ?thesis using Some
      by (simp add: sortedKVs_def map_of_map_restrict restrict_map_def)
  qed
qed

lemma valid_sortedKVs: "valid_kvs p \<Longrightarrow> valid_kvs (sortedKVs p)"
  by (auto simp: valid_kvs_def sortedKVs_def list_all_iff dest!: map_of_SomeD split: option.splits)

text \<open>The encoding of a map determines the map: two payloads of valid UTF-8 with the same canonical
  bytes have the same members.\<close>

lemma canonicalJSON_determines:
  assumes "valid_kvs p" "valid_kvs q" "canonicalJSON p = canonicalJSON q"
  shows "map_of p = map_of q"
proof -
  have "sortedKVs p = sortedKVs q"
    using assms canonMembers_inj valid_sortedKVs by (simp add: canonicalJSON_def)
  then show ?thesis by (metis map_of_sortedKVs)
qed

text \<open>The encoding does not depend on the map's iteration order.\<close>

lemma canonicalJSON_order:
  assumes "distinct (map fst p)" "distinct (map fst q)" "map_of p = map_of q"
  shows "canonicalJSON p = canonicalJSON q"
proof -
  have "set (map fst p) = set (map fst q)" using assms(3) by (metis dom_map_of_conv_image_fst list.set_map)
  then have "sort (map fst p) = sort (map fst q)"
    using assms(1,2) by (metis sorted_list_of_set_sort_remdups distinct_remdups_id)
  then show ?thesis using assms(3) by (simp add: canonicalJSON_def sortedKVs_def)
qed

end
