(* ===== verification/Httpx.thy ===== *)
theory Httpx
  imports Queue Jcs
begin

text \<open>
  The vendor-call plumbing of \<open>internal/moderate\<close>: the retrying POST of \<open>httpx.go\<close>, the pacing limiter
  of \<open>ratelimit.go\<close> and the adapter registry of \<open>registry.go\<close>. The network is an argument: what the
  request builder, the round trip and the sleep of each attempt give back. A sleep that is cut short by
  its context is an error. A \<open>%q\<close> in a message is rendered as the text between quotes.
\<close>

section \<open>Responses\<close>

text \<open>\<open>Header.Get\<close> of the response is a function of the header name; a missing header reads as empty.\<close>

record Response =
  rStatus :: int
  rHeader :: "string \<Rightarrow> string"
  rBody :: string
  rReadErr :: "goerr option"

datatype RoundTrip = NetErr goerr | GotResp Response

record HttpWorld =
  hwBuild :: "nat \<Rightarrow> goerr option"
  hwDo :: "nat \<Rightarrow> RoundTrip"
  hwSleep :: "nat \<Rightarrow> goerr option"

definition ellipsis :: string where "ellipsis = [CHR 0xE2, CHR 0x80, CHR 0xA6]"

definition truncateMsg :: "string \<Rightarrow> nat \<Rightarrow> string" where
  "truncateMsg s n = (if length s \<le> n then s else take n s @ ellipsis)"

definition quoted :: "string \<Rightarrow> string" where
  "quoted s = CHR 0x22 # s @ [CHR 0x22]"

definition errorBodyKeep :: nat where "errorBodyKeep = 1024"

fun trimInvalid :: "string \<Rightarrow> string" where
  "trimInvalid b = (if b \<noteq> [] \<and> \<not> valid_utf8 b then trimInvalid (butlast b) else b)"

declare trimInvalid.simps [simp del]

definition retainedErrorBody :: "string \<Rightarrow> string" where
  "retainedErrorBody body =
     (if length body \<le> errorBodyKeep then body else trimInvalid (take errorBodyKeep body))"

definition httpError :: "int \<Rightarrow> string \<Rightarrow> string \<Rightarrow> goerr" where
  "httpError status code body =
     sentinelErr (HTTPErr status code)
       (''provider returned '' @ show_int status @ '' (code='' @ quoted code @ ''): '' @ truncateMsg body 200)"

text \<open>\<open>strconv.Atoi\<close>: an optional sign and at least one digit, in the range of a 64-bit int.\<close>

definition digit_value :: "char \<Rightarrow> int" where
  "digit_value c = of_char c - 48"

definition is_digit :: "char \<Rightarrow> bool" where
  "is_digit c = (48 \<le> (of_char c :: nat) \<and> (of_char c :: nat) \<le> 57)"

definition Atoi :: "string \<Rightarrow> int option" where
  "Atoi s =
     (let neg = (take 1 s = ''-''); ds = (if neg \<or> take 1 s = ''+'' then tl s else s);
          v = foldl (\<lambda>a c. a * 10 + digit_value c) 0 ds; n = (if neg then - v else v)
      in if ds = [] \<or> \<not> list_all is_digit ds \<or> n < - (2 ^ 63) \<or> 2 ^ 63 \<le> n then None else Some n)"

definition RetryableStatus :: "int \<Rightarrow> bool" where
  "RetryableStatus code \<longleftrightarrow> code = 429 \<or> code \<ge> 500"

definition RetryAfter :: "Response \<Rightarrow> int" where
  "RetryAfter resp =
     (let v = rHeader resp ''Retry-After'' in
      if v \<noteq> [] then
        (case Atoi v of
           Some secs \<Rightarrow> if secs > 0 \<and> secs \<le> 120 then secs * Second else 0
         | None \<Rightarrow> 0)
      else 0)"

section \<open>The retry loop\<close>

text \<open>Durations are signed 64-bit values: the exponential factor and the product wrap.\<close>

definition wrapInt64 :: "int \<Rightarrow> int" where
  "wrapInt64 i = (i + 2 ^ 63) mod 2 ^ 64 - 2 ^ 63"

definition expBackoff :: "int \<Rightarrow> nat \<Rightarrow> int" where
  "expBackoff base attempt = wrapInt64 (base * wrapInt64 (2 ^ (attempt - 1)))"

definition rate429Floor :: int where "rate429Floor = 2 * Second"

record BackoffEvent =
  beAttempt :: nat
  beDelay :: int
  beStatus :: int
  beReason :: string

text \<open>What one round trip means: a finished call, or the error, status and reason to retry with and the
  delay before it.\<close>

datatype AttemptResult = Finished "string res" | Transient goerr int string int

definition maxBody :: nat where "maxBody = 4 * 1024 * 1024"

definition attemptResult :: "HttpWorld \<Rightarrow> nat \<Rightarrow> int \<Rightarrow> string \<Rightarrow> nat \<Rightarrow> AttemptResult" where
  "attemptResult w maxAttempts baseBackoff errCodeHeader attempt =
     (case hwBuild w attempt of
        Some e \<Rightarrow> Finished (Inl e)
      | None \<Rightarrow>
          (case hwDo w attempt of
             NetErr e \<Rightarrow> Transient e 0 ''network'' (expBackoff baseBackoff attempt)
           | GotResp resp \<Rightarrow>
               (case rReadErr resp of
                  Some e \<Rightarrow> Transient e (rStatus resp) ''read_body'' (expBackoff baseBackoff attempt)
                | None \<Rightarrow>
                    (let body = take maxBody (rBody resp) in
                     if rStatus resp \<ge> 200 \<and> rStatus resp < 300 then Finished (Inr body)
                     else
                       (let herr = httpError (rStatus resp)
                              (if errCodeHeader \<noteq> [] then rHeader resp errCodeHeader else [])
                              (retainedErrorBody body) in
                        if \<not> RetryableStatus (rStatus resp) then Finished (Inl herr)
                        else Transient herr (rStatus resp) ''status''
                          (if RetryAfter resp > 0 \<and> attempt < maxAttempts then RetryAfter resp
                           else if rStatus resp = 429 \<and> attempt < maxAttempts then expBackoff rate429Floor attempt
                           else expBackoff baseBackoff attempt))))))"

definition exhausted :: "nat \<Rightarrow> goerr option \<Rightarrow> goerr" where
  "exhausted maxAttempts lastErr =
     wrap2 (sentinelErr ErrRetryable ''retryable'') '': ''
       (wrap2 (sentinelErr ErrAttemptsExhausted ''attempts exhausted'')
         ('' after '' @ show_nat maxAttempts @ '' attempts: '')
         (case lastErr of Some e \<Rightarrow> e | None \<Rightarrow> errorf ''%!w(<nil>)''))"

definition markRetryable :: "goerr \<Rightarrow> goerr" where
  "markRetryable e = wrap2 (sentinelErr ErrRetryable ''retryable'') '': '' e"

function doLoop ::
  "HttpWorld \<Rightarrow> nat \<Rightarrow> int \<Rightarrow> string \<Rightarrow> nat \<Rightarrow> goerr option \<Rightarrow> BackoffEvent list \<Rightarrow> string res \<times> BackoffEvent list" where
  "doLoop w maxAttempts baseBackoff hdr attempt lastErr events =
     (if attempt > maxAttempts then (Inl (exhausted maxAttempts lastErr), events)
      else case attemptResult w maxAttempts baseBackoff hdr attempt of
          Finished r \<Rightarrow> (r, events)
        | Transient e status reason d \<Rightarrow>
            (if attempt < maxAttempts then
               (let ev = \<lparr>beAttempt = attempt, beDelay = d, beStatus = status, beReason = reason\<rparr> in
                case hwSleep w attempt of
                  Some _ \<Rightarrow> (Inl (markRetryable e), events @ [ev])
                | None \<Rightarrow> doLoop w maxAttempts baseBackoff hdr (attempt + 1) (Some e) (events @ [ev]))
             else doLoop w maxAttempts baseBackoff hdr (attempt + 1) (Some e) events))"
  by pat_completeness auto

termination
  by (relation "measure (\<lambda>(w, maxAttempts, b, h, attempt, l, ev). maxAttempts + 1 - attempt)") auto

declare doLoop.simps [simp del]

definition effAttempts :: "int \<Rightarrow> nat" where
  "effAttempts maxAttempts = nat (if maxAttempts \<le> 0 then 3 else maxAttempts)"

definition effBackoff :: "int \<Rightarrow> int" where
  "effBackoff baseBackoff = (if baseBackoff \<le> 0 then 500 * Millisecond else baseBackoff)"

definition DoJSON :: "HttpWorld \<Rightarrow> int \<Rightarrow> int \<Rightarrow> string \<Rightarrow> string res \<times> BackoffEvent list" where
  "DoJSON w maxAttempts baseBackoff errCodeHeader =
     doLoop w (effAttempts maxAttempts) (effBackoff baseBackoff) errCodeHeader 1 None []"

section \<open>The limiter (ratelimit.go)\<close>

record Limiter =
  interval :: int
  nextSlot :: int

text \<open>The part of \<open>Wait\<close> under the mutex: the time to wait from \<open>now\<close> on.\<close>

definition reserve :: "Limiter \<Rightarrow> int \<Rightarrow> Limiter \<times> int" where
  "reserve l t =
     (let n = (if nextSlot l < t then t else nextSlot l) in (l\<lparr>nextSlot := n + interval l\<rparr>, n - t))"

definition Wait :: "Limiter \<Rightarrow> int \<Rightarrow> goerr option \<Rightarrow> goerr option \<Rightarrow> Limiter \<times> goerr option" where
  "Wait l t ctxErr sleepErr =
     (if interval l = 0 then (l, ctxErr)
      else let (l', wait) = reserve l t in (l', if wait \<le> 0 then ctxErr else sleepErr))"

text \<open>The instants the calls of a sequence are released at, for the times they arrive at.\<close>

fun slots :: "Limiter \<Rightarrow> int list \<Rightarrow> int list" where
  "slots l [] = []"
| "slots l (t # ts) = (let (l', wait) = reserve l t in (t + wait) # slots l' ts)"

section \<open>The registry (registry.go)\<close>

type_synonym 'f registry = "(string \<times> 'f) list"

definition Register :: "'f registry \<Rightarrow> string \<Rightarrow> 'f option \<Rightarrow> 'f registry call" where
  "Register factories name f =
     (case f of
        None \<Rightarrow> Panicked ''moderate: Register with empty name or nil factory''
      | Some g \<Rightarrow>
          if name = [] then Panicked ''moderate: Register with empty name or nil factory''
          else if map_of factories name \<noteq> None then
            Panicked (''moderate: adapter '' @ quoted name @ '' registered twice'')
          else Ret (AList.update name g factories))"

definition Registered :: "'f registry \<Rightarrow> string list" where
  "Registered factories = sort (map fst factories)"

definition NewAdapter :: "(string \<Rightarrow> 'c \<Rightarrow> 'm res) registry \<Rightarrow> string \<Rightarrow> 'c \<Rightarrow> 'm res" where
  "NewAdapter factories name cfg =
     (case map_of factories name of
        None \<Rightarrow> Inl (errorf (''moderate: unknown adapter '' @ quoted name @ '' (registered: [''
          @ Join (Registered factories) '' '' @ ''])''))
      | Some f \<Rightarrow> f name cfg)"

section \<open>A reference description of the loop\<close>

text \<open>Attempts \<open>a\<close> up to, but not including, \<open>k\<close> failed in a way that is retried, and the sleep after
  each ran to its end.\<close>

definition transientUpto :: "HttpWorld \<Rightarrow> nat \<Rightarrow> int \<Rightarrow> string \<Rightarrow> nat \<Rightarrow> nat \<Rightarrow> bool" where
  "transientUpto w n b h a k \<longleftrightarrow>
     list_all (\<lambda>j. (\<exists>e s q d. attemptResult w n b h j = Transient e s q d) \<and> (j < n \<longrightarrow> hwSleep w j = None)) [a..<k]"

text \<open>How a call that starts at attempt \<open>a\<close> can end: an attempt settles it, a sleep is cut short, or
  every attempt was transient.\<close>

definition settledAt :: "HttpWorld \<Rightarrow> nat \<Rightarrow> int \<Rightarrow> string \<Rightarrow> nat \<Rightarrow> string res \<Rightarrow> bool" where
  "settledAt w n b h a r \<longleftrightarrow>
     (\<exists>k. a \<le> k \<and> k \<le> n \<and> transientUpto w n b h a k \<and> attemptResult w n b h k = Finished r)"

definition interruptedAt :: "HttpWorld \<Rightarrow> nat \<Rightarrow> int \<Rightarrow> string \<Rightarrow> nat \<Rightarrow> string res \<Rightarrow> bool" where
  "interruptedAt w n b h a r \<longleftrightarrow>
     (\<exists>k e s q d. a \<le> k \<and> k < n \<and> transientUpto w n b h a k \<and> attemptResult w n b h k = Transient e s q d
        \<and> hwSleep w k \<noteq> None \<and> r = Inl (markRetryable e))"

definition exhaustedAt :: "HttpWorld \<Rightarrow> nat \<Rightarrow> int \<Rightarrow> string \<Rightarrow> nat \<Rightarrow> string res \<Rightarrow> bool" where
  "exhaustedAt w n b h a r \<longleftrightarrow>
     transientUpto w n b h a (n + 1) \<and>
     (\<exists>e s q d. attemptResult w n b h n = Transient e s q d \<and> r = Inl (exhausted n (Some e)))"

text \<open>A server that answers 503 twice and then 200, and one that always answers 404.\<close>

definition resp :: "int \<Rightarrow> string \<Rightarrow> Response" where
  "resp status body = \<lparr>rStatus = status, rHeader = (\<lambda>_. []), rBody = body, rReadErr = None\<rparr>"

definition flakyWorld :: HttpWorld where
  "flakyWorld = \<lparr>hwBuild = (\<lambda>_. None), hwDo = (\<lambda>k. GotResp (if k < 3 then resp 503 [] else resp 200 ''{}'')),
     hwSleep = (\<lambda>_. None)\<rparr>"

definition downWorld :: "goerr option \<Rightarrow> HttpWorld" where
  "downWorld sleepErr = \<lparr>hwBuild = (\<lambda>_. None), hwDo = (\<lambda>k. GotResp (resp 503 [])), hwSleep = (\<lambda>_. sleepErr)\<rparr>"

section \<open>Facts\<close>

lemma transientUpto_Nil [simp]: "transientUpto w n b h a a"
  by (simp add: transientUpto_def)

lemma transientUpto_step:
  "attemptResult w n b h a = Transient e s q d \<Longrightarrow> (a < n \<longrightarrow> hwSleep w a = None) \<Longrightarrow>
     transientUpto w n b h (a + 1) k \<Longrightarrow> a < k \<Longrightarrow> transientUpto w n b h a k"
  by (simp add: transientUpto_def upt_conv_Cons)

lemma doLoop_spec:
  assumes "doLoop w n b h a le ev = (r, ev')" "a \<le> n"
  shows "(settledAt w n b h a r \<or> interruptedAt w n b h a r \<or> exhaustedAt w n b h a r)
    \<and> length ev' \<le> length ev + (n - a)"
  using assms
proof (induction w n b h a le ev arbitrary: r ev' rule: doLoop.induct)
  case (1 w n b h a le ev)
  show ?case
  proof (cases "attemptResult w n b h a")
    case (Finished x)
    then have "r = x \<and> ev' = ev" using 1(3,4) by (simp add: doLoop.simps [of _ _ _ _ a])
    then have "settledAt w n b h a r" using Finished 1(4) by (auto simp: settledAt_def)
    then show ?thesis using \<open>r = x \<and> ev' = ev\<close> by simp
  next
    case t: (Transient e s q d)
    let ?ev = "ev @ [\<lparr>beAttempt = a, beDelay = d, beStatus = s, beReason = q\<rparr>]"
    consider (last) "a = n" | (slept) "a < n" "hwSleep w a = None" | (cut) "a < n" "hwSleep w a \<noteq> None"
      using 1(4) by linarith
    then show ?thesis
    proof cases
      case last
      then have "r = Inl (exhausted n (Some e)) \<and> ev' = ev"
        using 1(3) t by (simp add: doLoop.simps [of _ _ _ _ n] doLoop.simps [of _ _ _ _ "Suc n"])
      moreover have "transientUpto w n b h a (n + 1)" using t last by (simp add: transientUpto_def)
      ultimately show ?thesis using last t by (auto simp: exhaustedAt_def)
    next
      case cut
      then have "r = Inl (markRetryable e) \<and> ev' = ?ev"
        using 1(3) t by (auto simp: doLoop.simps [of _ _ _ _ a] Let_def split: option.splits)
      then show ?thesis using cut t unfolding interruptedAt_def by (force intro!: exI [of _ a])
    next
      case slept
      have run: "doLoop w n b h (a + 1) (Some e) ?ev = (r, ev')"
        using 1(3) t slept by (simp add: doLoop.simps [of _ _ _ _ a] Let_def)
      have IH: "(settledAt w n b h (a + 1) r \<or> interruptedAt w n b h (a + 1) r \<or> exhaustedAt w n b h (a + 1) r)
          \<and> length ev' \<le> length ?ev + (n - (a + 1))"
        using 1(1) [OF _ t _ refl _ run] slept by simp
      note up = transientUpto_step [OF t]
      have "settledAt w n b h (a + 1) r \<Longrightarrow> settledAt w n b h a r"
        unfolding settledAt_def using up slept by (metis Suc_eq_plus1 Suc_le_eq less_imp_le)
      moreover have "interruptedAt w n b h (a + 1) r \<Longrightarrow> interruptedAt w n b h a r"
        unfolding interruptedAt_def using up slept by (metis Suc_eq_plus1 Suc_le_eq less_imp_le)
      moreover have "exhaustedAt w n b h (a + 1) r \<Longrightarrow> exhaustedAt w n b h a r"
        unfolding exhaustedAt_def using up slept by (metis Suc_eq_plus1 less_SucI)
      ultimately have "settledAt w n b h a r \<or> interruptedAt w n b h a r \<or> exhaustedAt w n b h a r"
        using IH by blast
      moreover have "length ev' \<le> length ev + (n - a)" using IH slept(1) by auto
      ultimately show ?thesis by blast
    qed
  qed
qed

lemma markRetryable_is: "errorsIs (markRetryable e) ErrRetryable" "errorsIs (exhausted n le) ErrRetryable"
  "errorsIs (exhausted n le) ErrAttemptsExhausted"
  by (simp_all add: markRetryable_def exhausted_def)

lemma attemptResult_Finished_Inr:
  assumes "attemptResult w n b h k = Finished (Inr body)"
  shows "\<exists>r. hwBuild w k = None \<and> hwDo w k = GotResp r \<and> rReadErr r = None \<and> 200 \<le> rStatus r \<and> rStatus r < 300
    \<and> body = take maxBody (rBody r)"
  using assms by (auto simp: attemptResult_def Let_def split: option.splits RoundTrip.splits if_splits)

lemma attemptResult_Finished_Inl:
  assumes "attemptResult w n b h k = Finished (Inl e)" "hwBuild w k = None"
  shows "\<exists>r. hwDo w k = GotResp r \<and> \<not> RetryableStatus (rStatus r) \<and> \<not> (200 \<le> rStatus r \<and> rStatus r < 300)
    \<and> (\<exists>code. etree e = [HTTPErr (rStatus r) code])"
  using assms
  by (auto simp: attemptResult_def Let_def httpError_def sentinelErr_def split: option.splits RoundTrip.splits if_splits)

lemma trimInvalid_prefix: "\<exists>t. b = trimInvalid b @ t"
proof (induction b rule: trimInvalid.induct)
  case (1 b)
  show ?case
  proof (cases "b \<noteq> [] \<and> \<not> valid_utf8 b")
    case True
    then obtain t where "butlast b = trimInvalid (butlast b) @ t" using 1 by auto
    then have "b = trimInvalid (butlast b) @ t @ [last b]"
      using True by (metis append.assoc append_butlast_last_id)
    then show ?thesis using True by (metis trimInvalid.simps)
  next
    case False
    then have "trimInvalid b = b" by (metis trimInvalid.simps)
    then show ?thesis by simp
  qed
qed

lemma trimInvalid_valid: "valid_utf8 (trimInvalid b)"
  by (induction b rule: trimInvalid.induct) (subst trimInvalid.simps, auto)

lemma Atoi_range: "Atoi s = Some n \<Longrightarrow> - (2 ^ 63) \<le> n \<and> n < 2 ^ 63"
  by (auto simp: Atoi_def Let_def split: if_splits)

lemma RetryAfter_range: "RetryAfter r = 0 \<or> Second \<le> RetryAfter r \<and> RetryAfter r \<le> 120 * Second"
  by (auto simp: RetryAfter_def Let_def split: option.splits)

lemma wrapInt64_id: "- (2 ^ 63) \<le> i \<Longrightarrow> i < 2 ^ 63 \<Longrightarrow> wrapInt64 i = i"
  by (simp add: wrapInt64_def)

lemma slots_ge: "t \<in> set (slots l ts) \<Longrightarrow> 0 \<le> interval l \<Longrightarrow> nextSlot l \<le> t"
  by (induction ts arbitrary: l) (force simp: reserve_def Let_def split: if_splits)+

text \<open>Consecutive release instants, and so any two, are at least the interval apart.\<close>

lemma slots_spaced:
  "0 \<le> interval l \<Longrightarrow> i < j \<Longrightarrow> j < length (slots l ts) \<Longrightarrow>
     slots l ts ! i + int (j - i) * interval l \<le> slots l ts ! j"
proof (induction ts arbitrary: l i j)
  case (Cons t ts)
  let ?n = "if nextSlot l < t then t else nextSlot l"
  let ?l = "l\<lparr>nextSlot := ?n + interval l\<rparr>"
  have s: "slots l (t # ts) = ?n # slots ?l ts" by (simp add: reserve_def Let_def)
  obtain j' where j: "j = Suc j'" using Cons.prems(2) by (cases j) auto
  have j': "j' < length (slots ?l ts)" using Cons.prems(3) j s by simp
  show ?case
  proof (cases i)
    case 0
    have "?n + interval l \<le> slots ?l ts ! 0"
      using slots_ge [of "slots ?l ts ! 0" ?l ts] j' Cons.prems(1) by (cases "slots ?l ts") auto
    moreover have "slots ?l ts ! 0 + int j' * interval l \<le> slots ?l ts ! j'"
      using Cons.IH [of ?l 0 j'] Cons.prems(1) j' by (cases j') auto
    ultimately show ?thesis unfolding s j 0 by (simp add: algebra_simps)
  next
    case (Suc i')
    then show ?thesis using Cons.IH [of ?l i' j'] Cons.prems j' unfolding s j by simp
  qed
qed simp

lemma dojson_cases:
  "settledAt w (effAttempts m) (effBackoff b) h 1 (fst (DoJSON w m b h)) \<or>
    interruptedAt w (effAttempts m) (effBackoff b) h 1 (fst (DoJSON w m b h)) \<or>
    exhaustedAt w (effAttempts m) (effBackoff b) h 1 (fst (DoJSON w m b h))"
  "length (snd (DoJSON w m b h)) < effAttempts m"
proof -
  have n: "1 \<le> effAttempts m" by (auto simp: effAttempts_def)
  obtain r ev where d: "doLoop w (effAttempts m) (effBackoff b) h 1 None [] = (r, ev)" by fastforce
  note doLoop_spec [OF this n]
  then show "settledAt w (effAttempts m) (effBackoff b) h 1 (fst (DoJSON w m b h)) \<or>
    interruptedAt w (effAttempts m) (effBackoff b) h 1 (fst (DoJSON w m b h)) \<or>
    exhaustedAt w (effAttempts m) (effBackoff b) h 1 (fst (DoJSON w m b h))"
    "length (snd (DoJSON w m b h)) < effAttempts m"
    unfolding DoJSON_def d using n by auto
qed

section \<open>Properties\<close>

text \<open>
  C12. The retrying call makes at most \<open>maxAttempts\<close> attempts (three when the setting is not positive) and
  ends in one of three ways: an attempt settles it, after nothing but transient failures; a backoff sleep
  is cut short by the context, and the error is marked retryable; or every attempt failed transiently,
  and the error is marked retryable and exhausted. There are fewer backoffs than attempts.
\<close>

theorem dojson_outcome:
  "length (snd (DoJSON w m b h)) < effAttempts m \<and>
   (settledAt w (effAttempts m) (effBackoff b) h 1 (fst (DoJSON w m b h)) \<or>
    interruptedAt w (effAttempts m) (effBackoff b) h 1 (fst (DoJSON w m b h)) \<or>
    exhaustedAt w (effAttempts m) (effBackoff b) h 1 (fst (DoJSON w m b h)))"
  using dojson_cases by blast

text \<open>
  Only transient failures are retried: when requests can be built, an error that is not marked retryable
  comes from a response with a terminal status, at an attempt preceded by transient failures only, and it
  carries that status; a successful result is the body of a 2xx response, cut at 4 MiB.
\<close>

theorem dojson_classification:
  assumes "hwBuild w = (\<lambda>_. None)"
  shows "case fst (DoJSON w m b h) of
      Inr body \<Rightarrow> \<exists>k r. k \<le> effAttempts m \<and> hwDo w k = GotResp r \<and> 200 \<le> rStatus r \<and> rStatus r < 300
        \<and> body = take maxBody (rBody r)
    | Inl e \<Rightarrow> errorsIs e ErrRetryable \<or>
        (\<exists>k r code. k \<le> effAttempts m \<and> transientUpto w (effAttempts m) (effBackoff b) h 1 k
          \<and> hwDo w k = GotResp r \<and> rStatus r \<noteq> 429 \<and> rStatus r < 500 \<and> etree e = [HTTPErr (rStatus r) code])"
proof (cases "fst (DoJSON w m b h)")
  case (Inr body)
  then have "settledAt w (effAttempts m) (effBackoff b) h 1 (Inr body)"
    using dojson_cases [of w m b h] by (auto simp: interruptedAt_def exhaustedAt_def)
  then show ?thesis using Inr attemptResult_Finished_Inr by (fastforce simp: settledAt_def)
next
  case (Inl e)
  then consider "settledAt w (effAttempts m) (effBackoff b) h 1 (Inl e)" | "errorsIs e ErrRetryable"
    using dojson_cases [of w m b h] by (auto simp: interruptedAt_def exhaustedAt_def markRetryable_is)
  then show ?thesis
  proof cases
    case 1
    then obtain k where k: "k \<le> effAttempts m" "transientUpto w (effAttempts m) (effBackoff b) h 1 k"
      "attemptResult w (effAttempts m) (effBackoff b) h k = Finished (Inl e)" by (auto simp: settledAt_def)
    from attemptResult_Finished_Inl [OF k(3)] assms k(1,2) show ?thesis
      unfolding Inl by (auto simp: RetryableStatus_def)
  qed (simp add: Inl)
qed

theorem dojson_classification_witness: "fst (DoJSON flakyWorld 3 0 []) = Inr ''{}''"
  using dojson_classification [of flakyWorld 3 0 "[]"]
  by (simp add: flakyWorld_def resp_def DoJSON_def effAttempts_def effBackoff_def doLoop.simps attemptResult_def
      RetryableStatus_def RetryAfter_def maxBody_def)

text \<open>
  The limiter spaces requests: whatever the arrival times and however many workers share it, any two
  releases \<open>i < j\<close> of one limiter are at least \<open>j - i\<close> intervals apart, so a window of length \<open>T\<close> holds at
  most \<open>T / interval + 1\<close> of them.
\<close>

theorem limiter_paces:
  assumes "0 < interval l" "i < j" "j < length (slots l ts)"
  shows "slots l ts ! i + int (j - i) * interval l \<le> slots l ts ! j"
  using slots_spaced assms by simp

theorem limiter_paces_witness:
  "slots \<lparr>interval = 10, nextSlot = 0\<rparr> [100, 100, 101, 250] ! 0 + int 2 * 10
     \<le> slots \<lparr>interval = 10, nextSlot = 0\<rparr> [100, 100, 101, 250] ! 2"
  using limiter_paces [of "\<lparr>interval = 10, nextSlot = 0\<rparr>" 0 2 "[100, 100, 101, 250]"]
  by (simp add: reserve_def)

end
