(* ===== verification/Sinks.thy ===== *)
theory Sinks
  imports Httpx
begin

text \<open>
  Result delivery (\<open>internal/result\<close>): the per-job claim set every sink keeps (\<open>dedupe.go\<close>), the line
  sinks (\<open>sink.go\<close>, \<open>file.go\<close>), the webhook sink (\<open>webhook.go\<close>), the routing predicate
  (\<open>predicate.go\<close>, \<open>routed.go\<close>) and the fan-out (\<open>multi.go\<close>). A sink's state carries the envelopes its
  destination received; the clock and the outcome of each write are arguments of the call.
\<close>

section \<open>Claims (dedupe.go)\<close>

text \<open>The zero time is \<open>None\<close>: the difference to it saturates, so the first sweep always runs.\<close>

record Dedupe =
  dWritten :: "(JobID \<times> int) list"
  dRetain :: int
  dLastSweep :: "int option"

definition newDedupe :: Dedupe where
  "newDedupe = \<lparr>dWritten = [], dRetain = 0, dLastSweep = None\<rparr>"

definition retention :: "Dedupe \<Rightarrow> int" where
  "retention d = (if dRetain d \<noteq> 0 then dRetain d else Hour)"

definition sweepLocked :: "Dedupe \<Rightarrow> int \<Rightarrow> Dedupe" where
  "sweepLocked d t =
     (case dLastSweep d of
        Some l \<Rightarrow>
          if t - l < Minute then d
          else d\<lparr>dLastSweep := Some t, dWritten := filter (\<lambda>(i, u). \<not> u < t - retention d) (dWritten d)\<rparr>
      | None \<Rightarrow> d\<lparr>dLastSweep := Some t, dWritten := filter (\<lambda>(i, u). \<not> u < t - retention d) (dWritten d)\<rparr>)"

definition Claim :: "Dedupe \<Rightarrow> int \<Rightarrow> JobID \<Rightarrow> Dedupe \<times> bool" where
  "Claim d t job =
     (let d1 = sweepLocked d t in
      if map_of (dWritten d1) job \<noteq> None then (d1, False)
      else (d1\<lparr>dWritten := AList.update job t (dWritten d1)\<rparr>, True))"

definition Release :: "Dedupe \<Rightarrow> JobID \<Rightarrow> Dedupe" where
  "Release d job = d\<lparr>dWritten := AList.delete job (dWritten d)\<rparr>"

section \<open>Encoding an envelope\<close>

text \<open>\<open>json.Marshal\<close> refuses a number that is not finite and a raw message that is not JSON.\<close>

fun finite64 :: "float64 option \<Rightarrow> bool" where
  "finite64 None = True"
| "finite64 (Some (Fin q)) = True"
| "finite64 (Some _) = False"

definition resultFinite :: "NormalizedResult \<Rightarrow> bool" where
  "resultFinite r \<longleftrightarrow>
     finite64 (MaxScore (Overall r)) \<and> finite64 (Confidence (Overall r)) \<and>
     list_all (\<lambda>f. finite64 (TimestampSec f) \<and>
       list_all (\<lambda>c. finite64 (Score c) \<and> finite64 (Threshold c)) (Categories f)) (nrFrames r)"

definition rawOK :: "string \<Rightarrow> bool" where
  "rawOK m \<longleftrightarrow> m = [] \<or> jsonValid m"

definition marshalErr :: "ResultEnvelope \<Rightarrow> goerr option" where
  "marshalErr env =
     (if rawOK (eMetadata env) \<and>
         (case eResult env of None \<Rightarrow> True | Some r \<Rightarrow> resultFinite r \<and> rawOK (Raw r))
      then None else Some (errorf ''json: unsupported value''))"

section \<open>Line sinks (sink.go, file.go)\<close>

record LineSink =
  lsLines :: "ResultEnvelope list"
  lsDedupe :: Dedupe

record LineIO =
  lioNow :: int
  lioWrite :: "goerr option"

definition errDeliveryFailed :: goerr where
  "errDeliveryFailed = sentinelErr ErrDeliveryFailed ''result: delivered nothing''"

definition JSONLSink_Write :: "LineIO \<Rightarrow> LineSink \<Rightarrow> ResultEnvelope \<Rightarrow> LineSink \<times> goerr option" where
  "JSONLSink_Write io s env =
     (let (d, owned) = Claim (lsDedupe s) (lioNow io) (eJobID env) in
      if \<not> owned then (s\<lparr>lsDedupe := d\<rparr>, None)
      else case marshalErr env of
          Some e \<Rightarrow> (s\<lparr>lsDedupe := Release d (eJobID env)\<rparr>, Some (wrapf ''result: marshal envelope: '' e))
        | None \<Rightarrow>
            (case lioWrite io of
               Some e \<Rightarrow> (s\<lparr>lsDedupe := Release d (eJobID env)\<rparr>, Some (wrapf ''result: write envelope: '' e))
             | None \<Rightarrow> (s\<lparr>lsDedupe := d, lsLines := lsLines s @ [env]\<rparr>, None)))"

definition FileSink_Write :: "LineIO \<Rightarrow> LineSink \<Rightarrow> ResultEnvelope \<Rightarrow> LineSink \<times> goerr option" where
  "FileSink_Write io s env =
     (let (d, owned) = Claim (lsDedupe s) (lioNow io) (eJobID env) in
      if \<not> owned then (s\<lparr>lsDedupe := d\<rparr>, None)
      else case marshalErr env of
          Some e \<Rightarrow> (s\<lparr>lsDedupe := Release d (eJobID env)\<rparr>, Some (wrap2 errDeliveryFailed '': file sink (format): '' e))
        | None \<Rightarrow>
            (case lioWrite io of
               Some e \<Rightarrow> (s\<lparr>lsDedupe := Release d (eJobID env)\<rparr>, Some (wrap2 errDeliveryFailed '': file sink (write): '' e))
             | None \<Rightarrow> (s\<lparr>lsDedupe := d, lsLines := lsLines s @ [env]\<rparr>, None)))"

definition NewFileSink :: "goerr option \<Rightarrow> string \<Rightarrow> LineSink res" where
  "NewFileSink openErr path =
     (case openErr of
        Some e \<Rightarrow> Inl (wrapf (''result: open file sink '' @ path @ '': '') e)
      | None \<Rightarrow> Inr \<lparr>lsLines = [], lsDedupe = newDedupe\<rparr>)"

section \<open>The webhook sink (webhook.go)\<close>

text \<open>A formatter appears as the error of rendering an envelope, \<open>None\<close> when it renders; the bytes go to
  the network only. Without one, the raw JSON envelope is posted.\<close>

record WebhookOptions =
  woTimeout :: int
  woMaxAttempts :: int
  woBackoff :: int
  woFormatter :: "(ResultEnvelope \<Rightarrow> goerr option) option"
  woName :: string

record WebhookSink =
  wsTimeout :: int
  wsMaxAttempts :: int
  wsBackoff :: int
  wsFmt :: "ResultEnvelope \<Rightarrow> goerr option"
  wsName :: string
  wsPosted :: "ResultEnvelope list"
  wsDedupe :: Dedupe

definition NewWebhookSink :: "WebhookOptions \<Rightarrow> WebhookSink" where
  "NewWebhookSink opts =
     \<lparr>wsTimeout = (if woTimeout opts \<le> 0 then 5 * Second else woTimeout opts),
      wsMaxAttempts = (if woMaxAttempts opts \<le> 0 then 3 else woMaxAttempts opts),
      wsBackoff = (if woBackoff opts \<le> 0 then 500 * Millisecond else woBackoff opts),
      wsFmt = (case woFormatter opts of None \<Rightarrow> marshalErr | Some f \<Rightarrow> f),
      wsName = (if woName opts = [] then ''webhook'' else woName opts),
      wsPosted = [], wsDedupe = newDedupe\<rparr>"

definition classify :: "goerr \<Rightarrow> string" where
  "classify e = (if errorsIs e ErrAttemptsExhausted then ''exhausted'' else ''rejected'')"

definition statusOf :: "goerr \<Rightarrow> int" where
  "statusOf e =
     (case find (\<lambda>s. case s of HTTPErr _ _ \<Rightarrow> True | _ \<Rightarrow> False) (etree e) of
        Some (HTTPErr st code) \<Rightarrow> st | _ \<Rightarrow> 0)"

definition sinkFail :: "WebhookSink \<Rightarrow> string \<Rightarrow> goerr \<Rightarrow> goerr" where
  "sinkFail s reason e = wrap2 errDeliveryFailed ('': sink '' @ wsName s @ '' ('' @ reason @ ''): '') e"

record WebhookIO =
  wioNow :: int
  wioHttp :: HttpWorld

definition WebhookSink_Write :: "WebhookIO \<Rightarrow> WebhookSink \<Rightarrow> ResultEnvelope \<Rightarrow> WebhookSink \<times> goerr option" where
  "WebhookSink_Write io s env =
     (let (d, owned) = Claim (wsDedupe s) (wioNow io) (eJobID env) in
      if \<not> owned then (s\<lparr>wsDedupe := d\<rparr>, None)
      else case wsFmt s env of
          Some e \<Rightarrow> (s\<lparr>wsDedupe := Release d (eJobID env)\<rparr>, Some (sinkFail s ''format'' e))
        | None \<Rightarrow>
            (case fst (DoJSON (wioHttp io) (wsMaxAttempts s) (wsBackoff s) []) of
               Inl e \<Rightarrow> (s\<lparr>wsDedupe := Release d (eJobID env)\<rparr>, Some (sinkFail s (classify e) e))
             | Inr _ \<Rightarrow> (s\<lparr>wsDedupe := d, wsPosted := wsPosted s @ [env]\<rparr>, None)))"

section \<open>Routing (predicate.go, routed.go)\<close>

record Predicate =
  pVerdicts :: "string list"
  pCategories :: "(string \<times> float64) list"
  pSourceKinds :: "string list"

definition PredicateIsEmpty :: "Predicate \<Rightarrow> bool" where
  "PredicateIsEmpty p \<longleftrightarrow> pVerdicts p = [] \<and> pCategories p = [] \<and> pSourceKinds p = []"

definition validSourceKind :: "string \<Rightarrow> bool" where
  "validSourceKind k \<longleftrightarrow> k = ''file'' \<or> k = ''url''"

fun normVerdicts :: "string list \<Rightarrow> string list res" where
  "normVerdicts [] = Inr []"
| "normVerdicts (v # vs) =
     (let l = ToLower (TrimSpace v) in
      if l \<in> verdict_string ` {VerdictAllow, VerdictFlag, VerdictBlock, VerdictError}
      then (case normVerdicts vs of Inl e \<Rightarrow> Inl e | Inr ls \<Rightarrow> Inr (l # ls))
      else Inl (errorf (''predicate: unknown verdict '' @ quoted v @ '' (want allow, flag, block or error)'')))"

fun normKinds :: "string list \<Rightarrow> string list res" where
  "normKinds [] = Inr []"
| "normKinds (k # ks) =
     (let l = ToLower (TrimSpace k) in
      if validSourceKind l then (case normKinds ks of Inl e \<Rightarrow> Inl e | Inr ls \<Rightarrow> Inr (l # ls))
      else Inl (errorf (''predicate: unknown source kind '' @ quoted k @ '' (want file or url)'')))"

fun normCategories :: "(string \<times> float64) list \<Rightarrow> (string \<times> float64) list \<Rightarrow> (string \<times> float64) list res" where
  "normCategories [] canon = Inr canon"
| "normCategories ((k, mn) # kvs) canon =
     (let upper = ToUpper (TrimSpace k) in
      if Canonicalize upper \<noteq> upper then
        Inl (errorf (''predicate: unknown category '' @ quoted k @ '' - it would fold to OTHER and never match the category you meant''))
      else if f64_lt mn (Fin 0) \<or> f64_lt (Fin 1) mn then
        Inl (errorf (''predicate: category '' @ quoted k @ '' min score is outside [0,1]''))
      else if map_of canon upper \<noteq> None then
        Inl (errorf (''predicate: category '' @ quoted k @ '' is listed twice after canonicalization''))
      else normCategories kvs (AList.update upper mn canon))"

definition NormalizePredicate :: "Predicate \<Rightarrow> Predicate res" where
  "NormalizePredicate p =
     (case normVerdicts (pVerdicts p) of
        Inl e \<Rightarrow> Inl e
      | Inr vs \<Rightarrow>
          (case normKinds (pSourceKinds p) of
             Inl e \<Rightarrow> Inl e
           | Inr ks \<Rightarrow>
               (case normCategories (pCategories p) [] of
                  Inl e \<Rightarrow> Inl e
                | Inr cs \<Rightarrow> Inr \<lparr>pVerdicts = vs, pCategories = cs, pSourceKinds = ks\<rparr>)))"

definition verdictOf :: "ResultEnvelope \<Rightarrow> Verdict" where
  "verdictOf env = (case eResult env of None \<Rightarrow> VerdictError | Some r \<Rightarrow> ovVerdict (Overall r))"

definition anyFrameScoreAtLeast :: "ResultEnvelope \<Rightarrow> string \<Rightarrow> float64 \<Rightarrow> bool" where
  "anyFrameScoreAtLeast env cat mn =
     (case eResult env of
        None \<Rightarrow> False
      | Some r \<Rightarrow>
          list_ex (\<lambda>f. list_ex (\<lambda>c. Canonicalize (crCategory c) = cat \<and>
            (case Score c of None \<Rightarrow> False | Some s \<Rightarrow> f64_le mn s)) (Categories f)) (nrFrames r))"

definition Match :: "Predicate \<Rightarrow> ResultEnvelope \<Rightarrow> bool" where
  "Match p env \<longleftrightarrow>
     (pVerdicts p = [] \<or> verdict_string (verdictOf env) \<in> set (pVerdicts p)) \<and>
     (pSourceKinds p = [] \<or> ToLower (Kind (eSource env)) \<in> set (pSourceKinds p)) \<and>
     list_all (\<lambda>(cat, mn). anyFrameScoreAtLeast env cat mn) (pCategories p)"

section \<open>Fan-out (multi.go)\<close>

datatype SinkState =
    SJsonl LineSink
  | SFile LineSink
  | SWebhook WebhookSink
  | SRouted Predicate SinkState

record SinkIO =
  sioLine :: LineIO
  sioHook :: WebhookIO

fun sinkWrite :: "SinkIO \<Rightarrow> SinkState \<Rightarrow> ResultEnvelope \<Rightarrow> SinkState \<times> goerr option" where
  "sinkWrite io (SJsonl s) env = map_prod SJsonl id (JSONLSink_Write (sioLine io) s env)"
| "sinkWrite io (SFile s) env = map_prod SFile id (FileSink_Write (sioLine io) s env)"
| "sinkWrite io (SWebhook s) env = map_prod SWebhook id (WebhookSink_Write (sioHook io) s env)"
| "sinkWrite io (SRouted p s) env =
     (if \<not> Match p env then (SRouted p s, None) else map_prod (SRouted p) id (sinkWrite io s env))"

definition NewMultiSink :: "SinkState list \<Rightarrow> string list \<Rightarrow> (SinkState \<times> string) list res" where
  "NewMultiSink sinks names =
     (if length sinks \<noteq> length names then
        Inl (errorf (''result: MultiSink needs one name per sink, got '' @ show_nat (length sinks) @ '' sinks and ''
          @ show_nat (length names) @ '' names''))
      else Inr (zip sinks names))"

definition keepFirst :: "goerr option \<Rightarrow> string \<Rightarrow> goerr option \<Rightarrow> goerr option" where
  "keepFirst firstErr name r =
     (case r of None \<Rightarrow> firstErr
      | Some e \<Rightarrow>
          (case firstErr of None \<Rightarrow> Some (wrapf (''result: sink '' @ name @ '': '') e) | Some f \<Rightarrow> Some f))"

text \<open>The loop of \<open>MultiSink.Write\<close>: the sinks after it, the names \<open>onFail\<close> was called with, and the
  first error. The argument \<open>ios\<close> gives the outcome of each sink's write by position.\<close>

fun multiWrite ::
  "(nat \<Rightarrow> SinkIO) \<Rightarrow> nat \<Rightarrow> (SinkState \<times> string) list \<Rightarrow> ResultEnvelope \<Rightarrow> goerr option \<Rightarrow>
   (SinkState \<times> string) list \<times> string list \<times> goerr option" where
  "multiWrite ios i [] env firstErr = ([], [], firstErr)"
| "multiWrite ios i ((s, name) # rest) env firstErr =
     (let (s', r) = sinkWrite (ios i) s env;
          (rest', fails, out) = multiWrite ios (i + 1) rest env (keepFirst firstErr name r)
      in ((s', name) # rest', (if r = None then fails else name # fails), out))"

definition MultiSink_Write ::
  "(nat \<Rightarrow> SinkIO) \<Rightarrow> (SinkState \<times> string) list \<Rightarrow> ResultEnvelope \<Rightarrow>
   (SinkState \<times> string) list \<times> string list \<times> goerr option" where
  "MultiSink_Write ios m env = multiWrite ios 0 m env None"

section \<open>What a sink promises\<close>

definition claimed :: "Dedupe \<Rightarrow> JobID set" where
  "claimed d = fst ` set (dWritten d)"

text \<open>No claim is old enough to be swept at time \<open>t\<close>.\<close>

definition dedupeFresh :: "Dedupe \<Rightarrow> int \<Rightarrow> bool" where
  "dedupeFresh d t \<longleftrightarrow> list_all (\<lambda>(i, u). t - retention d \<le> u) (dWritten d)"

fun sinkOut :: "SinkState \<Rightarrow> ResultEnvelope list" where
  "sinkOut (SJsonl s) = lsLines s"
| "sinkOut (SFile s) = lsLines s"
| "sinkOut (SWebhook s) = wsPosted s"
| "sinkOut (SRouted p s) = sinkOut s"

fun sinkClaims :: "SinkState \<Rightarrow> JobID set" where
  "sinkClaims (SJsonl s) = claimed (lsDedupe s)"
| "sinkClaims (SFile s) = claimed (lsDedupe s)"
| "sinkClaims (SWebhook s) = claimed (wsDedupe s)"
| "sinkClaims (SRouted p s) = sinkClaims s"

fun sinkFresh :: "SinkIO \<Rightarrow> SinkState \<Rightarrow> bool" where
  "sinkFresh io (SJsonl s) = dedupeFresh (lsDedupe s) (lioNow (sioLine io))"
| "sinkFresh io (SFile s) = dedupeFresh (lsDedupe s) (lioNow (sioLine io))"
| "sinkFresh io (SWebhook s) = dedupeFresh (wsDedupe s) (wioNow (sioHook io))"
| "sinkFresh io (SRouted p s) = sinkFresh io s"

fun sinkWants :: "SinkState \<Rightarrow> ResultEnvelope \<Rightarrow> bool" where
  "sinkWants (SRouted p s) env = (Match p env \<and> sinkWants s env)"
| "sinkWants _ env = True"

definition sinkInv :: "SinkState \<Rightarrow> bool" where
  "sinkInv s \<longleftrightarrow> sinkClaims s = eJobID ` set (sinkOut s) \<and> distinct (map eJobID (sinkOut s))"

definition emptyLineSink :: LineSink where
  "emptyLineSink = \<lparr>lsLines = [], lsDedupe = newDedupe\<rparr>"

definition demoEnv :: "JobID \<Rightarrow> ResultEnvelope" where
  "demoEnv job = \<lparr>eJobID = job, eSource = \<lparr>Kind = ''file'', Ref = ''a.png'', RefDigest = [], srcMediaType = ''image''\<rparr>,
     ModelID = \<lparr>Adapter = ''golden'', miModelVersion = ''1'', ConfigHash = []\<rparr>, eResult = None, eError = ''timeout'',
     eMetadata = [], RawSHA256 = [], StartedAt = 0, FinishedAt = 0\<rparr>"

definition demoSinkIO :: "nat \<Rightarrow> SinkIO" where
  "demoSinkIO k = \<lparr>sioLine = \<lparr>lioNow = 0, lioWrite = None\<rparr>, sioHook = \<lparr>wioNow = 0, wioHttp = flakyWorld\<rparr>\<rparr>"

text \<open>The claims of a series at the given times, and what each returned.\<close>

fun claimRun :: "Dedupe \<Rightarrow> (int \<times> JobID) list \<Rightarrow> Dedupe \<times> bool list" where
  "claimRun d [] = (d, [])"
| "claimRun d ((t, job) # ops) =
     (let (d1, b) = Claim d t job; (d2, bs) = claimRun d1 ops in (d2, b # bs))"

text \<open>
  The contract behind at-least-once delivery: a write for a job already claimed does nothing, a write that
  succeeds adds one envelope and its claim, a write that fails leaves both as they were, and an envelope
  the sink does not want changes nothing.
\<close>

locale sink =
  fixes wr :: "'io \<Rightarrow> 's \<Rightarrow> ResultEnvelope \<Rightarrow> 's \<times> goerr option"
    and out :: "'s \<Rightarrow> ResultEnvelope list"
    and claims :: "'s \<Rightarrow> JobID set"
    and fresh :: "'io \<Rightarrow> 's \<Rightarrow> bool"
    and wants :: "'s \<Rightarrow> ResultEnvelope \<Rightarrow> bool"
  assumes miss: "\<not> wants s env \<Longrightarrow> wr io s env = (s, None)"
    and skip: "wants s env \<Longrightarrow> fresh io s \<Longrightarrow> eJobID env \<in> claims s \<Longrightarrow> wr io s env = (s', r) \<Longrightarrow>
      r = None \<and> out s' = out s \<and> claims s' = claims s"
    and deliver: "wants s env \<Longrightarrow> fresh io s \<Longrightarrow> eJobID env \<notin> claims s \<Longrightarrow> wr io s env = (s', None) \<Longrightarrow>
      out s' = out s @ [env] \<and> claims s' = insert (eJobID env) (claims s)"
    and fail: "wants s env \<Longrightarrow> fresh io s \<Longrightarrow> eJobID env \<notin> claims s \<Longrightarrow> wr io s env = (s', Some e) \<Longrightarrow>
      out s' = out s \<and> claims s' = claims s"
begin

lemma write_invariant:
  assumes "fresh io s" "claims s = eJobID ` set (out s)" "distinct (map eJobID (out s))" "wr io s env = (s', r)"
  shows "claims s' = eJobID ` set (out s')" "distinct (map eJobID (out s'))"
    "r = None \<Longrightarrow> wants s env \<Longrightarrow> eJobID env \<in> eJobID ` set (out s')"
proof -
  consider "\<not> wants s env" | "wants s env" "eJobID env \<in> claims s"
    | "wants s env" "eJobID env \<notin> claims s" "r = None" | e where "wants s env" "eJobID env \<notin> claims s" "r = Some e"
    by (cases r) auto
  then have "claims s' = eJobID ` set (out s') \<and> distinct (map eJobID (out s'))
    \<and> (r = None \<longrightarrow> wants s env \<longrightarrow> eJobID env \<in> eJobID ` set (out s'))"
  proof cases
    case 1
    then show ?thesis using miss [of s env io] assms by simp
  next
    case 2
    then show ?thesis using skip [OF 2(1) assms(1) 2(2) assms(4)] assms(2,3) by simp
  next
    case 3
    have w: "wr io s env = (s', None)" using assms(4) 3(3) by simp
    show ?thesis using deliver [OF 3(1) assms(1) 3(2) w] assms(2,3) 3(2) by (auto simp: image_iff)
  next
    case (4 e)
    have w: "wr io s env = (s', Some e)" using assms(4) 4(3) by simp
    show ?thesis using fail [OF 4(1) assms(1) 4(2) w] assms(2,3) 4(3) by simp
  qed
  then show "claims s' = eJobID ` set (out s')" "distinct (map eJobID (out s'))"
    "r = None \<Longrightarrow> wants s env \<Longrightarrow> eJobID env \<in> eJobID ` set (out s')" by simp_all
qed

text \<open>One successful wr leaves exactly one envelope of the job at the destination.\<close>

lemma write_exactly_one:
  assumes "fresh io s" "claims s = eJobID ` set (out s)" "distinct (map eJobID (out s))"
    "wr io s env = (s', None)" "wants s env"
  shows "length (filter (\<lambda>e. eJobID e = eJobID env) (out s')) = 1"
proof -
  note i = write_invariant [OF assms(1-4)]
  show ?thesis using filter_key_one [OF i(2) i(3) [OF refl assms(5)]] .
qed

end

section \<open>The sinks keep the contract\<close>

lemma sweep_fresh:
  assumes "dedupeFresh d t"
  shows "dWritten (sweepLocked d t) = dWritten d"
proof -
  have "filter (\<lambda>(i, u). \<not> u < t - retention d) (dWritten d) = dWritten d"
    using assms by (intro filter_True) (auto simp: dedupeFresh_def list_all_iff)
  then show ?thesis by (simp add: sweepLocked_def split: option.splits)
qed

lemma Claim_held:
  "dedupeFresh d t \<Longrightarrow> job \<in> claimed d \<Longrightarrow> \<exists>d'. Claim d t job = (d', False) \<and> claimed d' = claimed d"
  by (auto simp: Claim_def Let_def claimed_def sweep_fresh map_of_eq_None_iff)

lemma Claim_new:
  assumes "dedupeFresh d t" "job \<notin> claimed d"
  shows "\<exists>d'. Claim d t job = (d', True) \<and> claimed d' = insert job (claimed d) \<and> claimed (Release d' job) = claimed d"
proof -
  have w: "dWritten (sweepLocked d t) = dWritten d" by (rule sweep_fresh [OF assms(1)])
  then have n: "map_of (dWritten (sweepLocked d t)) job = None"
    using assms(2) by (simp add: claimed_def map_of_eq_None_iff)
  have "fst ` set (AList.update job t (dWritten d)) = insert job (fst ` set (dWritten d))"
    by (simp add: dom_update)
  moreover have "fst ` set (AList.delete job xs) = fst ` set xs - {job}" for xs :: "(JobID \<times> int) list"
    by (metis AList.delete_keys list.set_map set_removeAll)
  ultimately show ?thesis using n w assms(2)
    by (simp add: Claim_def Let_def claimed_def Release_def)
qed

lemmas write_defs = JSONLSink_Write_def FileSink_Write_def WebhookSink_Write_def

lemma line_sink_held:
  assumes "dedupeFresh (lsDedupe s) (lioNow io)" "eJobID env \<in> claimed (lsDedupe s)" "w = JSONLSink_Write \<or> w = FileSink_Write"
  shows "\<exists>d. w io s env = (s\<lparr>lsDedupe := d\<rparr>, None) \<and> claimed d = claimed (lsDedupe s)"
  using Claim_held [OF assms(1,2)] assms(3) by (auto simp: write_defs)

lemma line_sink_new:
  assumes "dedupeFresh (lsDedupe s) (lioNow io)" "eJobID env \<notin> claimed (lsDedupe s)" "w = JSONLSink_Write \<or> w = FileSink_Write"
  shows "(\<exists>d. w io s env = (s\<lparr>lsDedupe := d, lsLines := lsLines s @ [env]\<rparr>, None)
      \<and> claimed d = insert (eJobID env) (claimed (lsDedupe s)))
    \<or> (\<exists>d e. w io s env = (s\<lparr>lsDedupe := d\<rparr>, Some e) \<and> claimed d = claimed (lsDedupe s))"
  using Claim_new [OF assms(1,2)] assms(3) by (auto simp: write_defs split: option.splits)

lemma webhook_held:
  assumes "dedupeFresh (wsDedupe s) (wioNow io)" "eJobID env \<in> claimed (wsDedupe s)"
  shows "\<exists>d. WebhookSink_Write io s env = (s\<lparr>wsDedupe := d\<rparr>, None) \<and> claimed d = claimed (wsDedupe s)"
  using Claim_held [OF assms] by (auto simp: write_defs)

lemma webhook_new:
  assumes "dedupeFresh (wsDedupe s) (wioNow io)" "eJobID env \<notin> claimed (wsDedupe s)"
  shows "(\<exists>d. WebhookSink_Write io s env = (s\<lparr>wsDedupe := d, wsPosted := wsPosted s @ [env]\<rparr>, None)
      \<and> claimed d = insert (eJobID env) (claimed (wsDedupe s)))
    \<or> (\<exists>d e. WebhookSink_Write io s env = (s\<lparr>wsDedupe := d\<rparr>, Some e) \<and> claimed d = claimed (wsDedupe s))"
  using Claim_new [OF assms] by (auto simp: write_defs split: option.splits sum.splits)

interpretation jsonl: sink JSONLSink_Write lsLines "\<lambda>s. claimed (lsDedupe s)"
  "\<lambda>io s. dedupeFresh (lsDedupe s) (lioNow io)" "\<lambda>_ _. True"
  using line_sink_held [where w = JSONLSink_Write] line_sink_new [where w = JSONLSink_Write]
  by unfold_locales fastforce+

interpretation fileSink: sink FileSink_Write lsLines "\<lambda>s. claimed (lsDedupe s)"
  "\<lambda>io s. dedupeFresh (lsDedupe s) (lioNow io)" "\<lambda>_ _. True"
  using line_sink_held [where w = FileSink_Write] line_sink_new [where w = FileSink_Write]
  by unfold_locales fastforce+

interpretation webhook: sink WebhookSink_Write wsPosted "\<lambda>s. claimed (wsDedupe s)"
  "\<lambda>io s. dedupeFresh (wsDedupe s) (wioNow io)" "\<lambda>_ _. True"
  using webhook_held webhook_new by unfold_locales fastforce+

text \<open>Every composition of sinks keeps it too: a routed sink keeps what the inner one keeps.\<close>

lemma sink_miss: "\<not> sinkWants s env \<Longrightarrow> sinkWrite io s env = (s, None)"
  by (induction s) (auto simp: map_prod_def)

lemma leaf_write:
  "sinkWrite io (SJsonl x) env = (s', r) \<longleftrightarrow> (\<exists>t. JSONLSink_Write (sioLine io) x env = (t, r) \<and> s' = SJsonl t)"
  "sinkWrite io (SFile x) env = (s', r) \<longleftrightarrow> (\<exists>t. FileSink_Write (sioLine io) x env = (t, r) \<and> s' = SFile t)"
  "sinkWrite io (SWebhook y) env = (s', r) \<longleftrightarrow> (\<exists>t. WebhookSink_Write (sioHook io) y env = (t, r) \<and> s' = SWebhook t)"
  by (auto simp: map_prod_def split: prod.splits)

lemma sink_skip:
  "sinkWants s env \<Longrightarrow> sinkFresh io s \<Longrightarrow> eJobID env \<in> sinkClaims s \<Longrightarrow> sinkWrite io s env = (s', r) \<Longrightarrow>
     r = None \<and> sinkOut s' = sinkOut s \<and> sinkClaims s' = sinkClaims s"
proof (induction s arbitrary: s' r)
  case (SRouted p s)
  then have m: "Match p env" "sinkWants s env" by simp_all
  obtain s2 where w: "sinkWrite io s env = (s2, r)" "s' = SRouted p s2"
    using SRouted.prems(4) m by (cases "sinkWrite io s env") simp
  show ?case using SRouted.IH [OF m(2) _ _ w(1)] SRouted.prems(2,3) w(2) by simp
next
  case (SJsonl x)
  obtain t where w: "JSONLSink_Write (sioLine io) x env = (t, r)" "s' = SJsonl t" using SJsonl.prems(4) unfolding leaf_write by blast
  show ?case using jsonl.skip [OF _ _ _ w(1)] SJsonl.prems(2,3) w(2) by simp
next
  case (SFile x)
  obtain t where w: "FileSink_Write (sioLine io) x env = (t, r)" "s' = SFile t" using SFile.prems(4) unfolding leaf_write by blast
  show ?case using fileSink.skip [OF _ _ _ w(1)] SFile.prems(2,3) w(2) by simp
next
  case (SWebhook x)
  obtain t where w: "WebhookSink_Write (sioHook io) x env = (t, r)" "s' = SWebhook t" using SWebhook.prems(4) unfolding leaf_write by blast
  show ?case using webhook.skip [OF _ _ _ w(1)] SWebhook.prems(2,3) w(2) by simp
qed

lemma sink_deliver:
  "sinkWants s env \<Longrightarrow> sinkFresh io s \<Longrightarrow> eJobID env \<notin> sinkClaims s \<Longrightarrow> sinkWrite io s env = (s', None) \<Longrightarrow>
     sinkOut s' = sinkOut s @ [env] \<and> sinkClaims s' = insert (eJobID env) (sinkClaims s)"
proof (induction s arbitrary: s')
  case (SRouted p s)
  then have m: "Match p env" "sinkWants s env" by simp_all
  obtain s2 where w: "sinkWrite io s env = (s2, None)" "s' = SRouted p s2"
    using SRouted.prems(4) m by (cases "sinkWrite io s env") simp
  show ?case using SRouted.IH [OF m(2) _ _ w(1)] SRouted.prems(2,3) w(2) by simp
next
  case (SJsonl x)
  obtain t where w: "JSONLSink_Write (sioLine io) x env = (t, None)" "s' = SJsonl t" using SJsonl.prems(4) unfolding leaf_write by blast
  show ?case using jsonl.deliver [OF _ _ _ w(1)] SJsonl.prems(2,3) w(2) by simp
next
  case (SFile x)
  obtain t where w: "FileSink_Write (sioLine io) x env = (t, None)" "s' = SFile t" using SFile.prems(4) unfolding leaf_write by blast
  show ?case using fileSink.deliver [OF _ _ _ w(1)] SFile.prems(2,3) w(2) by simp
next
  case (SWebhook x)
  obtain t where w: "WebhookSink_Write (sioHook io) x env = (t, None)" "s' = SWebhook t" using SWebhook.prems(4) unfolding leaf_write by blast
  show ?case using webhook.deliver [OF _ _ _ w(1)] SWebhook.prems(2,3) w(2) by simp
qed

lemma sink_fail:
  "sinkWants s env \<Longrightarrow> sinkFresh io s \<Longrightarrow> eJobID env \<notin> sinkClaims s \<Longrightarrow> sinkWrite io s env = (s', Some e) \<Longrightarrow>
     sinkOut s' = sinkOut s \<and> sinkClaims s' = sinkClaims s"
proof (induction s arbitrary: s')
  case (SRouted p s)
  then have m: "Match p env" "sinkWants s env" by simp_all
  obtain s2 where w: "sinkWrite io s env = (s2, Some e)" "s' = SRouted p s2"
    using SRouted.prems(4) m by (cases "sinkWrite io s env") simp
  show ?case using SRouted.IH [OF m(2) _ _ w(1)] SRouted.prems(2,3) w(2) by simp
next
  case (SJsonl x)
  obtain t where w: "JSONLSink_Write (sioLine io) x env = (t, Some e)" "s' = SJsonl t" using SJsonl.prems(4) unfolding leaf_write by blast
  show ?case using jsonl.fail [OF _ _ _ w(1)] SJsonl.prems(2,3) w(2) by simp
next
  case (SFile x)
  obtain t where w: "FileSink_Write (sioLine io) x env = (t, Some e)" "s' = SFile t" using SFile.prems(4) unfolding leaf_write by blast
  show ?case using fileSink.fail [OF _ _ _ w(1)] SFile.prems(2,3) w(2) by simp
next
  case (SWebhook x)
  obtain t where w: "WebhookSink_Write (sioHook io) x env = (t, Some e)" "s' = SWebhook t" using SWebhook.prems(4) unfolding leaf_write by blast
  show ?case using webhook.fail [OF _ _ _ w(1)] SWebhook.prems(2,3) w(2) by simp
qed

interpretation anySink: sink sinkWrite sinkOut sinkClaims sinkFresh sinkWants
  by unfold_locales (fact sink_miss sink_skip sink_deliver sink_fail)+

lemma sinkWrite_inv:
  assumes "sinkFresh io s" "sinkInv s" "sinkWrite io s env = (s', r)"
  shows "sinkInv s'" "r = None \<Longrightarrow> sinkWants s env \<Longrightarrow> length (filter (\<lambda>e. eJobID e = eJobID env) (sinkOut s')) = 1"
  using anySink.write_invariant [OF assms(1) _ _ assms(3)] anySink.write_exactly_one [of io s env s'] assms
  by (auto simp: sinkInv_def)

lemma sinkWrite_wants: "sinkWrite io s env = (s', r) \<Longrightarrow> sinkWants s' e = sinkWants s e"
proof (induction s arbitrary: s' r)
  case (SRouted p s)
  then show ?case by (cases "Match p env"; cases "sinkWrite io s env") auto
qed (auto simp: leaf_write simp del: sinkWrite.simps)

text \<open>The fan-out writes every sink, whatever the others returned.\<close>

lemma multiWrite_spec:
  "multiWrite ios i m env fe = (m', fails, r) \<Longrightarrow>
     m' = map (\<lambda>(k, s, n). (fst (sinkWrite (ios k) s env), n)) (enumerate i m) \<and>
     fails = map (\<lambda>(k, s, n). n) (filter (\<lambda>(k, s, n). snd (sinkWrite (ios k) s env) \<noteq> None) (enumerate i m)) \<and>
     (r = None \<longleftrightarrow> fe = None \<and> fails = [])"
proof (induction ios i m env fe arbitrary: m' fails r rule: multiWrite.induct)
  case (2 ios i s name rest env fe)
  obtain s1 r1 where w: "sinkWrite (ios i) s env = (s1, r1)" by fastforce
  let ?fe = "keepFirst fe name r1"
  obtain m2 f2 o2 where rest: "multiWrite ios (i + 1) rest env ?fe = (m2, f2, o2)" by (metis prod_cases3)
  from 2(1) [OF w [symmetric] refl rest]
  have IH: "m2 = map (\<lambda>(k, s, n). (fst (sinkWrite (ios k) s env), n)) (enumerate (i + 1) rest)"
    "f2 = map (\<lambda>(k, s, n). n) (filter (\<lambda>(k, s, n). snd (sinkWrite (ios k) s env) \<noteq> None) (enumerate (i + 1) rest))"
    "o2 = None \<longleftrightarrow> ?fe = None \<and> f2 = []" by blast+
  have "m' = (s1, name) # m2" "fails = (if r1 = None then f2 else name # f2)" "r = o2"
    using 2(2) w rest by (auto simp: Let_def)
  moreover have "?fe = None \<longleftrightarrow> fe = None \<and> r1 = None" by (simp add: keepFirst_def split: option.splits)
  ultimately show ?case using w IH by auto
qed simp

lemma update_keeps: "(k, v) \<in> set xs \<Longrightarrow> j \<noteq> k \<Longrightarrow> (k, v) \<in> set (AList.update j w xs)"
  by (induction xs) auto

lemma update_has: "(k, v) \<in> set (AList.update k v xs)"
  by (induction xs) auto

lemma retention_sweep [simp]: "retention (sweepLocked d t) = retention d"
  by (simp add: sweepLocked_def retention_def split: option.splits)

lemma dRetain_sweep [simp]: "dRetain (sweepLocked d t) = dRetain d"
  by (simp add: sweepLocked_def split: option.splits)

lemma Claim_held_entry:
  "Claim d t job = (d1, True) \<Longrightarrow> (job, t) \<in> set (dWritten d1) \<and> retention d1 = retention d"
  using update_has by (auto simp: Claim_def Let_def retention_def split: if_splits)

lemma Claim_keeps:
  assumes "(job, t) \<in> set (dWritten d)" "u \<le> t + retention d" "Claim d u j = (d', b)"
  shows "(job, t) \<in> set (dWritten d') \<and> retention d' = retention d \<and> (j = job \<longrightarrow> \<not> b)"
proof -
  have s: "(job, t) \<in> set (dWritten (sweepLocked d u))"
    using assms(1,2) by (auto simp: sweepLocked_def split: option.splits)
  then have "map_of (dWritten (sweepLocked d u)) job \<noteq> None"
    by (metis weak_map_of_SomeI option.distinct(1))
  then show ?thesis using s assms(3) update_keeps [OF s, of j u]
    by (cases "j = job") (auto simp: Claim_def Let_def retention_def split: if_splits)
qed

lemma claimRun_keeps:
  "(job, t) \<in> set (dWritten d) \<Longrightarrow> claimRun d ops = (d', bs) \<Longrightarrow> list_all (\<lambda>(u, j). u \<le> t + retention d) ops \<Longrightarrow>
     (job, t) \<in> set (dWritten d') \<and> retention d' = retention d \<and> list_all (\<lambda>((u, j), b). j = job \<longrightarrow> \<not> b) (zip ops bs)"
proof (induction d ops arbitrary: d' bs rule: claimRun.induct)
  case (2 d u j ops)
  obtain d1 b where c: "Claim d u j = (d1, b)" by fastforce
  obtain d2 bs2 where r: "claimRun d1 ops = (d2, bs2)" by fastforce
  have k: "(job, t) \<in> set (dWritten d1)" "retention d1 = retention d" "j = job \<longrightarrow> \<not> b"
    using Claim_keeps [OF 2(2) _ c] 2(4) by auto
  show ?case using 2(1) [OF c [symmetric] refl k(1) r] 2(3,4) k c r by auto
qed simp

lemma multi_write_once:
  assumes "list_all (\<lambda>(s, n). sinkInv s) m" "list_all (\<lambda>(k, s, n). sinkFresh (ios k) s) (enumerate 0 m)"
    "MultiSink_Write ios m env = (m', fails, None)"
  shows "list_all2 (\<lambda>(s, n) (s', n'). n' = n \<and> sinkInv s' \<and>
     (if sinkWants s env then length (filter (\<lambda>e. eJobID e = eJobID env) (sinkOut s')) = 1 else s' = s)) m m'"
proof -
  have m': "m' = map (\<lambda>(k, s, n). (fst (sinkWrite (ios k) s env), n)) (enumerate 0 m)" and "fails = []"
    and f: "fails = map (\<lambda>(k, s, n). n) (filter (\<lambda>(k, s, n). snd (sinkWrite (ios k) s env) \<noteq> None) (enumerate 0 m))"
    using multiWrite_spec [of ios 0 m env None m' fails None] assms(3) by (auto simp: MultiSink_Write_def)
  show ?thesis unfolding list_all2_conv_all_nth
  proof (intro conjI allI impI)
    show "length m = length m'" by (simp add: m')
    fix i assume i: "i < length m"
    obtain s n where sn: "m ! i = (s, n)" by fastforce
    obtain s1 r1 where w: "sinkWrite (ios i) s env = (s1, r1)" by fastforce
    have e: "enumerate 0 m ! i = (i, s, n)" using i sn by (simp add: nth_enumerate_eq)
    then have mem: "(i, s, n) \<in> set (enumerate 0 m)" using i by (metis length_enumerate nth_mem)
    have inv: "sinkInv s" using assms(1) i sn by (metis (no_types, lifting) case_prod_conv list_all_length)
    have fr: "sinkFresh (ios i) s" using assms(2) mem by (auto simp: list_all_iff)
    have r1: "r1 = None" using f \<open>fails = []\<close> mem w by (auto simp: filter_empty_conv)
    have m'i: "m' ! i = (s1, n)" using i e w by (simp add: m')
    note inv' = sinkWrite_inv [OF fr inv w]
    have "\<not> sinkWants s env \<Longrightarrow> s1 = s" using sink_miss [of s env "ios i"] w by simp
    then show "(case m ! i of (s, n) \<Rightarrow> \<lambda>(s', n'). n' = n \<and> sinkInv s' \<and>
        (if sinkWants s env then length (filter (\<lambda>e. eJobID e = eJobID env) (sinkOut s')) = 1 else s' = s)) (m' ! i)"
      using sn m'i inv' r1 by simp
  qed
qed

section \<open>Properties\<close>

text \<open>
  Every configured sink is attempted on every envelope, in order, and each ends in the state its own
  write leaves, whatever the others return; the failure callback names exactly the sinks that failed, and
  the call reports success exactly when none did.
\<close>

theorem multi_sink_attempts_all:
  "\<exists>r. MultiSink_Write ios m env =
     (map (\<lambda>(k, s, n). (fst (sinkWrite (ios k) s env), n)) (enumerate 0 m),
      map (\<lambda>(k, s, n). n) (filter (\<lambda>(k, s, n). snd (sinkWrite (ios k) s env) \<noteq> None) (enumerate 0 m)), r) \<and>
     (r = None) = list_all (\<lambda>(k, s, n). snd (sinkWrite (ios k) s env) = None) (enumerate 0 m)"
proof -
  obtain m' f r where w: "multiWrite ios 0 m env None = (m', f, r)" by (metis prod_cases3)
  from multiWrite_spec [OF this] show ?thesis
    by (intro exI [of _ r]) (auto simp: MultiSink_Write_def w filter_empty_conv list_all_iff)
qed



text \<open>
  A claim is remembered for the whole retention window: once a job was claimed at time \<open>t\<close>, every later
  claim of it up to \<open>t\<close> plus the retention is refused, whatever other claims and sweeps came in between,
  as long as nothing released it.
\<close>

theorem dedupe_window:
  assumes "Claim d t job = (d1, True)" "claimRun d1 ops = (d2, bs)"
    "list_all (\<lambda>(u, j). u \<le> t + retention d) ops" "t' \<le> t + retention d"
  shows "\<not> snd (Claim d2 t' job) \<and> list_all (\<lambda>((u, j), b). j = job \<longrightarrow> \<not> b) (zip ops bs)"
proof -
  have "(job, t) \<in> set (dWritten d1) \<and> retention d1 = retention d" by (rule Claim_held_entry [OF assms(1)])
  then have "(job, t) \<in> set (dWritten d2) \<and> retention d2 = retention d
      \<and> list_all (\<lambda>((u, j), b). j = job \<longrightarrow> \<not> b) (zip ops bs)"
    using claimRun_keeps [OF _ assms(2), of job t] assms(3) by auto
  moreover obtain d3 b where "Claim d2 t' job = (d3, b)" by fastforce
  ultimately show ?thesis using Claim_keeps [of job t d2 t' job d3 b] assms(4) by auto
qed

theorem dedupe_window_witness:
  "\<not> snd (Claim (fst (claimRun (fst (Claim newDedupe 0 ''a'')) [(Minute, ''b''), (30 * Minute, ''a'')])) Hour ''a'')"
proof -
  obtain d1 where 1: "Claim newDedupe 0 ''a'' = (d1, True)"
    by (simp add: Claim_def newDedupe_def sweepLocked_def Let_def)
  obtain d2 bs where 2: "claimRun d1 [(Minute, ''b''), (30 * Minute, ''a'')] = (d2, bs)" by fastforce
  have "\<not> snd (Claim d2 Hour ''a'')"
    using dedupe_window [OF 1 2, of Hour] by (simp add: retention_def newDedupe_def)
  then show ?thesis by (simp only: 1 2 fst_conv not_False_eq_True)
qed

text \<open>
  A webhook whose backoff is cut short by the end of the job's context is logged and reported as
  \<open>rejected\<close>, the reason reserved for a receiver that refused the payload, although the error itself is
  marked retryable and the receiver only ever answered 503.
\<close>

theorem interrupted_backoff_reported_rejected:
  "\<exists>e. fst (DoJSON (downWorld (Some (sentinelErr Canceled ''context canceled''))) 3 0 []) = Inl e \<and>
     classify e = ''rejected'' \<and> errorsIs e ErrRetryable \<and> statusOf e = 503"
  by (simp add: downWorld_def resp_def DoJSON_def effAttempts_def effBackoff_def doLoop.simps attemptResult_def
      RetryableStatus_def RetryAfter_def Let_def classify_def statusOf_def markRetryable_def wrap2_def errorsIs_def
      sentinelErr_def httpError_def)

text \<open>
  Routing reads unknown as unknown: a category rule is met only by a category of some frame, under its
  canonical name, that carries a score at or above the minimum, so an unscored category never meets one
  (not even a minimum of zero), and an envelope without a result routes as an error. The empty predicate
  accepts everything.
\<close>

theorem match_semantics:
  "Match p env =
     ((pVerdicts p = [] \<or> verdict_string (case eResult env of None \<Rightarrow> VerdictError | Some r \<Rightarrow> ovVerdict (Overall r)) \<in> set (pVerdicts p)) \<and>
      (pSourceKinds p = [] \<or> ToLower (Kind (eSource env)) \<in> set (pSourceKinds p)) \<and>
      list_all (\<lambda>(cat, mn). \<exists>r f c s. eResult env = Some r \<and> f \<in> set (nrFrames r) \<and> c \<in> set (Categories f) \<and>
        Canonicalize (crCategory c) = cat \<and> Score c = Some s \<and> f64_le mn s) (pCategories p)) \<and>
   (PredicateIsEmpty p \<and> Match p env) = PredicateIsEmpty p"
proof -
  have "anyFrameScoreAtLeast env cat mn = (\<exists>r f c s. eResult env = Some r \<and> f \<in> set (nrFrames r) \<and> c \<in> set (Categories f) \<and>
        Canonicalize (crCategory c) = cat \<and> Score c = Some s \<and> f64_le mn s)" for cat mn
    by (fastforce simp: anyFrameScoreAtLeast_def list_ex_iff split: option.splits)
  then show ?thesis by (auto simp: Match_def verdictOf_def PredicateIsEmpty_def)
qed

text \<open>
  A minimum score that is not a number passes the boot check of a predicate, and the rule that results
  can never fire: no envelope matches it.
\<close>

theorem nan_minimum_never_fires:
  "\<exists>p q. pCategories p = [(''hate'', NaN)] \<and> NormalizePredicate p = Inr q \<and> (\<forall>env. Match q env = False)"
  by (intro exI [of _ "\<lparr>pVerdicts = [], pCategories = [(''hate'', NaN)], pSourceKinds = []\<rparr>"]
      exI [of _ "\<lparr>pVerdicts = [], pCategories = [(''HATE'', NaN)], pSourceKinds = []\<rparr>"])
    (auto simp: NormalizePredicate_def Canonicalize_def canonicalCategories_def string_eval Match_def
      anyFrameScoreAtLeast_def list_ex_iff split: option.splits)

end
