(* ===== verification/AuditLog.thy ===== *)
theory AuditLog
  imports Jcs Queue
begin

text \<open>
  The tamper-evident decision log of \<open>internal/audit/audit.go\<close>: an append-only file of records, each
  carrying the SHA-256 of its sequence number, timestamp, predecessor and canonical payload, next to a
  sidecar file with the head of the chain.

  The file is a list of lines and an unterminated last line; a line is a record as \<open>json.Unmarshal\<close>
  reads it back, blank, or not a record, together with its length in bytes, which the scanner bounds.
  Reading back what \<open>json.Marshal\<close> wrote replaces every byte that is not valid UTF-8 by U+FFFD, as the
  standard library does. The clock and the outcome of each system call are arguments.
\<close>

section \<open>Types\<close>

record Head =
  hSeq :: "64 word"
  hEntryHash :: string

record AuditRecord =
  Seq :: "64 word"
  Timestamp :: string
  PrevHash :: string
  Payload :: "(string \<times> string) list"
  EntryHash :: string
  Signature :: string

datatype Content = CRecord AuditRecord | CBlank | CBad

record DiskLine =
  content :: Content
  lineSize :: nat

datatype HeadFile = HeadMissing | HeadIs Head | HeadMalformed goerr | HeadUnreadable goerr

record Disk =
  dlines :: "DiskLine list"
  dtail :: "DiskLine option"
  dhead :: HeadFile
  dreadErr :: "goerr option"

record Log =
  lseq :: "64 word"
  lprev :: string
  lseen :: "string set"
  lopen :: bool

type_synonym Signer = "string \<Rightarrow> string res"
type_synonym Verifier = "string \<Rightarrow> string \<Rightarrow> goerr option"

record VerifyOptions =
  Anchor :: "Head option"
  oVerifier :: "Verifier option"

text \<open>How a system call of an append ends. A failed write leaves nothing, part of the line, or the line
  without its newline behind.\<close>

datatype WriteOutcome = WriteOK | WroteNothing goerr | WrotePart goerr | WroteUnterminated goerr

record IOs =
  now :: string
  ioWrite :: WriteOutcome
  ioHead :: "goerr option"

definition hashHexLen :: nat where "hashHexLen = 64"

definition genesisPrev :: string where "genesisPrev = replicate 32 (char_of (0 :: nat))"

section \<open>Payload and entry hash\<close>

definition payloadGet :: "(string \<times> string) list \<Rightarrow> string \<Rightarrow> string" where
  "payloadGet p k = (case map_of p k of None \<Rightarrow> [] | Some v \<Rightarrow> v)"

definition payloadFor :: "ResultEnvelope \<Rightarrow> (string \<times> string) list" where
  "payloadFor env =
     [(''job_id'', eJobID env),
      (''asset_id'', case eResult env of Some r \<Rightarrow> AssetID r | None \<Rightarrow> []),
      (''adapter'', Adapter (ModelID env)),
      (''model_version'', miModelVersion (ModelID env)),
      (''config_hash'', ConfigHash (ModelID env)),
      (''verdict'', case eResult env of
          Some r \<Rightarrow> verdict_string (ovVerdict (Overall r))
        | None \<Rightarrow> if eError env \<noteq> [] then verdict_string VerdictError else []),
      (''raw_sha256'',
         if RawSHA256 env \<noteq> [] then RawSHA256 env
         else case eResult env of
             Some r \<Rightarrow> if Raw r \<noteq> [] then hex_encode (sha256 (Raw r)) else []
           | None \<Rightarrow> [])]"

definition writeLenPrefixed :: "string \<Rightarrow> string" where
  "writeLenPrefixed b = be64 (word_of_nat (length b)) @ b"

text \<open>The bytes the digest is taken of. Encoding a flat map of strings cannot fail, so \<open>entryHash\<close> has
  no error value.\<close>

definition entryPreimage :: "64 word \<Rightarrow> string \<Rightarrow> string \<Rightarrow> (string \<times> string) list \<Rightarrow> string" where
  "entryPreimage seq ts prev payload =
     be64 seq @ writeLenPrefixed ts @ prev @ writeLenPrefixed (canonicalJSON payload)"

definition entryHash :: "64 word \<Rightarrow> string \<Rightarrow> string \<Rightarrow> (string \<times> string) list \<Rightarrow> string" where
  "entryHash seq ts prev payload = sha256 (entryPreimage seq ts prev payload)"

section \<open>The JSON round trip of a line\<close>

abbreviation replacementChar :: string where "replacementChar \<equiv> [CHR 0xEF, CHR 0xBF, CHR 0xBD]"

fun coerceUTF8 :: "string \<Rightarrow> string" where
  "coerceUTF8 [] = []"
| "coerceUTF8 (b # s) =
     (if (of_char b :: nat) < 0x80 then b # coerceUTF8 s
      else if rune_len (b # s) = 0 then replacementChar @ coerceUTF8 s
      else take (rune_len (b # s)) (b # s) @ coerceUTF8 (drop (rune_len (b # s) - 1) s))"

definition coercePayload :: "(string \<times> string) list \<Rightarrow> (string \<times> string) list" where
  "coercePayload p = fold (\<lambda>(k, v) m. AList.update (coerceUTF8 k) (coerceUTF8 v) m) (sortedKVs p) []"

definition reread :: "AuditRecord \<Rightarrow> AuditRecord" where
  "reread r = \<lparr>Seq = Seq r, Timestamp = coerceUTF8 (Timestamp r), PrevHash = coerceUTF8 (PrevHash r),
     Payload = coercePayload (Payload r), EntryHash = coerceUTF8 (EntryHash r),
     Signature = coerceUTF8 (Signature r)\<rparr>"

text \<open>\<open>json.Marshal\<close> of the record; unlike the canonical encoding it escapes \<open><\<close>, \<open>>\<close> and \<open>&\<close>.\<close>

definition htmlEscape :: "char \<Rightarrow> string" where
  "htmlEscape c =
     (if c = CHR ''<'' then backslash # ''u003c'' else if c = CHR ''>'' then backslash # ''u003e''
      else if c = CHR ''&'' then backslash # ''u0026'' else [c])"

definition marshalString :: "string \<Rightarrow> string" where
  "marshalString s = quoteCh # concat (map htmlEscape (json_escape s)) @ [quoteCh]"

definition member :: "string \<Rightarrow> string \<Rightarrow> string" where
  "member k v = marshalString k @ '':'' @ v"

definition marshalRecord :: "AuditRecord \<Rightarrow> string" where
  "marshalRecord r = ''{'' @ Join
     ([member ''seq'' (show_nat (unat (Seq r))), member ''timestamp'' (marshalString (Timestamp r)),
       member ''prev_hash'' (marshalString (PrevHash r)),
       member ''payload'' (''{'' @ Join (map (\<lambda>(k, v). member k (marshalString v)) (sortedKVs (Payload r))) '','' @ ''}''),
       member ''entry_hash'' (marshalString (EntryHash r))]
      @ (if Signature r = [] then [] else [member ''signature'' (marshalString (Signature r))])) '','' @ ''}''"

definition maxLine :: nat where "maxLine = 4 * 1024 * 1024"

definition lineOf :: "AuditRecord \<Rightarrow> DiskLine" where
  "lineOf r = \<lparr>content = CRecord (reread r), lineSize = length (marshalRecord r)\<rparr>"

section \<open>Reading\<close>

fun scanLines :: "DiskLine list \<Rightarrow> nat \<Rightarrow> AuditRecord list \<Rightarrow> AuditRecord list res" where
  "scanLines [] line out = Inr out"
| "scanLines (l # ls) line out =
     (if maxLine \<le> lineSize l then Inl (errorf ''bufio.Scanner: token too long'')
      else case content l of
          CBlank \<Rightarrow> scanLines ls (line + 1) out
        | CBad \<Rightarrow> Inl (errorf (''line '' @ show_nat (line + 1) @ '': invalid JSON''))
        | CRecord r \<Rightarrow> scanLines ls (line + 1) (out @ [r]))"

definition readRecords :: "Disk \<Rightarrow> AuditRecord list res" where
  "readRecords d =
     (case dreadErr d of Some e \<Rightarrow> Inl e
      | None \<Rightarrow> scanLines (dlines d @ (case dtail d of None \<Rightarrow> [] | Some l \<Rightarrow> [l])) 0 [])"

definition readHead :: "Disk \<Rightarrow> (Head \<times> bool) res" where
  "readHead d =
     (case dhead d of
        HeadMissing \<Rightarrow> Inr (\<lparr>hSeq = 0, hEntryHash = []\<rparr>, False)
      | HeadUnreadable e \<Rightarrow> Inl e
      | HeadMalformed e \<Rightarrow> Inl (wrapf ''malformed head anchor: '' e)
      | HeadIs h \<Rightarrow> Inr (h, True))"

section \<open>Verification\<close>

definition verifyRecord :: "AuditRecord \<Rightarrow> 64 word \<Rightarrow> string \<Rightarrow> goerr option" where
  "verifyRecord r wantSeq prev =
     (if Seq r \<noteq> wantSeq then
        Some (errorf (''out-of-order seq: want '' @ show_nat (unat wantSeq) @ '', got '' @ show_nat (unat (Seq r))))
      else if PrevHash r \<noteq> hex_encode prev then Some (errorf ''prev_hash mismatch'')
      else if length (EntryHash r) \<noteq> hashHexLen then Some (errorf ''malformed entry_hash'')
      else if hex_encode (entryHash (Seq r) (Timestamp r) prev (Payload r)) \<noteq> EntryHash r then
        Some (errorf ''entry_hash mismatch (payload or header tampered)'')
      else None)"

definition verifySignature :: "Verifier \<Rightarrow> AuditRecord \<Rightarrow> goerr option" where
  "verifySignature v r =
     (if Signature r = [] then Some (errorf ''record is unsigned'')
      else if \<not> snd (hex_decode (Signature r)) then Some (errorf ''malformed signature: invalid hex'')
      else if \<not> snd (hex_decode (EntryHash r)) then Some (errorf ''malformed entry_hash: invalid hex'')
      else v (fst (hex_decode (EntryHash r))) (fst (hex_decode (Signature r))))"

definition checkAnchor :: "Disk \<Rightarrow> AuditRecord list \<Rightarrow> Head option \<Rightarrow> goerr option" where
  "checkAnchor d records anchor =
     (case (case anchor of Some h \<Rightarrow> Inr (h, True) | None \<Rightarrow> readHead d) of
        Inl e \<Rightarrow> Some (wrapf ''audit: read head anchor: '' e)
      | Inr (h, ok) \<Rightarrow>
          if \<not> ok then None
          else if hSeq h = 0 then None
          else if (word_of_nat (length records) :: 64 word) < hSeq h then
            Some (errorf (''audit: log is truncated: head anchor names seq '' @ show_nat (unat (hSeq h))
              @ '' but the log ends at seq '' @ show_nat (length records)))
          else if EntryHash (records ! unat (hSeq h - 1)) \<noteq> hEntryHash h then
            Some (errorf (''audit: record at seq '' @ show_nat (unat (hSeq h))
              @ '' does not match the head anchor (rewritten history)''))
          else None)"

fun verifyLoop :: "Verifier option \<Rightarrow> nat \<Rightarrow> string \<Rightarrow> AuditRecord list \<Rightarrow> (nat \<times> goerr) option" where
  "verifyLoop v i prev [] = None"
| "verifyLoop v i prev (r # rs) =
     (case verifyRecord r (word_of_nat (i + 1)) prev of
        Some e \<Rightarrow> Some (i, wrapf (''audit: chain broken at seq '' @ show_nat (unat (Seq r))
          @ '' (record '' @ show_nat (i + 1) @ ''): '') e)
      | None \<Rightarrow>
          (case (case v of None \<Rightarrow> None | Some w \<Rightarrow> verifySignature w r) of
             Some e \<Rightarrow> Some (i, wrapf (''audit: signature invalid at seq '' @ show_nat (unat (Seq r))
               @ '' (record '' @ show_nat (i + 1) @ ''): '') e)
           | None \<Rightarrow> verifyLoop v (i + 1) (fst (hex_decode (EntryHash r))) rs))"

definition VerifyWith :: "Disk \<Rightarrow> VerifyOptions \<Rightarrow> nat \<times> goerr option" where
  "VerifyWith d opts =
     (case readRecords d of
        Inl e \<Rightarrow> (0, Some e)
      | Inr records \<Rightarrow>
          (case verifyLoop (oVerifier opts) 0 genesisPrev records of
             Some (i, e) \<Rightarrow> (i, Some e)
           | None \<Rightarrow> (length records, checkAnchor d records (Anchor opts))))"

definition Verify :: "Disk \<Rightarrow> nat \<times> goerr option" where
  "Verify d = VerifyWith d \<lparr>Anchor = None, oVerifier = None\<rparr>"

section \<open>Opening\<close>

fun replay :: "nat \<Rightarrow> Log \<Rightarrow> AuditRecord list \<Rightarrow> Log res" where
  "replay i l [] = Inr l"
| "replay i l (r # rs) =
     (case verifyRecord r (word_of_nat (i + 1)) (lprev l) of
        Some e \<Rightarrow> Inl (wrapf (''audit: existing chain is broken at seq '' @ show_nat (unat (Seq r)) @ '': '') e)
      | None \<Rightarrow>
          (let id = payloadGet (Payload r) ''job_id'' in
           replay (i + 1) (l\<lparr>lseq := Seq r, lprev := fst (hex_decode (EntryHash r)),
             lseen := (if id \<noteq> [] then insert id (lseen l) else lseen l)\<rparr>) rs))"

definition emptyLog :: Log where
  "emptyLog = \<lparr>lseq = 0, lprev = genesisPrev, lseen = {}, lopen = True\<rparr>"

definition Open :: "Disk \<Rightarrow> goerr option \<Rightarrow> Log res" where
  "Open d openErr =
     (case readRecords d of
        Inl e \<Rightarrow> Inl (wrapf ''audit: replay: '' e)
      | Inr existing \<Rightarrow>
          (case replay 0 emptyLog existing of
             Inl e \<Rightarrow> Inl e
           | Inr l \<Rightarrow>
               (case checkAnchor d existing None of
                  Some e \<Rightarrow> Inl (e\<lparr>emsg := emsg e @ '' (refusing to append to a truncated log)''\<rparr>)
                | None \<Rightarrow>
                    (case openErr of Some e \<Rightarrow> Inl (wrapf ''audit: open: '' e) | None \<Rightarrow> Inr l))))"

section \<open>Appending\<close>

text \<open>What an unterminated last line and the bytes written after it read as together: a blank prefix
  leaves the record readable, anything else is no JSON value any more.\<close>

definition glue :: "DiskLine option \<Rightarrow> DiskLine \<Rightarrow> DiskLine" where
  "glue t l =
     (case t of None \<Rightarrow> l
      | Some u \<Rightarrow> \<lparr>content = (if content u = CBlank then content l else CBad), lineSize = lineSize u + lineSize l\<rparr>)"

definition writeLine :: "Disk \<Rightarrow> DiskLine \<Rightarrow> WriteOutcome \<Rightarrow> Disk" where
  "writeLine d l w =
     (case w of
        WriteOK \<Rightarrow> d\<lparr>dlines := dlines d @ [glue (dtail d) l], dtail := None\<rparr>
      | WroteNothing e \<Rightarrow> d
      | WrotePart e \<Rightarrow> d\<lparr>dtail := Some (glue (dtail d) \<lparr>content = CBad, lineSize = lineSize l\<rparr>)\<rparr>
      | WroteUnterminated e \<Rightarrow> d\<lparr>dtail := Some (glue (dtail d) l)\<rparr>)"

definition writeErr :: "WriteOutcome \<Rightarrow> goerr option" where
  "writeErr w =
     (case w of WriteOK \<Rightarrow> None | WroteNothing e \<Rightarrow> Some e | WrotePart e \<Rightarrow> Some e | WroteUnterminated e \<Rightarrow> Some e)"

text \<open>The sidecar is replaced by a rename, so it holds the old head or the new one.\<close>

definition writeHead :: "Disk \<Rightarrow> Head \<Rightarrow> goerr option \<Rightarrow> Disk \<times> goerr option" where
  "writeHead d h f = (case f of Some e \<Rightarrow> (d, Some e) | None \<Rightarrow> (d\<lparr>dhead := HeadIs h\<rparr>, None))"

definition appendRecord :: "Log \<Rightarrow> string \<Rightarrow> (string \<times> string) list \<Rightarrow> string \<Rightarrow> AuditRecord" where
  "appendRecord l ts payload sig =
     \<lparr>Seq = lseq l + 1, Timestamp = ts, PrevHash = hex_encode (lprev l), Payload = payload,
      EntryHash = hex_encode (entryHash (lseq l + 1) ts (lprev l) payload), Signature = sig\<rparr>"

definition signEntry :: "Signer option \<Rightarrow> string \<Rightarrow> string res" where
  "signEntry signer entry =
     (case signer of None \<Rightarrow> Inr []
      | Some sign \<Rightarrow> (case sign entry of Inl e \<Rightarrow> Inl e | Inr sig \<Rightarrow> Inr (hex_encode sig)))"

definition appendLocked ::
  "Signer option \<Rightarrow> IOs \<Rightarrow> Log \<Rightarrow> Disk \<Rightarrow> (string \<times> string) list \<Rightarrow> Log \<times> Disk \<times> goerr option" where
  "appendLocked signer io l d payload =
     (let seq = lseq l + 1;
          entry = entryHash seq (now io) (lprev l) payload
      in case signEntry signer entry of
          Inl e \<Rightarrow> (l, d, Some (wrapf ''audit: sign: '' e))
        | Inr sig \<Rightarrow>
            (let rec = appendRecord l (now io) payload sig;
                 w = (if lopen l then ioWrite io else WroteNothing (errorf ''file already closed''));
                 d1 = writeLine d (lineOf rec) w
             in case writeErr w of
                 Some e \<Rightarrow> (l, d1, Some (wrapf ''audit: append: '' e))
               | None \<Rightarrow>
                   (case writeHead d1 \<lparr>hSeq = seq, hEntryHash = EntryHash rec\<rparr> (ioHead io) of
                      (d2, Some e) \<Rightarrow> (l, d2, Some (wrapf ''audit: write head anchor: '' e))
                    | (d2, None) \<Rightarrow>
                        (let id = payloadGet payload ''job_id'' in
                         (l\<lparr>lseq := seq, lprev := entry,
                            lseen := (if id \<noteq> [] then insert id (lseen l) else lseen l)\<rparr>, d2, None)))))"

definition Record :: "Signer option \<Rightarrow> IOs \<Rightarrow> Log \<Rightarrow> Disk \<Rightarrow> ResultEnvelope \<Rightarrow> Log \<times> Disk \<times> goerr option" where
  "Record signer io l d env =
     (let payload = payloadFor env in
      if payloadGet payload ''job_id'' \<in> lseen l then (l, d, None)
      else appendLocked signer io l d payload)"

definition eventPayload :: "string \<Rightarrow> (string \<times> string) list \<Rightarrow> (string \<times> string) list" where
  "eventPayload kind flds = fold (\<lambda>(k, v) p. AList.update k v p) flds [(''event'', kind)]"

definition AppendEvent ::
  "Signer option \<Rightarrow> IOs \<Rightarrow> Log \<Rightarrow> Disk \<Rightarrow> string \<Rightarrow> (string \<times> string) list \<Rightarrow> Log \<times> Disk \<times> goerr option" where
  "AppendEvent signer io l d kind flds = appendLocked signer io l d (eventPayload kind flds)"

definition LogClose :: "Log \<Rightarrow> Log" where
  "LogClose l = l\<lparr>lopen := False\<rparr>"

section \<open>What a log must satisfy\<close>

text \<open>The hash the chain ends in when every record of it verifies.\<close>

fun chainFrom :: "nat \<Rightarrow> string \<Rightarrow> AuditRecord list \<Rightarrow> string option" where
  "chainFrom i prev [] = Some prev"
| "chainFrom i prev (r # rs) =
     (if verifyRecord r (word_of_nat (i + 1)) prev = None
      then chainFrom (i + 1) (fst (hex_decode (EntryHash r))) rs else None)"

definition recordIDs :: "AuditRecord list \<Rightarrow> string set" where
  "recordIDs rs = {id \<in> set (map (\<lambda>r. payloadGet (Payload r) ''job_id'') rs). id \<noteq> []}"

definition emptyDisk :: Disk where
  "emptyDisk = \<lparr>dlines = [], dtail = None, dhead = HeadMissing, dreadErr = None\<rparr>"

text \<open>The in-memory state is what the file says it is.\<close>

definition consistent :: "Log \<Rightarrow> Disk \<Rightarrow> AuditRecord list \<Rightarrow> bool" where
  "consistent l d rs \<longleftrightarrow>
     readRecords d = Inr rs \<and> dtail d = None \<and> length rs < 2 ^ 64
     \<and> chainFrom 0 genesisPrev rs = Some (lprev l) \<and> lseq l = word_of_nat (length rs)
     \<and> lseen l = recordIDs rs \<and> checkAnchor d rs None = None \<and> lopen l"

text \<open>What an append needs beyond a working disk: text that survives the JSON round trip, a line the
  scanner accepts, and a sequence number left.\<close>

definition appendable :: "Signer option \<Rightarrow> string \<Rightarrow> Log \<Rightarrow> (string \<times> string) list \<Rightarrow> bool" where
  "appendable signer ts l payload \<longleftrightarrow>
     valid_utf8 ts \<and> valid_kvs payload \<and> distinct (map fst payload) \<and> lseq l \<noteq> - 1
     \<and> (case signEntry signer (entryHash (lseq l + 1) ts (lprev l) payload) of
          Inl e \<Rightarrow> True
        | Inr sig \<Rightarrow> length (marshalRecord (appendRecord l ts payload sig)) < maxLine)"

text \<open>A process that appends, may crash between the write and the head update, and restarts. Writes
  either succeed or leave nothing.\<close>

datatype AuditOp = OpRecord ResultEnvelope | OpEvent string "(string \<times> string) list"

fun opPayload :: "AuditOp \<Rightarrow> (string \<times> string) list" where
  "opPayload (OpRecord env) = payloadFor env"
| "opPayload (OpEvent kind flds) = eventPayload kind flds"

fun runOp :: "Signer option \<Rightarrow> IOs \<Rightarrow> Log \<Rightarrow> Disk \<Rightarrow> AuditOp \<Rightarrow> Log \<times> Disk \<times> goerr option" where
  "runOp signer io l d (OpRecord env) = Record signer io l d env"
| "runOp signer io l d (OpEvent kind flds) = AppendEvent signer io l d kind flds"

inductive auditReach :: "Signer option \<Rightarrow> Log \<Rightarrow> Disk \<Rightarrow> bool" for signer where
  init: "auditReach signer emptyLog emptyDisk"
| step: "auditReach signer l d \<Longrightarrow> appendable signer (now io) l (opPayload op) \<Longrightarrow>
    ioWrite io = WriteOK \<or> ioWrite io = WroteNothing e \<Longrightarrow> ioHead io = None \<Longrightarrow>
    runOp signer io l d op = (l', d', r) \<Longrightarrow> auditReach signer l' d'"
| crash: "auditReach signer l d \<Longrightarrow> appendable signer (now io) l (opPayload op) \<Longrightarrow>
    ioWrite io = WriteOK \<Longrightarrow> ioHead io = Some e \<Longrightarrow> runOp signer io l d op = (l1, d', r) \<Longrightarrow>
    Open d' None = Inr l' \<Longrightarrow> auditReach signer l' d'"
| restart: "auditReach signer l d \<Longrightarrow> Open d None = Inr l' \<Longrightarrow> auditReach signer l' d"

definition isVerdictFor :: "string \<Rightarrow> AuditRecord \<Rightarrow> bool" where
  "isVerdictFor j r \<longleftrightarrow> map_of (Payload r) ''event'' = None \<and> payloadGet (Payload r) ''job_id'' = j"

definition oncePerJob :: "AuditRecord list \<Rightarrow> bool" where
  "oncePerJob rs \<longleftrightarrow> (\<forall>id. id \<noteq> [] \<longrightarrow> length (filter (isVerdictFor id) rs) \<le> 1)"

text \<open>The byte strings a verification hashes, in order, and the agreement of two records on all that is
  hashed.\<close>

fun preimages :: "string \<Rightarrow> AuditRecord list \<Rightarrow> string list" where
  "preimages prev [] = []"
| "preimages prev (r # rs) =
     entryPreimage (Seq r) (Timestamp r) prev (Payload r) # preimages (fst (hex_decode (EntryHash r))) rs"

definition sameRecord :: "AuditRecord \<Rightarrow> AuditRecord \<Rightarrow> bool" where
  "sameRecord r q \<longleftrightarrow> Seq r = Seq q \<and> Timestamp r = Timestamp q \<and> PrevHash r = PrevHash q
     \<and> map_of (Payload r) = map_of (Payload q) \<and> EntryHash r = EntryHash q"

definition collision :: "AuditRecord list \<Rightarrow> AuditRecord list \<Rightarrow> bool" where
  "collision rs qs \<longleftrightarrow> (\<exists>m \<in> set (preimages genesisPrev rs). \<exists>m' \<in> set (preimages genesisPrev qs).
     m \<noteq> m' \<and> sha256 m = sha256 m')"

text \<open>Records as the decoder returns them: valid UTF-8, and of a size a machine can hold.\<close>

definition decoded :: "AuditRecord list \<Rightarrow> bool" where
  "decoded rs \<longleftrightarrow> length rs < 2 ^ 64 \<and> list_all (\<lambda>r. valid_kvs (Payload r)
     \<and> length (Timestamp r) < 2 ^ 64 \<and> length (canonicalJSON (Payload r)) < 2 ^ 64) rs"

text \<open>A boot event appended to an empty log, the concrete run of the examples below.\<close>

definition demoPayload :: "(string \<times> string) list" where
  "demoPayload = [(''event'', ''boot'')]"

definition demoIO :: IOs where
  "demoIO = \<lparr>now = ''2025-01-01T00:00:00Z'', ioWrite = WriteOK, ioHead = None\<rparr>"

definition badFields :: "(string \<times> string) list" where
  "badFields = [(''job_id'', ''j1''), (''asset_id'', ''caf'' @ [CHR 0xE9])]"

definition badPayload :: "(string \<times> string) list" where
  "badPayload = eventPayload ''empty_video_skip_override'' badFields"

definition demoRun :: "Log \<times> Disk \<times> goerr option" where
  "demoRun = runOp None demoIO emptyLog emptyDisk (OpEvent ''boot'' [])"

definition demoLog :: Log where "demoLog = fst demoRun"

definition demoDisk :: Disk where "demoDisk = fst (snd demoRun)"

section \<open>Facts\<close>

lemma ascii_valid_utf8: "\<forall>c \<in> set s. (of_char c :: nat) < 0x80 \<Longrightarrow> valid_utf8 s"
  by (induction s) auto

lemma valid_utf8_hex [simp]: "valid_utf8 (hex_encode s)"
  by (rule ascii_valid_utf8) (blast intro: hex_encode_ascii)

lemma coerceUTF8_valid: "valid_utf8 s \<Longrightarrow> coerceUTF8 s = s"
proof (induction s rule: valid_utf8.induct)
  case (2 b s)
  have "take n (b # s) @ drop (n - 1) s = b # s" if "n \<noteq> 0" for n
    using that by (metis append_take_drop_id drop_Cons')
  then show ?case using 2 by auto
qed simp

lemma coercePayload_fold:
  "valid_kvs kvs \<Longrightarrow> fold (\<lambda>(k, v) m. AList.update (coerceUTF8 k) (coerceUTF8 v) m) kvs m
     = fold (\<lambda>(k, v) m. AList.update k v m) kvs m"
  by (induction kvs arbitrary: m) (auto simp: valid_kvs_def coerceUTF8_valid)

lemma fold_update_keys: "distinct (map fst m) \<Longrightarrow> distinct (map fst (fold (\<lambda>(k, v) m. AList.update k v m) kvs m))"
  by (induction kvs arbitrary: m) (auto simp: distinct_update)

lemma map_of_fold_update:
  "map_of (fold (\<lambda>(k, v) m. AList.update k v m) kvs m) = map_of m ++ map_of (rev kvs)"
  by (induction kvs arbitrary: m) (auto simp: update_conv' map_add_def fun_eq_iff split: option.splits)

lemma distinct_sortedKVs: "distinct (map fst p) \<Longrightarrow> distinct (map fst (sortedKVs p))"
  by (simp add: sortedKVs_def comp_def)

lemma coercePayload_valid:
  assumes "valid_kvs p" "distinct (map fst p)"
  shows "map_of (coercePayload p) = map_of p" "distinct (map fst (coercePayload p))"
    "canonicalJSON (coercePayload p) = canonicalJSON p"
proof -
  have p: "coercePayload p = fold (\<lambda>(k, v) m. AList.update k v m) (sortedKVs p) []"
    by (simp add: coercePayload_def coercePayload_fold valid_sortedKVs assms(1))
  show m: "map_of (coercePayload p) = map_of p"
    using distinct_sortedKVs [OF assms(2)]
    by (simp add: p map_of_fold_update map_of_rev_distinct map_of_sortedKVs)
  show d: "distinct (map fst (coercePayload p))" by (simp add: p fold_update_keys)
  show "canonicalJSON (coercePayload p) = canonicalJSON p"
    by (rule canonicalJSON_order) (fact d assms(2) m)+
qed

lemma scanLines_append:
  "scanLines (xs @ ys) n out =
     (case scanLines xs n out of Inl e \<Rightarrow> Inl e | Inr out' \<Rightarrow> scanLines ys (n + length xs) out')"
  by (induction xs n out rule: scanLines.induct) (auto split: Content.splits sum.splits)

lemma chainFrom_append:
  "chainFrom i prev (xs @ ys) =
     (case chainFrom i prev xs of None \<Rightarrow> None | Some p \<Rightarrow> chainFrom (i + length xs) p ys)"
  by (induction i prev xs rule: chainFrom.induct) (auto split: option.splits)

lemma verifyRecord_None:
  "verifyRecord r n prev = None \<longleftrightarrow>
     Seq r = n \<and> PrevHash r = hex_encode prev
     \<and> EntryHash r = hex_encode (entryHash (Seq r) (Timestamp r) prev (Payload r))"
  by (auto simp: verifyRecord_def hashHexLen_def entryHash_def dest: arg_cong [where f = length])

lemma verifyRecord_decode:
  "verifyRecord r n prev = None \<Longrightarrow>
     fst (hex_decode (EntryHash r)) = entryHash n (Timestamp r) prev (Payload r)"
  by (metis fst_conv hex_decode_encode verifyRecord_None)

lemma chainFrom_length:
  "chainFrom i prev rs = Some p \<Longrightarrow> length prev = 32 \<Longrightarrow> length p = 32"
proof (induction i prev rs rule: chainFrom.induct)
  case (2 i prev r rs)
  then show ?case by (auto simp: verifyRecord_decode entryHash_def split: if_splits)
qed simp

lemma length_genesisPrev [simp]: "length genesisPrev = 32"
  by (simp add: genesisPrev_def)

lemma verifyLoop_chain: "verifyLoop None i prev rs = None \<longleftrightarrow> chainFrom i prev rs \<noteq> None"
  by (induction i prev rs rule: chainFrom.induct) (auto split: option.splits)

lemma verifyLoop_chain_signed: "verifyLoop v i prev rs = None \<Longrightarrow> chainFrom i prev rs \<noteq> None"
  by (induction v i prev rs rule: verifyLoop.induct) (auto split: option.splits)

lemma recordIDs_simps [simp]:
  "recordIDs [] = {}"
  "recordIDs (r # rs) = (let id = payloadGet (Payload r) ''job_id'' in
     (if id \<noteq> [] then insert id (recordIDs rs) else recordIDs rs))"
  by (auto simp: recordIDs_def Let_def)

lemma recordIDs_append [simp]: "recordIDs (xs @ ys) = recordIDs xs \<union> recordIDs ys"
  by (auto simp: recordIDs_def)

lemma replay_chain:
  assumes "chainFrom i (lprev l) rs = Some p"
  shows "replay i l rs = Inr (l\<lparr>lseq := (if rs = [] then lseq l else word_of_nat (i + length rs)), lprev := p,
    lseen := lseen l \<union> recordIDs rs\<rparr>)"
  using assms
proof (induction rs arbitrary: i l)
  case (Cons r rs)
  from Cons.prems have v: "verifyRecord r (word_of_nat (i + 1)) (lprev l) = None"
    and c: "chainFrom (i + 1) (fst (hex_decode (EntryHash r))) rs = Some p"
    by (auto split: if_splits)
  from v have "Seq r = word_of_nat (i + 1)" by (simp add: verifyRecord_None)
  with v c show ?case
    using Cons.IH [of "i + 1" "l\<lparr>lseq := Seq r, lprev := fst (hex_decode (EntryHash r)),
      lseen := (if payloadGet (Payload r) ''job_id'' \<noteq> []
        then insert (payloadGet (Payload r) ''job_id'') (lseen l) else lseen l)\<rparr>"]
    by (auto simp: Let_def)
qed simp

lemma replay_chain_Inl:
  "chainFrom i (lprev l) rs = None \<Longrightarrow> \<exists>e. replay i l rs = Inl e"
proof (induction rs arbitrary: i l)
  case (Cons r rs)
  then show ?case
    by (cases "verifyRecord r (word_of_nat (i + 1)) (lprev l)") (auto simp: Let_def)
qed simp

text \<open>Opening a consistent file gives back exactly the state the file stands for, and its verification
  succeeds on every record.\<close>

lemma consistent_Open: "consistent l d rs \<Longrightarrow> Open d None = Inr l"
proof -
  assume c: "consistent l d rs"
  have "replay 0 emptyLog rs = Inr l"
    using c replay_chain [of 0 emptyLog rs "lprev l"]
    by (cases l) (auto simp: consistent_def emptyLog_def)
  with c show ?thesis by (simp add: Open_def consistent_def)
qed

lemma consistent_Verify: "consistent l d rs \<Longrightarrow> Verify d = (length rs, None)"
  using verifyLoop_chain [of 0 genesisPrev rs]
  by (auto simp: consistent_def Verify_def VerifyWith_def)

lemma consistent_empty: "consistent emptyLog emptyDisk []"
  by (simp add: consistent_def emptyDisk_def emptyLog_def readRecords_def checkAnchor_def readHead_def)

lemma reread_valid:
  assumes "valid_utf8 ts" "valid_kvs payload" "distinct (map fst payload)" "sig = [] \<or> (\<exists>b. sig = hex_encode b)"
  shows "reread (appendRecord l ts payload sig) = (appendRecord l ts payload sig)\<lparr>Payload := coercePayload payload\<rparr>"
proof -
  have "coerceUTF8 sig = sig" using assms(4) by (auto simp: coerceUTF8_valid)
  then show ?thesis using assms(1) by (simp add: reread_def appendRecord_def coerceUTF8_valid)
qed

lemma signEntry_hex: "signEntry signer x = Inr sig \<Longrightarrow> sig = [] \<or> (\<exists>b. sig = hex_encode b)"
  by (auto simp: signEntry_def split: option.splits sum.splits)

lemma payloadGet_coerce:
  "valid_kvs p \<Longrightarrow> distinct (map fst p) \<Longrightarrow> payloadGet (coercePayload p) k = payloadGet p k"
  by (simp add: payloadGet_def coercePayload_valid)

lemma consistent_seq:
  assumes "consistent l d rs" "lseq l \<noteq> - 1"
  shows "length rs + 1 < 2 ^ 64" "lseq l + 1 = word_of_nat (length rs + 1)" "unat (lseq l + 1) = length rs + 1"
proof -
  have n: "length rs < 2 ^ 64" and s: "lseq l = word_of_nat (length rs)"
    using assms(1) by (auto simp: consistent_def)
  have "length rs \<noteq> 18446744073709551615"
  proof
    assume "length rs = 18446744073709551615"
    then have "lseq l = - 1" by (simp add: s)
    then show False using assms(2) by simp
  qed
  then show b: "length rs + 1 < 2 ^ 64" using n by simp
  show "lseq l + 1 = word_of_nat (length rs + 1)" by (simp add: s)
  then show "unat (lseq l + 1) = length rs + 1"
    using b by (simp add: unat_of_nat del: of_nat_add of_nat_Suc)
qed

lemma append_reads:
  assumes c: "consistent l d rs" and a: "appendable signer ts l payload"
    and sig: "signEntry signer (entryHash (lseq l + 1) ts (lprev l) payload) = Inr sig"
  defines "r \<equiv> reread (appendRecord l ts payload sig)"
  defines "d1 \<equiv> writeLine d (lineOf (appendRecord l ts payload sig)) WriteOK"
  shows "readRecords d1 = Inr (rs @ [r])"
    and "chainFrom 0 genesisPrev (rs @ [r]) = Some (entryHash (lseq l + 1) ts (lprev l) payload)"
    and "recordIDs (rs @ [r]) = (let id = payloadGet payload ''job_id'' in
      if id \<noteq> [] then insert id (lseen l) else lseen l)"
    and "EntryHash r = hex_encode (entryHash (lseq l + 1) ts (lprev l) payload)"
    and "dtail d1 = None" and "dhead d1 = dhead d"
proof -
  have valid: "valid_utf8 ts" "valid_kvs payload" "distinct (map fst payload)" "lseq l \<noteq> - 1"
    and fits: "length (marshalRecord (appendRecord l ts payload sig)) < maxLine"
    using a sig by (auto simp: appendable_def)
  have r: "r = (appendRecord l ts payload sig)\<lparr>Payload := coercePayload payload\<rparr>"
    unfolding r_def by (rule reread_valid [OF valid(1-3) signEntry_hex [OF sig]])
  show "readRecords d1 = Inr (rs @ [r])"
    using c fits by (auto simp: consistent_def readRecords_def d1_def writeLine_def glue_def lineOf_def
      r_def scanLines_append split: option.splits sum.splits)
  show e: "EntryHash r = hex_encode (entryHash (lseq l + 1) ts (lprev l) payload)"
    by (simp add: r appendRecord_def)
  have h: "entryHash s t q (coercePayload payload) = entryHash s t q payload" for s t q
    by (simp add: entryHash_def entryPreimage_def coercePayload_valid valid)
  have "verifyRecord r (word_of_nat (length rs + 1)) (lprev l) = None"
    unfolding consistent_seq(2) [OF c valid(4), symmetric] verifyRecord_None
    by (simp add: r appendRecord_def h)
  then show "chainFrom 0 genesisPrev (rs @ [r]) = Some (entryHash (lseq l + 1) ts (lprev l) payload)"
    using c by (simp add: consistent_def chainFrom_append e)
  show "recordIDs (rs @ [r]) = (let id = payloadGet payload ''job_id'' in
      if id \<noteq> [] then insert id (lseen l) else lseen l)"
    using c by (simp add: consistent_def r payloadGet_coerce valid Let_def)
  show "dtail d1 = None" "dhead d1 = dhead d" by (simp_all add: d1_def writeLine_def)
qed

lemma checkAnchor_cong: "dhead d = dhead d' \<Longrightarrow> checkAnchor d rs h = checkAnchor d' rs h"
proof -
  assume "dhead d = dhead d'"
  then have "readHead d = readHead d'" by (simp add: readHead_def)
  then show "checkAnchor d rs h = checkAnchor d' rs h" unfolding checkAnchor_def by (cases h) simp_all
qed

text \<open>A head that matched the file still matches after the file grew.\<close>

lemma checkAnchor_grow:
  assumes "checkAnchor d rs None = None" "length rs + 1 < 2 ^ 64"
  shows "checkAnchor d (rs @ [r]) None = None"
proof (cases "dhead d")
  case (HeadIs h)
  show ?thesis
  proof (cases "hSeq h = 0")
    case False
    let ?n = "word_of_nat (length rs) :: 64 word"
    have u: "unat ?n = length rs" "unat (word_of_nat (length rs + 1) :: 64 word) = length rs + 1"
      using assms(2) by (simp_all add: unat_of_nat del: of_nat_add of_nat_Suc)
    have le: "\<not> ?n < hSeq h" and e: "EntryHash (rs ! unat (hSeq h - 1)) = hEntryHash h"
      using assms(1) False HeadIs by (auto simp: checkAnchor_def readHead_def split: if_splits)
    have "unat (hSeq h - 1) = unat (hSeq h) - 1"
      using False by (simp add: unat_minus_one)
    moreover have "unat (hSeq h) \<le> length rs" using le u(1) by (simp add: word_less_nat_alt)
    moreover have "unat (hSeq h) \<noteq> 0" using False by (simp add: unat_eq_0)
    ultimately have i: "unat (hSeq h - 1) < length rs" and
      "\<not> (word_of_nat (length rs + 1) :: 64 word) < hSeq h"
      using u(2) by (simp_all add: word_less_nat_alt del: of_nat_add of_nat_Suc)
    then show ?thesis using e HeadIs by (simp add: checkAnchor_def readHead_def nth_append)
  qed (use HeadIs in \<open>simp add: checkAnchor_def readHead_def\<close>)
qed (use assms(1) in \<open>auto simp: checkAnchor_def readHead_def\<close>)

lemma checkAnchor_new_head:
  assumes "length rs + 1 < 2 ^ 64" "hSeq h = word_of_nat (length rs + 1)" "hEntryHash h = EntryHash r" "dhead d = HeadIs h"
  shows "checkAnchor d (rs @ [r]) None = None"
proof -
  have u: "unat (hSeq h) = length rs + 1"
    using assms(1,2) by (simp add: unat_of_nat del: of_nat_add of_nat_Suc)
  then have "hSeq h \<noteq> 0" by auto
  then have "unat (hSeq h - 1) = length rs" using u by (simp add: unat_minus_one)
  then show ?thesis using assms by (simp add: checkAnchor_def readHead_def)
qed

text \<open>A successful append keeps the state and the file consistent; one that fails before anything is
  written changes neither.\<close>

lemma appendLocked_OK:
  assumes c: "consistent l d rs" and a: "appendable signer (now io) l payload"
    and sig: "signEntry signer (entryHash (lseq l + 1) (now io) (lprev l) payload) = Inr sig"
    and io: "ioWrite io = WriteOK"
  defines "r \<equiv> reread (appendRecord l (now io) payload sig)"
  shows "ioHead io = None \<Longrightarrow> \<exists>l' d'. appendLocked signer io l d payload = (l', d', None) \<and> consistent l' d' (rs @ [r])"
    and "ioHead io = Some e \<Longrightarrow> \<exists>d' e' l'. appendLocked signer io l d payload = (l, d', Some e')
      \<and> consistent l' d' (rs @ [r])"
proof -
  let ?rec = "appendRecord l (now io) payload sig"
  let ?d1 = "writeLine d (lineOf ?rec) WriteOK"
  let ?entry = "entryHash (lseq l + 1) (now io) (lprev l) payload"
  let ?l' = "l\<lparr>lseq := lseq l + 1, lprev := ?entry,
    lseen := (let id = payloadGet payload ''job_id'' in if id \<noteq> [] then insert id (lseen l) else lseen l)\<rparr>"
  let ?d2 = "?d1\<lparr>dhead := HeadIs \<lparr>hSeq = lseq l + 1, hEntryHash = EntryHash ?rec\<rparr>\<rparr>"
  note ar = append_reads [OF c a sig, folded r_def]
  have seq: "lseq l \<noteq> - 1" using a by (simp add: appendable_def)
  note n = consistent_seq [OF c seq]
  have op: "lopen l" using c by (simp add: consistent_def)
  have e: "EntryHash ?rec = EntryHash r" using ar(4) by (simp add: appendRecord_def)
  have rd: "readRecords ?d2 = readRecords ?d1" by (simp add: readRecords_def split: option.splits)
  have base: "consistent ?l' x (rs @ [r])"
    if "readRecords x = readRecords ?d1" "dtail x = None" "checkAnchor x (rs @ [r]) None = None" for x
    using that ar op n by (simp add: consistent_def add.commute)
  have "checkAnchor ?d2 (rs @ [r]) None = None"
    using n e by (intro checkAnchor_new_head [where h = "\<lparr>hSeq = lseq l + 1, hEntryHash = EntryHash ?rec\<rparr>"]) simp_all
  then have "consistent ?l' ?d2 (rs @ [r])" using ar(5) rd by (intro base) simp_all
  moreover have "appendLocked signer io l d payload = (?l', ?d2, None)" if "ioHead io = None"
    using that op io sig by (simp add: appendLocked_def Let_def writeErr_def writeHead_def appendRecord_def)
  ultimately show "ioHead io = None \<Longrightarrow> \<exists>l' d'. appendLocked signer io l d payload = (l', d', None) \<and> consistent l' d' (rs @ [r])"
    by blast
  have "checkAnchor ?d1 (rs @ [r]) None = None"
    using checkAnchor_grow [OF _ n(1), of d] c checkAnchor_cong [OF ar(6)] by (simp add: consistent_def)
  then have "consistent ?l' ?d1 (rs @ [r])" using ar(5) by (intro base) simp_all
  moreover have "\<exists>e'. appendLocked signer io l d payload = (l, ?d1, Some e')" if "ioHead io = Some e"
    using that op io sig by (simp add: appendLocked_def Let_def writeErr_def writeHead_def)
  ultimately show "ioHead io = Some e \<Longrightarrow> \<exists>d' e' l'. appendLocked signer io l d payload = (l, d', Some e')
      \<and> consistent l' d' (rs @ [r])" by blast
qed

lemma appendLocked_nothing:
  assumes "signEntry signer (entryHash (lseq l + 1) (now io) (lprev l) payload) = Inl e \<or> ioWrite io = WroteNothing e"
    "lopen l"
  shows "\<exists>e'. appendLocked signer io l d payload = (l, d, Some e')"
  using assms
  by (auto simp: appendLocked_def Let_def writeErr_def writeLine_def split: sum.splits)

lemma distinct_payloadFor [simp]: "distinct (map fst (payloadFor env))"
  by (simp add: payloadFor_def)

lemma payloadFor_no_event [simp]: "map_of (payloadFor env) ''event'' = None"
  by (simp add: payloadFor_def)

lemma eventPayload_event: "map_of (eventPayload kind flds) ''event'' \<noteq> None"
  unfolding eventPayload_def map_of_fold_update by (auto simp: map_add_def split: option.splits)

lemma filter_one:
  "length (filter P rs) \<le> 1 \<Longrightarrow> (P r \<Longrightarrow> filter P rs = []) \<Longrightarrow> length (filter P (rs @ [r])) \<le> 1"
  by simp

lemma oncePerJob_grow:
  assumes "oncePerJob rs" "map_of (Payload r) ''event'' = None \<Longrightarrow> payloadGet (Payload r) ''job_id'' \<notin> recordIDs rs"
  shows "oncePerJob (rs @ [r])"
  unfolding oncePerJob_def
proof (intro allI impI)
  fix id :: string
  assume id: "id \<noteq> []"
  have "filter (isVerdictFor id) rs = []" if "isVerdictFor id r"
    using that assms(2) id by (auto simp: isVerdictFor_def recordIDs_def filter_empty_conv intro: rev_image_eqI)
  then show "length (filter (isVerdictFor id) (rs @ [r])) \<le> 1"
    using assms(1) id by (intro filter_one) (auto simp: oncePerJob_def)
qed

lemma runOp_cases:
  obtains "runOp signer io l d op = (l, d, None)"
  | "runOp signer io l d op = appendLocked signer io l d (opPayload op)"
    "map_of (opPayload op) ''event'' = None \<Longrightarrow> payloadGet (opPayload op) ''job_id'' \<notin> lseen l"
proof (cases op)
  case (OpRecord env)
  then show thesis
    using that by (cases "payloadGet (payloadFor env) ''job_id'' \<in> lseen l") (simp_all add: Record_def Let_def)
next
  case (OpEvent kind flds)
  then show thesis using that(2) by (simp add: AppendEvent_def eventPayload_event)
qed

lemma appendRecord_Payload [simp]: "Payload (appendRecord l ts p sig) = p"
  by (simp add: appendRecord_def)

lemma reread_Payload [simp]: "Payload (reread r) = coercePayload (Payload r)"
  by (simp add: reread_def)

text \<open>The invariant of a running log, kept by every step.\<close>

lemma runOp_invariant:
  assumes c: "consistent l d rs" "oncePerJob rs" and a: "appendable signer (now io) l (opPayload op)"
    and w: "ioWrite io = WriteOK \<or> ioWrite io = WroteNothing e"
    and run: "runOp signer io l d op = (l', d', x)"
  shows "\<exists>l'' rs'. consistent l'' d' rs' \<and> oncePerJob rs' \<and> (ioHead io = None \<longrightarrow> l'' = l')"
proof (cases rule: runOp_cases [of signer io l d op])
  case 1
  then show ?thesis using c run by auto
next
  case 2
  let ?p = "opPayload op"
  have valid: "valid_kvs ?p" "distinct (map fst ?p)" using a by (auto simp: appendable_def)
  show ?thesis
  proof (cases "\<exists>sig. signEntry signer (entryHash (lseq l + 1) (now io) (lprev l) ?p) = Inr sig \<and> ioWrite io = WriteOK")
    case True
    then obtain sig where sig: "signEntry signer (entryHash (lseq l + 1) (now io) (lprev l) ?p) = Inr sig"
      and io: "ioWrite io = WriteOK" by blast
    have once: "oncePerJob (rs @ [reread (appendRecord l (now io) ?p sig)])"
      using c 2(2) by (intro oncePerJob_grow) (simp_all add: coercePayload_valid payloadGet_coerce valid consistent_def)
    show ?thesis
      using appendLocked_OK [OF c(1) a sig io] once run 2(1) by (cases "ioHead io") fastforce+
  next
    case False
    then have "\<exists>e'. appendLocked signer io l d ?p = (l, d, Some e')"
      using appendLocked_nothing [of signer l io ?p] w c(1)
      by (cases "signEntry signer (entryHash (lseq l + 1) (now io) (lprev l) ?p)") (auto simp: consistent_def)
    then show ?thesis using c run 2(1) by auto
  qed
qed

lemma auditReach_invariant: "auditReach signer l d \<Longrightarrow> \<exists>rs. consistent l d rs \<and> oncePerJob rs"
proof (induction rule: auditReach.induct)
  case init
  then show ?case using consistent_empty by (auto simp: oncePerJob_def)
next
  case (step l d io op e l' d' r)
  then obtain rs where "consistent l d rs" "oncePerJob rs" by blast
  from runOp_invariant [OF this step(2,3,5)] show ?case using step(4) by auto
next
  case (crash l d io op e l1 d' r l')
  then obtain rs where "consistent l d rs" "oncePerJob rs" by blast
  from runOp_invariant [OF this crash(2) disjI1 [OF crash(3)] crash(5)]
  obtain l'' rs' where "consistent l'' d' rs'" "oncePerJob rs'" by blast
  then show ?case using crash(6) consistent_Open by fastforce
next
  case (restart l d l')
  then show ?case using consistent_Open by fastforce
qed

subsection \<open>What a hash binds\<close>

lemma word64_length_inject:
  "m < 2 ^ 64 \<Longrightarrow> n < 2 ^ 64 \<Longrightarrow> (word_of_nat m :: 64 word) = word_of_nat n \<longleftrightarrow> m = n"
  by (auto dest!: arg_cong [where f = unat] simp: unat_of_nat)

lemma writeLenPrefixed_cancel:
  assumes "writeLenPrefixed a @ x = writeLenPrefixed b @ y" "length a < 2 ^ 64" "length b < 2 ^ 64"
  shows "a = b \<and> x = y"
proof -
  have "be64 (word_of_nat (length a)) = be64 (word_of_nat (length b))" "a @ x = b @ y"
    using assms(1) by (simp_all add: writeLenPrefixed_def append_eq_append_conv)
  then show ?thesis using assms(2,3) by (simp add: word64_length_inject)
qed

lemma entryPreimage_inject:
  assumes eq: "entryPreimage s t p c = entryPreimage s' t' p' c'"
    and "length t < 2 ^ 64" "length t' < 2 ^ 64" "length p = length p'"
    "length (canonicalJSON c) < 2 ^ 64" "length (canonicalJSON c') < 2 ^ 64"
  shows "s = s' \<and> t = t' \<and> p = p' \<and> canonicalJSON c = canonicalJSON c'"
proof -
  from eq have s: "s = s'"
    and 1: "writeLenPrefixed t @ p @ writeLenPrefixed (canonicalJSON c)
      = writeLenPrefixed t' @ p' @ writeLenPrefixed (canonicalJSON c')"
    by (simp_all add: entryPreimage_def append_eq_append_conv)
  from writeLenPrefixed_cancel [OF 1 assms(2,3)] assms(4)
  have t: "t = t'" "p = p'" and 2: "writeLenPrefixed (canonicalJSON c) = writeLenPrefixed (canonicalJSON c')"
    by simp_all
  from writeLenPrefixed_cancel [of _ "[]" _ "[]"] 2 assms(5,6) have "canonicalJSON c = canonicalJSON c'" by simp
  with s t show ?thesis by simp
qed

lemma preimages_snoc:
  "chainFrom i prev xs = Some p \<Longrightarrow>
     preimages prev (xs @ [x]) = preimages prev xs @ [entryPreimage (Seq x) (Timestamp x) p (Payload x)]"
  by (induction i prev xs rule: chainFrom.induct) (auto split: if_splits)

lemma preimages_append_subset: "set (preimages prev xs) \<subseteq> set (preimages prev (xs @ ys))"
  by (induction xs arbitrary: prev) auto

lemma collision_prefix: "collision xs ys \<Longrightarrow> collision (xs @ us) (ys @ vs)"
  using preimages_append_subset unfolding collision_def by (meson subsetD)

lemma decoded_append: "decoded (xs @ ys) \<Longrightarrow> decoded xs"
  by (simp add: decoded_def)

text \<open>Two chains of the same length that end in the same hash are the same chain, or hash two different
  byte strings to one digest.\<close>

lemma chains_agree:
  assumes "chainFrom 0 genesisPrev rs = Some p" "chainFrom 0 genesisPrev qs = Some p"
    "length rs = length qs" "decoded rs" "decoded qs"
  shows "list_all2 sameRecord rs qs \<or> collision rs qs"
  using assms
proof (induction rs arbitrary: qs p rule: rev_induct)
  case (snoc r rs)
  then obtain q qs' where qs: "qs = qs' @ [q]" by (cases qs rule: rev_cases) auto
  have len: "length rs = length qs'" using snoc.prems(3) qs by simp
  obtain a where a: "chainFrom 0 genesisPrev rs = Some a"
    and r: "verifyRecord r (word_of_nat (length rs + 1)) a = None" "p = fst (hex_decode (EntryHash r))"
    using snoc.prems(1) by (auto simp: chainFrom_append split: option.splits if_splits)
  obtain b where b: "chainFrom 0 genesisPrev qs' = Some b"
    and q: "verifyRecord q (word_of_nat (length qs' + 1)) b = None" "p = fst (hex_decode (EntryHash q))"
    using snoc.prems(2) by (auto simp: qs chainFrom_append split: option.splits if_splits)
  let ?m = "entryPreimage (Seq r) (Timestamp r) a (Payload r)"
  let ?m' = "entryPreimage (Seq q) (Timestamp q) b (Payload q)"
  have hash: "sha256 ?m = sha256 ?m'"
    using r q verifyRecord_decode [OF r(1)] verifyRecord_decode [OF q(1)]
    by (simp add: verifyRecord_None entryHash_def)
  show ?case
  proof (cases "?m = ?m'")
    case True
    have dec: "decoded rs" "decoded qs'" using snoc.prems(4,5) qs decoded_append by blast+
    have "length a = length b" using chainFrom_length [OF a] chainFrom_length [OF b] by simp
    with True snoc.prems(4,5) qs
    have same: "Seq r = Seq q" "Timestamp r = Timestamp q" "a = b" "canonicalJSON (Payload r) = canonicalJSON (Payload q)"
      using entryPreimage_inject [of "Seq r" "Timestamp r" a "Payload r" "Seq q" "Timestamp q" b "Payload q"]
      by (auto simp: decoded_def)
    have "map_of (Payload r) = map_of (Payload q)"
      using canonicalJSON_determines same(4) snoc.prems(4,5) qs by (auto simp: decoded_def)
    then have "sameRecord r q" using same r(1) q(1) hash
      by (simp add: sameRecord_def verifyRecord_None entryHash_def)
    moreover have "list_all2 sameRecord rs qs' \<or> collision rs qs'"
      using snoc.IH [OF a _ len dec] b same(3) by simp
    ultimately show ?thesis using qs len collision_prefix by (auto simp: list_all2_appendI)
  next
    case False
    then show ?thesis using hash preimages_snoc [OF a, of r] preimages_snoc [OF b, of q]
      unfolding collision_def qs by (metis in_set_conv_decomp)
  qed
qed simp

lemma chainFrom_take:
  assumes "chainFrom 0 genesisPrev rs = Some p" "0 < k" "k \<le> length rs"
  shows "chainFrom 0 genesisPrev (take k rs) = Some (fst (hex_decode (EntryHash (rs ! (k - 1)))))"
proof -
  have "rs = take (k - 1) rs @ rs ! (k - 1) # drop k rs"
    using assms(2,3) by (metis One_nat_def Suc_pred id_take_nth_drop less_eq_Suc_le)
  then have "chainFrom 0 genesisPrev (take (k - 1) rs @ rs ! (k - 1) # drop k rs) = Some p"
    using assms(1) by simp
  then obtain a where "chainFrom 0 genesisPrev (take (k - 1) rs) = Some a"
    "verifyRecord (rs ! (k - 1)) (word_of_nat (length (take (k - 1) rs) + 1)) a = None"
    by (auto simp: chainFrom_append simp del: length_take split: option.splits if_splits)
  moreover have "take k rs = take (k - 1) rs @ [rs ! (k - 1)]"
    using assms(2,3) by (metis One_nat_def Suc_pred less_eq_Suc_le take_Suc_conv_app_nth)
  ultimately show ?thesis by (simp add: chainFrom_append del: length_take)
qed

subsection \<open>Sizes\<close>

lemma length_escape_ascii: "length (escape_ascii b) \<le> 6"
  by (simp add: escape_ascii_def Let_def)

lemma length_json_escape: "length (json_escape s) \<le> 6 * length s"
proof (induction s rule: json_escape.induct)
  case (2 b s)
  have "rune_len (b # s) \<noteq> 0 \<Longrightarrow> 2 \<le> rune_len (b # s) \<and> rune_len (b # s) \<le> length (b # s)"
    by (rule rune_len_bounds)
  then show ?case using 2 length_escape_ascii [of b] by auto
qed simp

lemma length_marshalString: "length (marshalString s) \<le> 36 * length s + 2"
proof -
  have "length (concat (map htmlEscape t)) \<le> 6 * length t" for t
    by (induction t) (simp_all add: htmlEscape_def)
  from this [of "json_escape s"] show ?thesis
    using length_json_escape [of s] by (simp add: marshalString_def)
qed

subsection \<open>A first append\<close>

lemma demo_appendable: "appendable None (now demoIO) emptyLog demoPayload"
proof -
  let ?e = "hex_encode (entryHash 1 (now demoIO) genesisPrev demoPayload)"
  have e: "length ?e = 64" by (simp add: entryHash_def)
  have m: "length (member k v) \<le> 36 * length k + length v + 3" for k v
    using length_marshalString [of k] by (simp add: member_def)
  let ?ms = "[(''seq'', show_nat 1), (''timestamp'', marshalString (now demoIO)),
    (''prev_hash'', marshalString (hex_encode genesisPrev)),
    (''payload'', ''{'' @ member ''event'' (marshalString ''boot'') @ ''}''), (''entry_hash'', marshalString ?e)]"
  have rec: "marshalRecord (appendRecord emptyLog (now demoIO) demoPayload [])
      = ''{'' @ Join (map (\<lambda>(k, v). member k v) ?ms) '','' @ ''}''"
    by (simp add: marshalRecord_def appendRecord_def emptyLog_def demoPayload_def sortedKVs_def)
  have v: "length (show_nat 1) = 1" "length (marshalString (now demoIO)) \<le> 722"
    "length (marshalString (hex_encode genesisPrev)) \<le> 2306" "length (marshalString ?e) \<le> 2306"
    "length (marshalString ''boot'') \<le> 146"
    using length_marshalString [of "now demoIO"] length_marshalString [of "hex_encode genesisPrev"]
      length_marshalString [of ?e] length_marshalString [of "''boot''"] e
    by (simp_all add: demoIO_def show_nat.simps)
  have "length (marshalRecord (appendRecord emptyLog (now demoIO) demoPayload [])) < maxLine"
    unfolding rec maxLine_def
    using v m [of "''seq''" "show_nat 1"] m [of "''timestamp''" "marshalString (now demoIO)"]
      m [of "''prev_hash''" "marshalString (hex_encode genesisPrev)"]
      m [of "''payload''" "''{'' @ member ''event'' (marshalString ''boot'') @ ''}''"]
      m [of "''entry_hash''" "marshalString ?e"] m [of "''event''" "marshalString ''boot''"]
    by simp
  then show ?thesis
    by (simp add: appendable_def demoIO_def demoPayload_def valid_kvs_def emptyLog_def signEntry_def)
qed

lemma demo_payload: "eventPayload ''boot'' [] = demoPayload"
  by (simp add: eventPayload_def demoPayload_def)

lemma demo_run: "demoRun = (demoLog, demoDisk, None)" "lseq demoLog = 1" "lprev demoLog = entryHash 1 (now demoIO) genesisPrev demoPayload"
  "dhead demoDisk = HeadIs \<lparr>hSeq = 1, hEntryHash = hex_encode (lprev demoLog)\<rparr>"
  by (simp_all add: demoLog_def demoDisk_def demoRun_def AppendEvent_def demo_payload appendLocked_def Let_def
      signEntry_def writeErr_def writeHead_def demoIO_def emptyLog_def appendRecord_def)

lemma demo_reach: "auditReach None demoLog demoDisk"
  using auditReach.step [OF auditReach.init, of None demoIO "OpEvent ''boot'' []" _ demoLog demoDisk None]
    demo_appendable demo_run(1)
  by (simp add: demo_payload demoRun_def demoIO_def)

lemma demo_consistent: "\<exists>rs. consistent demoLog demoDisk rs \<and> length rs = 1 \<and> decoded rs"
proof -
  have sig: "signEntry None (entryHash (lseq emptyLog + 1) (now demoIO) (lprev emptyLog) demoPayload) = Inr []"
    by (simp add: signEntry_def)
  obtain l' d' where a: "appendLocked None demoIO emptyLog emptyDisk demoPayload = (l', d', None)"
    "consistent l' d' ([] @ [reread (appendRecord emptyLog (now demoIO) demoPayload [])])"
    using appendLocked_OK(1) [OF consistent_empty demo_appendable sig] by (auto simp: demoIO_def)
  moreover have "l' = demoLog" "d' = demoDisk"
    using a(1) by (simp_all add: demoLog_def demoDisk_def demoRun_def AppendEvent_def demo_payload)
  moreover have "decoded [reread (appendRecord emptyLog (now demoIO) demoPayload [])]"
    by (simp add: decoded_def demoPayload_def coercePayload_def sortedKVs_def valid_kvs_def reread_def
        appendRecord_def demoIO_def canonicalJSON_def writeJCSString_def escape_ascii_def)
  ultimately show ?thesis by auto
qed

lemma checkAnchor_holds:
  assumes "checkAnchor d rs (Some h) = None" "hSeq h \<noteq> 0" "length rs < 2 ^ 64"
  shows "unat (hSeq h) \<le> length rs" "0 < unat (hSeq h)" "EntryHash (rs ! (unat (hSeq h) - 1)) = hEntryHash h"
proof -
  have "\<not> (word_of_nat (length rs) :: 64 word) < hSeq h"
    and e: "EntryHash (rs ! unat (hSeq h - 1)) = hEntryHash h"
    using assms(1,2) by (auto simp: checkAnchor_def split: if_splits)
  then show "unat (hSeq h) \<le> length rs" using assms(3) by (simp add: word_less_nat_alt unat_of_nat)
  show "0 < unat (hSeq h)" using assms(2) by (simp add: unat_eq_0 flip: neq0_conv)
  show "EntryHash (rs ! (unat (hSeq h) - 1)) = hEntryHash h"
    using e assms(2) by (simp add: unat_minus_one)
qed

lemma VerifyWith_OK:
  assumes "VerifyWith d opts = (n, None)" "readRecords d = Inr rs"
  obtains p where "chainFrom 0 genesisPrev rs = Some p" "checkAnchor d rs (Anchor opts) = None"
  using assms verifyLoop_chain_signed [of "oVerifier opts" 0 genesisPrev rs]
  by (fastforce simp: VerifyWith_def split: option.splits prod.splits)

lemma anchored_prefix:
  assumes "VerifyWith d \<lparr>Anchor = Some h, oVerifier = v\<rparr> = (n, None)" "readRecords d = Inr rs" "decoded rs"
    "hSeq h \<noteq> 0"
  shows "unat (hSeq h) \<le> length rs"
    "chainFrom 0 genesisPrev (take (unat (hSeq h)) rs) = Some (fst (hex_decode (hEntryHash h)))"
proof -
  obtain p where p: "chainFrom 0 genesisPrev rs = Some p" and a: "checkAnchor d rs (Some h) = None"
    using VerifyWith_OK [OF assms(1,2)] by auto
  have "length rs < 2 ^ 64" using assms(3) by (simp add: decoded_def)
  note h = checkAnchor_holds [OF a assms(4) this]
  from h(1) show "unat (hSeq h) \<le> length rs" .
  show "chainFrom 0 genesisPrev (take (unat (hSeq h)) rs) = Some (fst (hex_decode (hEntryHash h)))"
    using chainFrom_take [OF p h(2,1)] h(3) by simp
qed

lemma decoded_take: "decoded rs \<Longrightarrow> decoded (take k rs)"
  by (metis append_take_drop_id decoded_append)

lemma collision_take: "collision (take k xs) (take k ys) \<Longrightarrow> collision xs ys"
  by (metis append_take_drop_id collision_prefix)

lemma scan_write:
  assumes "readRecords d = Inr rs" "dtail d = None" "length (marshalRecord r) < maxLine"
  shows "readRecords (writeLine d (lineOf r) WriteOK) = Inr (rs @ [reread r])"
  using assms by (auto simp: readRecords_def writeLine_def glue_def lineOf_def scanLines_append
      split: option.splits sum.splits)

lemma broken_chain:
  assumes "readRecords d = Inr rs" "chainFrom 0 genesisPrev rs = None"
  shows "snd (Verify d) \<noteq> None" "\<exists>e. Open d None = Inl e"
  using verifyLoop_chain [of 0 genesisPrev rs] replay_chain_Inl [of 0 emptyLog rs] assms
  by (auto simp: Verify_def VerifyWith_def Open_def emptyLog_def split: option.splits prod.splits)

lemma appendLocked_success:
  assumes "appendLocked signer io l d payload = (l', d', None)"
  shows "\<exists>hh. dhead d' = HeadIs \<lparr>hSeq = lseq l', hEntryHash = hh\<rparr>"
  using assms by (auto simp: appendLocked_def Let_def writeHead_def split: sum.splits option.splits prod.splits)

lemma readRecords_head [simp]: "readRecords (d\<lparr>dhead := h\<rparr>) = readRecords d"
  by (simp add: readRecords_def split: option.splits)

lemma appendLocked_success_reads:
  assumes "appendLocked signer io l d p = (l', d', None)" "appendable signer (now io) l p"
    "readRecords d = Inr rs" "dtail d = None"
  shows "\<exists>sig. readRecords d' = Inr (rs @ [reread (appendRecord l (now io) p sig)])"
proof -
  let ?e = "entryHash (lseq l + 1) (now io) (lprev l) p"
  obtain sig where sig: "signEntry signer ?e = Inr sig"
    using assms(1) by (cases "signEntry signer ?e") (auto simp: appendLocked_def Let_def)
  let ?d1 = "writeLine d (lineOf (appendRecord l (now io) p sig)) WriteOK"
  have "(if lopen l then ioWrite io else WroteNothing (errorf ''file already closed'')) = WriteOK"
    using assms(1) sig by (auto simp: appendLocked_def Let_def writeErr_def split: WriteOutcome.splits if_splits)
  then have "\<exists>hh. d' = ?d1\<lparr>dhead := hh\<rparr>"
    using assms(1) sig by (auto simp: appendLocked_def Let_def writeHead_def split: option.splits)
  moreover have "length (marshalRecord (appendRecord l (now io) p sig)) < maxLine"
    using assms(2) sig by (simp add: appendable_def)
  ultimately show ?thesis using scan_write [OF assms(3,4)] by auto
qed

lemma badPayload_differs: "canonicalJSON (coercePayload badPayload) \<noteq> canonicalJSON badPayload"
  by code_simp

section \<open>Properties\<close>





text \<open>
  C7. Two files that both verify against the same head (one may be an attacker's rewrite, with its own
  signatures and any further records) agree on every record up to that head: the same sequence number,
  timestamp, payload and hashes. The only escape is a SHA-256 collision, and it is exhibited: two different
  byte strings among those the two verifications hash.
\<close>

theorem anchored_logs_agree:
  assumes "VerifyWith d \<lparr>Anchor = Some h, oVerifier = v\<rparr> = (n, None)"
    "VerifyWith d' \<lparr>Anchor = Some h, oVerifier = v'\<rparr> = (n', None)"
    "readRecords d = Inr rs" "readRecords d' = Inr qs" "decoded rs" "decoded qs"
  shows "list_all2 sameRecord (take (unat (hSeq h)) rs) (take (unat (hSeq h)) qs) \<or> collision rs qs"
proof (cases "hSeq h = 0")
  case False
  note r = anchored_prefix [OF assms(1,3,5) False] and q = anchored_prefix [OF assms(2,4,6) False]
  have "list_all2 sameRecord (take (unat (hSeq h)) rs) (take (unat (hSeq h)) qs)
      \<or> collision (take (unat (hSeq h)) rs) (take (unat (hSeq h)) qs)"
    by (rule chains_agree [OF r(2) q(2) _ decoded_take [OF assms(5)] decoded_take [OF assms(6)]])
      (simp add: r(1) q(1))
  then show ?thesis using collision_take by blast
qed simp

theorem anchored_logs_agree_witness:
  "\<exists>rs. readRecords demoDisk = Inr rs \<and>
     (list_all2 sameRecord (take (Suc 0) rs) (take (Suc 0) rs) \<or> collision rs rs)"
proof -
  obtain rs where c: "consistent demoLog demoDisk rs" and "decoded rs" using demo_consistent by blast
  let ?h = "\<lparr>hSeq = 1, hEntryHash = hex_encode (lprev demoLog)\<rparr>"
  have r: "readRecords demoDisk = Inr rs" using c by (simp add: consistent_def)
  have "checkAnchor demoDisk rs (Some ?h) = checkAnchor demoDisk rs None"
    by (simp add: checkAnchor_def readHead_def demo_run(4))
  then have "VerifyWith demoDisk \<lparr>Anchor = Some ?h, oVerifier = None\<rparr> = Verify demoDisk"
    using r by (simp add: Verify_def VerifyWith_def split: option.splits)
  then have "VerifyWith demoDisk \<lparr>Anchor = Some ?h, oVerifier = None\<rparr> = (length rs, None)"
    using consistent_Verify [OF c] by simp
  from anchored_logs_agree [OF this this r r \<open>decoded rs\<close> \<open>decoded rs\<close>] show ?thesis
    using r by auto
qed

text \<open>
  Truncation is caught: once an append has succeeded, every file that carries the same head but holds
  fewer records than the log had, however it was edited, fails verification (with any signature verifier),
  and the process refuses to open it.
\<close>

theorem truncated_log_refused:
  assumes "appendLocked signer io l d payload = (l', d', None)" "0 < lseq l'"
    "dhead d2 = dhead d'" "readRecords d2 = Inr rs2" "length rs2 < unat (lseq l')"
  shows "snd (VerifyWith d2 \<lparr>Anchor = None, oVerifier = v\<rparr>) \<noteq> None \<and> (\<exists>e. Open d2 None = Inl e)"
proof -
  obtain hh where h: "dhead d2 = HeadIs \<lparr>hSeq = lseq l', hEntryHash = hh\<rparr>"
    using appendLocked_success [OF assms(1)] assms(3) by auto
  have "length rs2 < 2 ^ 64" using assms(5) unsigned_less [of "lseq l'", where ?'a = nat] by simp
  then have "(word_of_nat (length rs2) :: 64 word) < lseq l'"
    using assms(5) by (simp add: word_less_nat_alt unat_of_nat)
  then have "checkAnchor d2 rs2 None \<noteq> None" using h assms(2) by (simp add: checkAnchor_def readHead_def)
  then show ?thesis using assms(4)
    by (auto simp: VerifyWith_def Open_def split: option.splits sum.splits prod.splits)
qed

theorem truncated_log_refused_witness:
  "snd (VerifyWith (emptyDisk\<lparr>dhead := dhead demoDisk\<rparr>) \<lparr>Anchor = None, oVerifier = None\<rparr>) \<noteq> None \<and>
   (\<exists>e. Open (emptyDisk\<lparr>dhead := dhead demoDisk\<rparr>) None = Inl e)"
  using truncated_log_refused [of None demoIO emptyLog emptyDisk demoPayload demoLog demoDisk
      "emptyDisk\<lparr>dhead := dhead demoDisk\<rparr>" "[]" None] demo_run
  by (simp add: demoRun_def AppendEvent_def demo_payload readRecords_def emptyDisk_def)

text \<open>
  An append whose record reached the file but whose head update failed is reported as an error and the
  log keeps its old sequence number, so the next append, although it succeeds, writes a second record with
  the same number: verification fails from then on and the process cannot reopen its own log.
\<close>

theorem head_failure_breaks_chain:
  assumes "auditReach signer l d" "appendable signer (now io) l p" "appendable signer (now io') l p'"
    "ioWrite io = WriteOK" "ioHead io = Some e"
    "signEntry signer (entryHash (lseq l + 1) (now io) (lprev l) p) = Inr sig"
    "appendLocked signer io l d p = (l1, d1, r1)" "appendLocked signer io' l1 d1 p' = (l2, d2, None)"
  shows "r1 \<noteq> None \<and> snd (Verify d2) \<noteq> None \<and> (\<exists>x. Open d2 None = Inl x)"
proof -
  obtain rs where c: "consistent l d rs" using auditReach_invariant [OF assms(1)] by blast
  obtain d' e' l' q where "appendLocked signer io l d p = (l, d', Some e')" and c1: "consistent l' d' (rs @ [q])"
    using appendLocked_OK(2) [OF c assms(2,6,4,5)] by blast
  then have l1: "l1 = l" "d1 = d'" "r1 = Some e'" using assms(7) by simp_all
  obtain sig2 where rd: "readRecords d2 = Inr ((rs @ [q]) @ [reread (appendRecord l (now io') p' sig2)])"
    using appendLocked_success_reads [OF assms(8)] assms(3) c1 l1 by (auto simp: consistent_def)
  have "lseq l \<noteq> - 1" using assms(2) by (simp add: appendable_def)
  note n = consistent_seq(2) [OF c this]
  have "lseq l + 1 \<noteq> word_of_nat (length (rs @ [q]) + 1)" using n by simp
  then have "verifyRecord (reread (appendRecord l (now io') p' sig2)) (word_of_nat (length (rs @ [q]) + 1)) (lprev l') \<noteq> None"
    by (simp add: verifyRecord_def reread_def appendRecord_def del: length_append of_nat_add)
  then have "chainFrom 0 genesisPrev ((rs @ [q]) @ [reread (appendRecord l (now io') p' sig2)]) = None"
    using c1 unfolding consistent_def chainFrom_append [of _ _ "rs @ [q]"] by (simp del: length_append of_nat_add)
  from broken_chain [OF rd this] show ?thesis using l1 by simp
qed

theorem head_failure_breaks_chain_witness:
  "\<exists>d2. snd (appendLocked None (demoIO\<lparr>ioHead := Some (errorf ''disk full'')\<rparr>) emptyLog emptyDisk demoPayload) \<noteq> (emptyDisk, None)
     \<and> snd (Verify d2) \<noteq> None \<and> (\<exists>x. Open d2 None = Inl x)"
proof -
  let ?io = "demoIO\<lparr>ioHead := Some (errorf ''disk full'')\<rparr>"
  obtain d1 r1 where 1: "appendLocked None ?io emptyLog emptyDisk demoPayload = (emptyLog, d1, Some r1)"
    by (simp add: appendLocked_def Let_def signEntry_def demoIO_def emptyLog_def writeErr_def writeHead_def)
  obtain l2 d2 where 2: "appendLocked None demoIO emptyLog d1 demoPayload = (l2, d2, None)"
    by (simp add: appendLocked_def Let_def signEntry_def demoIO_def emptyLog_def writeErr_def writeHead_def)
  have "Some r1 \<noteq> None \<and> snd (Verify d2) \<noteq> None \<and> (\<exists>x. Open d2 None = Inl x)"
    by (rule head_failure_breaks_chain [OF auditReach.init _ demo_appendable _ _ _ 1 2])
      (use demo_appendable in \<open>simp_all add: demoIO_def signEntry_def\<close>)
  then show ?thesis using 1 by auto
qed

text \<open>
  A payload with a byte that is not valid UTF-8 poisons the log: the append succeeds, but the hash was
  taken over the encoder's escape of that byte while the file reads back the replacement character, so the
  log no longer verifies, unless the two different encodings happen to collide under SHA-256.
\<close>

theorem invalid_utf8_breaks_log:
  "\<exists>l d. AppendEvent None demoIO emptyLog emptyDisk ''empty_video_skip_override'' badFields = (l, d, None) \<and>
     ((\<exists>e. snd (Verify d) = Some e) \<or>
      (canonicalJSON (coercePayload badPayload) \<noteq> canonicalJSON badPayload \<and>
       entryHash 1 (now demoIO) genesisPrev (coercePayload badPayload) = entryHash 1 (now demoIO) genesisPrev badPayload))"
proof -
  let ?r = "appendRecord emptyLog (now demoIO) badPayload []"
  obtain l h where a: "AppendEvent None demoIO emptyLog emptyDisk ''empty_video_skip_override'' badFields
      = (l, (writeLine emptyDisk (lineOf ?r) WriteOK)\<lparr>dhead := h\<rparr>, None)" (is "_ = (_, ?d, _)")
    by (simp add: AppendEvent_def appendLocked_def Let_def signEntry_def demoIO_def emptyLog_def writeErr_def
        writeHead_def badPayload_def)
  have "entryHash 1 (now demoIO) genesisPrev (coercePayload badPayload) = entryHash 1 (now demoIO) genesisPrev badPayload"
    if v: "snd (Verify ?d) = None"
  proof -
    have "length (marshalRecord ?r) < maxLine"
      using v by (auto simp: Verify_def VerifyWith_def readRecords_def writeLine_def emptyDisk_def glue_def
          lineOf_def not_less split: if_splits)
    moreover have "readRecords emptyDisk = Inr []" "dtail emptyDisk = None"
      by (simp_all add: emptyDisk_def readRecords_def)
    ultimately have rd: "readRecords ?d = Inr [reread ?r]" using scan_write by simp
    obtain p where "chainFrom 0 genesisPrev [reread ?r] = Some p"
      using VerifyWith_OK [OF _ rd] v by (metis Verify_def prod.collapse)
    then have "verifyRecord (reread ?r) 1 genesisPrev = None" by (simp split: if_splits)
    then show ?thesis
      by (simp add: verifyRecord_None reread_def appendRecord_def emptyLog_def coerceUTF8_valid demoIO_def)
  qed
  moreover have "canonicalJSON (coercePayload badPayload) \<noteq> canonicalJSON badPayload" by (rule badPayload_differs)
  ultimately show ?thesis using a by (intro exI [of _ l] exI [of _ ?d]) auto
qed

end
