(* ===== verification/Format.thy ===== *)
theory Format
  imports Sinks AuditLog
begin

text \<open>
  Rendering an envelope for one destination (\<open>internal/result/format.go\<close>): the options of a sink, the
  registry of formats, the raw JSON format and the chat embed with its limits. What \<open>json.Unmarshal\<close> makes
  of caller metadata, the shortest decimal form of a \<open>float64\<close> and the calendar form of a time are arguments,
  so the statements hold whatever they return. The rendered value is the struct given to \<open>json.Marshal\<close>,
  which never refuses the strings, integers and booleans a chat payload is made of.
\<close>

section \<open>Runes\<close>

text \<open>The conversion \<open>[]rune(s)\<close>, each rune as the bytes \<open>string(r)\<close> writes for it: a byte that is not
  part of valid UTF-8 becomes the replacement character.\<close>

fun runes :: "string \<Rightarrow> string list" where
  "runes [] = []"
| "runes (b # s) =
     (if (of_char b :: nat) < 0x80 then [b] # runes s
      else if rune_len (b # s) = 0 then replacementChar # runes s
      else take (rune_len (b # s)) (b # s) # runes (drop (rune_len (b # s) - 1) s))"

abbreviation runeCount :: "string \<Rightarrow> nat" where "runeCount s \<equiv> length (runes s)"

abbreviation midDot :: string where "midDot \<equiv> [CHR 0x20, CHR 0xC2, CHR 0xB7, CHR 0x20]"
abbreviation ellipsis :: string where "ellipsis \<equiv> [CHR 0xE2, CHR 0x80, CHR 0xA6]"

definition clamp :: "string \<Rightarrow> nat \<Rightarrow> string" where
  "clamp s mx =
     (let r = runes s in
      if length r \<le> mx then s
      else if mx \<le> 1 then concat (take mx r)
      else concat (take (mx - 1) r) @ ellipsis)"

section \<open>Formats and their options\<close>

abbreviation "MetadataWildcard \<equiv> ''*''"

fun normFields :: "string list \<Rightarrow> string list \<Rightarrow> string list res" where
  "normFields [] seen = Inr (rev seen)"
| "normFields (k0 # ks) seen =
     (let k = TrimSpace k0 in
      if k = [] then Inl (errorf ''result: metadata_fields contains an empty key'')
      else if k \<in> set seen then Inl (errorf (''result: metadata_fields lists '' @ quoted k @ '' twice''))
      else normFields ks (k # seen))"

definition normalizedFields :: "string list \<Rightarrow> string list res" where
  "normalizedFields flds =
     (if flds = [] then Inr []
      else case normFields flds [] of
          Inl e \<Rightarrow> Inl e
        | Inr out \<Rightarrow>
            if MetadataWildcard \<in> set out \<and> length out > 1
            then Inl (errorf (''result: metadata_fields '' @ quoted MetadataWildcard @ '' cannot be combined with named keys''))
            else Inr out)"

datatype Formatter = jsonFormatter | discordFormatter "string list"

fun FormatterName :: "Formatter \<Rightarrow> string" where
  "FormatterName jsonFormatter = ''json''"
| "FormatterName (discordFormatter mf) = ''discord''"

definition ContentType :: "Formatter \<Rightarrow> string" where
  "ContentType f = ''application/json''"

definition formatterFactories :: "(string \<times> (string list \<Rightarrow> Formatter res)) list" where
  "formatterFactories =
     [(''json'', \<lambda>flds. if flds \<noteq> []
        then Inl (errorf (''result: metadata_fields is not valid for format '' @ quoted ''json'' @ '' '' @ emDash
               @ '' the envelope already carries all metadata''))
        else Inr jsonFormatter),
      (''discord'', \<lambda>flds. Inr (discordFormatter flds))]"

definition KnownFormats :: "string list" where
  "KnownFormats = sort (map fst formatterFactories)"

definition FormatterFor :: "string \<Rightarrow> string list \<Rightarrow> Formatter res" where
  "FormatterFor name flds =
     (let key0 = ToLower (TrimSpace name); key = (if key0 = [] then ''json'' else key0) in
      case map_of formatterFactories key of
        None \<Rightarrow> Inl (errorf (''result: unknown format '' @ quoted name @ '' (want one of: '' @ Join KnownFormats '', '' @ '')''))
      | Some new \<Rightarrow> (case normalizedFields flds of Inl e \<Rightarrow> Inl e | Inr opts \<Rightarrow> new opts))"

section \<open>The chat embed\<close>

abbreviation "discordMaxFieldValue \<equiv> 1024 :: nat"
abbreviation "discordMaxFieldName \<equiv> 256 :: nat"
abbreviation "discordMaxTitle \<equiv> 256 :: nat"
abbreviation "discordMaxEmbedTotal \<equiv> 6000 :: nat"
abbreviation "discordMaxFields \<equiv> 25 :: nat"
abbreviation "discordCoreFieldCount \<equiv> 7 :: nat"

record discordEmbedField =
  dfName :: string
  dfValue :: string
  dfInline :: bool

record discordEmbed =
  deTitle :: string
  deColor :: nat
  deFields :: "discordEmbedField list"
  deTimestamp :: string

record discordPayload =
  dpUsername :: string
  dpEmbeds :: "discordEmbed list"

text \<open>What the decoder leaves in an \<open>any\<close>, and the library calls whose results are arguments.\<close>

datatype anyValue = AString string | ABool bool | AFloat float64 | ANil | AComposite

record Decoders =
  decObject :: "string \<Rightarrow> (string \<times> string) list option"
  decAny :: "string \<Rightarrow> anyValue option"
  formatFloat :: "float64 \<Rightarrow> string"
  utcText :: "int \<Rightarrow> string"

definition orDash :: "string \<Rightarrow> string" where
  "orDash s = (if s = [] then emDash else s)"

definition topCategoryName :: "ResultEnvelope \<Rightarrow> string" where
  "topCategoryName env =
     (case eResult env of None \<Rightarrow> []
      | Some r \<Rightarrow> (case TopCategory (Overall r) of None \<Rightarrow> [] | Some c \<Rightarrow> c))"

text \<open>The verb \<open>%.2f\<close>: two decimals, rounded to the nearest with ties to even.\<close>

definition roundHalfEven :: "rat \<Rightarrow> int" where
  "roundHalfEven q =
     (let n = \<lfloor>q\<rfloor>; rest = q - of_int n in
      if rest < 1 / 2 then n else if rest > 1 / 2 then n + 1 else if even n then n else n + 1)"

definition fixed2 :: "float64 \<Rightarrow> string" where
  "fixed2 x =
     (case x of
        NaN \<Rightarrow> ''NaN'' | PosInf \<Rightarrow> ''+Inf'' | NegInf \<Rightarrow> ''-Inf''
      | Fin q \<Rightarrow>
          (let m = nat (roundHalfEven (\<bar>q\<bar> * 100)) in
           (if q < 0 then ''-'' else []) @ show_nat (m div 100) @ ''.'' @ show_nat (m mod 100 div 10) @ show_nat (m mod 10)))"

definition scoreText :: "ResultEnvelope \<Rightarrow> string" where
  "scoreText env =
     (case eResult env of None \<Rightarrow> ''unknown''
      | Some r \<Rightarrow> (case MaxScore (Overall r) of None \<Rightarrow> ''unknown'' | Some x \<Rightarrow> fixed2 x))"

definition metadataValueText :: "Decoders \<Rightarrow> string \<Rightarrow> string" where
  "metadataValueText dec raw =
     (case decAny dec raw of
        None \<Rightarrow> clamp raw discordMaxFieldValue
      | Some (AString t) \<Rightarrow> clamp t discordMaxFieldValue
      | Some (ABool b) \<Rightarrow> (if b then ''true'' else ''false'')
      | Some (AFloat x) \<Rightarrow> formatFloat dec x
      | Some ANil \<Rightarrow> ''null''
      | Some AComposite \<Rightarrow> clamp raw discordMaxFieldValue)"

text \<open>The loop of \<open>metadataFields\<close> over the keys, with what was appended so far.\<close>

fun metaLoop :: "Decoders \<Rightarrow> (string \<times> string) list \<Rightarrow> string list \<Rightarrow> discordEmbedField list \<Rightarrow> discordEmbedField list" where
  "metaLoop dec meta [] out = out"
| "metaLoop dec meta (k # ks) out =
     (if length out \<ge> discordMaxFields - discordCoreFieldCount then out
      else case map_of meta k of
          None \<Rightarrow> metaLoop dec meta ks out
        | Some raw \<Rightarrow>
            metaLoop dec meta ks
              (out @ [\<lparr>dfName = clamp k discordMaxFieldName, dfValue = orDash (metadataValueText dec raw), dfInline = True\<rparr>]))"

definition metadataFields :: "Decoders \<Rightarrow> string list \<Rightarrow> ResultEnvelope \<Rightarrow> discordEmbedField list" where
  "metadataFields dec metaFields env =
     (if metaFields = [] \<or> eMetadata env = [] then []
      else case decObject dec (eMetadata env) of
          None \<Rightarrow> []
        | Some meta \<Rightarrow>
            metaLoop dec meta (if metaFields = [MetadataWildcard] then sort (map fst meta) else metaFields) [])"

fun fitValues :: "int \<Rightarrow> discordEmbedField list \<Rightarrow> discordEmbedField list" where
  "fitValues used [] = []"
| "fitValues used (f # fs) =
     (let avail = int discordMaxEmbedTotal - used;
          b = min (int discordMaxFieldValue) avail;
          budget = (if b < 1 then 1 else b);
          v0 = clamp (dfValue f) (nat budget);
          v = (if v0 = [] then emDash else v0)
      in f\<lparr>dfValue := v\<rparr> # fitValues (used + int (runeCount v)) fs)"

definition fitEmbedBudget :: "string \<Rightarrow> discordEmbedField list \<Rightarrow> string \<times> discordEmbedField list" where
  "fitEmbedBudget title0 flds0 =
     (let title = clamp title0 discordMaxTitle;
          flds = map (\<lambda>f. f\<lparr>dfName := clamp (dfName f) discordMaxFieldName\<rparr>) flds0;
          used = int (runeCount title) + int (sum_list (map (\<lambda>f. runeCount (dfName f)) flds))
      in (title, fitValues used flds))"

definition colorOf :: "Verdict \<Rightarrow> nat" where
  "colorOf v = (case v of VerdictBlock \<Rightarrow> 0xE03A3A | VerdictFlag \<Rightarrow> 0xE0A33A | VerdictError \<Rightarrow> 0x8A63D2 | VerdictAllow \<Rightarrow> 0x3AA76D)"

definition modelText :: "ModelIdentity \<Rightarrow> string" where
  "modelText m =
     Adapter m @ (if miModelVersion m \<noteq> [] then midDot @ miModelVersion m else [])
       @ (if ModelIdentity.ConfigHash m \<noteq> [] then midDot @ ''cfg '' @ ModelIdentity.ConfigHash m else [])"

definition embedTitle :: "ResultEnvelope \<Rightarrow> string" where
  "embedTitle env =
     ''vismod: '' @ verdict_string (verdictOf env)
       @ (if topCategoryName env \<noteq> [] then '' '' @ emDash @ '' '' @ topCategoryName env else [])"

definition embedFields :: "Decoders \<Rightarrow> string list \<Rightarrow> ResultEnvelope \<Rightarrow> discordEmbedField list" where
  "embedFields dec metaFields env =
     [\<lparr>dfName = ''Job'', dfValue = eJobID env, dfInline = True\<rparr>,
      \<lparr>dfName = ''Verdict'', dfValue = verdict_string (verdictOf env), dfInline = True\<rparr>,
      \<lparr>dfName = ''Top category'', dfValue = orDash (topCategoryName env), dfInline = True\<rparr>,
      \<lparr>dfName = ''Score'', dfValue = scoreText env, dfInline = True\<rparr>]
     @ metadataFields dec metaFields env
     @ [\<lparr>dfName = ''Source'', dfValue = Kind (eSource env) @ midDot @ Ref (eSource env), dfInline = False\<rparr>]
     @ (if Adapter (ModelID env) \<noteq> [] then [\<lparr>dfName = ''Model'', dfValue = modelText (ModelID env), dfInline = True\<rparr>] else [])
     @ (if eError env \<noteq> [] then [\<lparr>dfName = ''Error'', dfValue = eError env, dfInline = False\<rparr>] else [])"

text \<open>The zero time is January 1 of the year 1, counted as every time is in nanoseconds from the epoch.\<close>

definition zeroTime :: int where "zeroTime = - 62135596800 * Second"

definition discordFormat :: "Decoders \<Rightarrow> string list \<Rightarrow> ResultEnvelope \<Rightarrow> discordPayload" where
  "discordFormat dec metaFields env =
     (let (title, flds) = fitEmbedBudget (embedTitle env) (embedFields dec metaFields env);
          ts = (if FinishedAt env = zeroTime then [] else utcText dec (FinishedAt env))
      in \<lparr>dpUsername = ''vismod'',
          dpEmbeds = [\<lparr>deTitle = title, deColor = colorOf (verdictOf env), deFields = flds, deTimestamp = ts\<rparr>]\<rparr>)"

datatype Body = EnvelopeBody ResultEnvelope | DiscordBody discordPayload

fun Format :: "Decoders \<Rightarrow> Formatter \<Rightarrow> ResultEnvelope \<Rightarrow> Body res" where
  "Format dec jsonFormatter env =
     (case marshalErr env of
        Some e \<Rightarrow> Inl (wrapf ''result: marshal envelope: '' e)
      | None \<Rightarrow> Inr (EnvelopeBody env))"
| "Format dec (discordFormatter mf) env = Inr (DiscordBody (discordFormat dec mf env))"

section \<open>Facts about runes\<close>

definition goodRune :: "string \<Rightarrow> bool" where
  "goodRune r \<longleftrightarrow> (\<exists>b. r = [b] \<and> (of_char b :: nat) < 0x80) \<or>
     (r \<noteq> [] \<and> \<not> (of_char (hd r) :: nat) < 0x80 \<and> rune_len r = length r)"

lemma rune_len_le: "rune_len s \<le> length s"
  by (induction s rule: rune_len.induct) (auto split: list.splits)

lemma rune_len_take:
  assumes "rune_len s \<noteq> 0"
  shows "rune_len (take (rune_len s) s @ t) = rune_len s"
proof -
  obtain a b u where s: "s = a # b # u" using assms by (cases s rule: rune_len.cases) auto
  consider "lead2 a b" | "\<not> lead2 a b" "lead3 a b" | "\<not> lead2 a b" "\<not> lead3 a b" "lead4 a b"
    using assms s by (auto split: if_splits)
  then show ?thesis
    using assms s by cases (auto split: list.splits if_splits)
qed

lemma runes_good: "r \<in> set (runes s) \<Longrightarrow> goodRune r"
proof (induction s rule: runes.induct)
  case (2 b s)
  have rep: "goodRune replacementChar" by (simp add: goodRune_def lead2_def lead3_def inR_def)
  show ?case
  proof (cases "(of_char b :: nat) < 0x80")
    case True
    then show ?thesis using 2 by (auto simp: goodRune_def)
  next
    case big: False
    show ?thesis
    proof (cases "rune_len (b # s) = 0")
      case True
      then show ?thesis using 2 big rep by auto
    next
      case False
      have "goodRune (take (rune_len (b # s)) (b # s))"
        using rune_len_take [OF False, of "[]"] rune_len_le [of "b # s"] big False
        by (auto simp: goodRune_def take_Cons split: nat.splits)
      then show ?thesis using 2 big False by (auto simp del: rune_len.simps)
    qed
  qed
qed simp

lemma runes_append_good:
  assumes "goodRune r"
  shows "runes (r @ t) = r # runes t"
proof -
  consider b where "r = [b]" "(of_char b :: nat) < 0x80"
    | "r \<noteq> []" "\<not> (of_char (hd r) :: nat) < 0x80" "rune_len r = length r"
    using assms by (auto simp: goodRune_def)
  then show ?thesis
  proof cases
    case 2
    obtain b u where r: "r = b # u" using 2(1) by (cases r) auto
    have "rune_len (r @ t) = length r"
      using rune_len_take [of r t] 2 by simp
    then show ?thesis using 2 r by (simp del: rune_len.simps)
  qed simp
qed

lemma runes_concat: "(\<And>r. r \<in> set rs \<Longrightarrow> goodRune r) \<Longrightarrow> runes (concat rs) = rs"
  by (induction rs) (auto simp: runes_append_good)

lemma runes_prefix: "runes (concat (take n (runes s)) @ t) = take n (runes s) @ runes t"
proof -
  have "(\<And>r. r \<in> set rs \<Longrightarrow> goodRune r) \<Longrightarrow> runes (concat rs @ t) = rs @ runes t" for rs
    by (induction rs) (auto simp: runes_append_good)
  then show ?thesis by (meson in_set_takeD runes_good)
qed

lemma runes_Nil_iff [simp]: "runes s = [] \<longleftrightarrow> s = []"
  by (cases s) auto

lemma runes_ellipsis [simp]: "runes ellipsis = [ellipsis]"
  by (simp add: lead2_def lead3_def inR_def)

lemma runes_emDash [simp]: "runes emDash = [emDash]"
  by (simp add: emDash_def lead2_def lead3_def inR_def)

lemma runes_ascii: "list_all (\<lambda>b. (of_char b :: nat) < 0x80) s \<Longrightarrow> runes s = map (\<lambda>b. [b]) s"
  by (induction s) auto

lemma concat_runes: "concat (runes s) = coerceUTF8 s"
  by (induction s rule: runes.induct) (auto simp del: rune_len.simps)

lemma clamp_count:
  assumes "1 \<le> mx"
  shows "runeCount (clamp s mx) = min (runeCount s) mx"
proof -
  have "runes (concat (take n (runes s))) = take n (runes s)" for n
    using runes_prefix [of n s "[]"] by simp
  then show ?thesis using assms by (simp add: clamp_def Let_def runes_prefix del: runes.simps)
qed

lemma clamp_Nil_iff:
  assumes "1 \<le> mx"
  shows "clamp s mx = [] \<longleftrightarrow> s = []"
proof -
  have "clamp s mx = [] \<longleftrightarrow> runeCount (clamp s mx) = 0" by simp
  also have "\<dots> \<longleftrightarrow> s = []" unfolding clamp_count [OF assms] using assms by (auto simp: min_def)
  finally show ?thesis .
qed

lemma clamp_short: "runeCount s \<le> mx \<Longrightarrow> clamp s mx = s"
  by (simp add: clamp_def)

section \<open>Facts about the embed\<close>

definition fieldsOK :: "string list \<Rightarrow> bool" where
  "fieldsOK ks \<longleftrightarrow> [] \<notin> set ks \<and> distinct ks \<and> (MetadataWildcard \<in> set ks \<longrightarrow> length ks = 1)"

definition embedTotal :: "discordEmbed \<Rightarrow> nat" where
  "embedTotal e = runeCount (deTitle e) + sum_list (map (\<lambda>f. runeCount (dfName f) + runeCount (dfValue f)) (deFields e))"

definition metaValue :: "Decoders \<Rightarrow> string \<Rightarrow> string \<Rightarrow> string option" where
  "metaValue dec m k = (if m = [] then None else Option.bind (decObject dec m) (\<lambda>obj. map_of obj k))"

definition fieldOK :: "discordEmbedField \<Rightarrow> bool" where
  "fieldOK f \<longleftrightarrow> runeCount (dfName f) \<le> discordMaxFieldName \<and> dfValue f \<noteq> [] \<and> runeCount (dfValue f) \<le> discordMaxFieldValue"

lemma normFields_ok:
  "normFields ks seen = Inr out \<longleftrightarrow>
     out = rev seen @ map TrimSpace ks \<and> [] \<notin> set (map TrimSpace ks) \<and> distinct (map TrimSpace ks)
       \<and> set (map TrimSpace ks) \<inter> set seen = {}"
proof (induction ks arbitrary: seen)
  case (Cons k ks)
  show ?case by (auto simp: Let_def Cons.IH)
qed auto

lemma normalizedFields_ok:
  "normalizedFields flds = Inr out \<longleftrightarrow> out = map TrimSpace flds \<and> fieldsOK (map TrimSpace flds)"
proof (cases "flds = []")
  case False
  have one: "1 < length flds \<longleftrightarrow> length flds \<noteq> 1" using False by (cases flds) auto
  have "normalizedFields flds = Inr out \<longleftrightarrow>
    normFields flds [] = Inr out \<and> \<not> (MetadataWildcard \<in> set out \<and> 1 < length out)"
    using False by (auto simp: normalizedFields_def split: sum.splits if_splits)
  then show ?thesis using one by (auto simp: normFields_ok fieldsOK_def)
qed (auto simp: normalizedFields_def fieldsOK_def)

lemma metaLoop_length:
  "length (metaLoop dec meta ks out) \<le> max (discordMaxFields - discordCoreFieldCount) (length out)"
proof (induction dec meta ks out rule: metaLoop.induct)
  case (2 dec meta k ks out)
  show ?case
  proof (cases "discordMaxFields - discordCoreFieldCount \<le> length out")
    case False
    note IH = "2.IH" [OF False]
    show ?thesis
    proof (cases "map_of meta k")
      case None
      then show ?thesis using IH(1) [OF None] False by simp
    next
      case (Some raw)
      then show ?thesis using IH(2) [OF Some] False by simp
    qed
  qed simp
qed simp

lemma metadataFields_length: "length (metadataFields dec mf env) \<le> 18"
  using metaLoop_length [of dec _ _ "[]"] by (auto simp: metadataFields_def split: option.splits)

lemma metaLoop_cong:
  "(\<And>k. k \<in> set ks \<Longrightarrow> map_of meta k = map_of meta' k) \<Longrightarrow> metaLoop dec meta ks out = metaLoop dec meta' ks out"
  by (induction dec meta ks out rule: metaLoop.induct) (auto split: option.splits)

lemma metaLoop_none: "(\<And>k. k \<in> set ks \<Longrightarrow> map_of meta k = None) \<Longrightarrow> metaLoop dec meta ks out = out"
  by (induction dec meta ks out rule: metaLoop.induct) auto

lemma metadataFields_named:
  assumes "mf \<noteq> [MetadataWildcard]"
  shows "metadataFields dec mf env = metaLoop dec (map (\<lambda>k. (k, the (metaValue dec (eMetadata env) k)))
    (filter (\<lambda>k. metaValue dec (eMetadata env) k \<noteq> None) mf)) mf []"
proof -
  let ?v = "metaValue dec (eMetadata env)"
  let ?sel = "map (\<lambda>k. (k, the (?v k))) (filter (\<lambda>k. ?v k \<noteq> None) mf)"
  have "map_of (map (\<lambda>k. (k, the (?v k))) (filter (\<lambda>k. ?v k \<noteq> None) ks)) k
    = (if k \<in> set ks then ?v k else None)" for k ks
    by (induction ks) auto
  then have sel: "map_of ?sel k = ?v k" if "k \<in> set mf" for k using that by presburger
  show ?thesis
  proof (cases "eMetadata env = [] \<or> decObject dec (eMetadata env) = None")
    case True
    then have "?v k = None" for k by (auto simp: metaValue_def)
    then show ?thesis using True by (auto simp: metadataFields_def metaLoop_none split: option.splits)
  next
    case False
    then obtain obj where obj: "decObject dec (eMetadata env) = Some obj" "eMetadata env \<noteq> []" by auto
    have "metaLoop dec obj mf [] = metaLoop dec ?sel mf []"
      by (rule metaLoop_cong) (use sel obj in \<open>auto simp: metaValue_def\<close>)
    then show ?thesis using obj assms by (auto simp: metadataFields_def)
  qed
qed

lemma fitValues_length [simp]: "length (fitValues u fs) = length fs"
  by (induction fs arbitrary: u) (auto simp: Let_def)

lemma fitValues_names [simp]: "map dfName (fitValues u fs) = map dfName fs"
  by (induction fs arbitrary: u) (auto simp: Let_def)

text \<open>The value the loop writes for a field when \<open>used\<close> runes are spent.\<close>

definition fitValue :: "int \<Rightarrow> string \<Rightarrow> string" where
  "fitValue used v =
     (let b = min (int discordMaxFieldValue) (int discordMaxEmbedTotal - used);
          v0 = clamp v (nat (if b < 1 then 1 else b))
      in if v0 = [] then emDash else v0)"

lemma fitValues_Cons:
  "fitValues used (f # fs) =
     f\<lparr>dfValue := fitValue used (dfValue f)\<rparr> # fitValues (used + int (runeCount (fitValue used (dfValue f)))) fs"
  by (simp add: fitValue_def Let_def)

lemma fitValue_runes:
  "runeCount (fitValue used v) =
     min (max 1 (runeCount v)) (nat (max 1 (min (int discordMaxFieldValue) (int discordMaxEmbedTotal - used))))"
proof -
  define b where "b = min (int discordMaxFieldValue) (int discordMaxEmbedTotal - used)"
  define m where "m = nat (if b < 1 then 1 else b)"
  have m: "1 \<le> m" "m = nat (max 1 b)" by (auto simp: m_def)
  have "fitValue used v = (if clamp v m = [] then emDash else clamp v m)"
    unfolding fitValue_def Let_def m_def b_def ..
  then have "fitValue used v = (if v = [] then emDash else clamp v m)"
    by (simp only: clamp_Nil_iff [OF m(1), of v])
  moreover have "v \<noteq> [] \<Longrightarrow> max 1 (runeCount v) = runeCount v"
    using runes_Nil_iff [of v] by (cases "runes v") auto
  ultimately have "runeCount (fitValue used v) = min (max 1 (runeCount v)) m"
    using m(1) by (auto simp: clamp_count [OF m(1)] simp del: runes.simps(2))
  then show ?thesis by (simp only: m(2) b_def)
qed

lemma fitValue_count:
  "1 \<le> runeCount (fitValue used v)"
  "runeCount (fitValue used v) \<le> discordMaxFieldValue"
  "int (runeCount (fitValue used v)) \<le> max 1 (int discordMaxEmbedTotal - used)"
  unfolding fitValue_runes by auto

lemma fitValues_fields:
  "list_all (\<lambda>f. runeCount (dfName f) \<le> discordMaxFieldName) fs \<Longrightarrow> list_all fieldOK (fitValues u fs)"
proof (induction fs arbitrary: u)
  case (Cons f fs)
  have "fitValue u (dfValue f) \<noteq> []" using fitValue_count(1) [of u "dfValue f"] by auto
  then show ?case using Cons fitValue_count(2) by (auto simp: fitValues_Cons fieldOK_def simp del: fitValues.simps(2))
qed simp

abbreviation valueRunes :: "discordEmbedField list \<Rightarrow> nat" where
  "valueRunes fs \<equiv> sum_list (map (\<lambda>f. runeCount (dfValue f)) fs)"

lemma fitValues_total: "u + int (valueRunes (fitValues u fs)) \<le> max (int discordMaxEmbedTotal) u + int (length fs)"
proof (induction fs arbitrary: u)
  case (Cons f fs)
  let ?c = "int (runeCount (fitValue u (dfValue f)))"
  have "u + ?c + int (valueRunes (fitValues (u + ?c) fs)) \<le> max (int discordMaxEmbedTotal) (u + ?c) + int (length fs)"
    by (rule Cons.IH)
  then show ?case using fitValue_count(3) [of u "dfValue f"] by (simp add: fitValues_Cons del: fitValues.simps(2))
qed simp

lemma fitValues_total_room:
  assumes "u < int discordMaxEmbedTotal"
  shows "u + int (valueRunes (fitValues u fs)) \<le> int discordMaxEmbedTotal + int (length fs - 1)"
proof (cases fs)
  case (Cons f gs)
  let ?c = "int (runeCount (fitValue u (dfValue f)))"
  have "u + ?c \<le> int discordMaxEmbedTotal" using assms fitValue_count(3) [of u "dfValue f"] by simp
  then show ?thesis using fitValues_total [of "u + ?c" gs] Cons by (simp add: fitValues_Cons del: fitValues.simps(2))
qed (use assms in simp)

lemma sum_list_le: "list_all (\<lambda>x. f x \<le> c) xs \<Longrightarrow> sum_list (map f xs) \<le> c * length xs" for f :: "'a \<Rightarrow> nat"
  by (induction xs) auto

lemma embedFields_length: "length (embedFields dec mf env) \<le> discordMaxFields"
  using metadataFields_length [of dec mf env] by (simp add: embedFields_def)

lemma embed_names_sum:
  "sum_list (map (\<lambda>f. runeCount (clamp (dfName f) discordMaxFieldName)) (embedFields dec mf env))
     \<le> 43 + 256 * length (metadataFields dec mf env)"
proof -
  have short: "runeCount (clamp k discordMaxFieldName) \<le> 256" for k by (simp add: clamp_count del: runes.simps)
  have "sum_list (map (\<lambda>f. runeCount (clamp (dfName f) discordMaxFieldName)) (metadataFields dec mf env))
    \<le> 256 * length (metadataFields dec mf env)"
    by (rule sum_list_le) (simp add: short list_all_iff)
  then show ?thesis by (simp add: embedFields_def clamp_def)
qed

lemma embedTotal_split:
  assumes "fitEmbedBudget title fs = (t, gs)"
  shows "t = clamp title discordMaxTitle" "length gs = length fs" "list_all fieldOK gs"
    "embedTotal \<lparr>deTitle = t, deColor = c, deFields = gs, deTimestamp = ts\<rparr> =
      runeCount t + sum_list (map (\<lambda>f. runeCount (clamp (dfName f) discordMaxFieldName)) fs) + valueRunes gs"
    "gs = fitValues (int (runeCount t + sum_list (map (\<lambda>f. runeCount (clamp (dfName f) discordMaxFieldName)) fs)))
      (map (\<lambda>f. f\<lparr>dfName := clamp (dfName f) discordMaxFieldName\<rparr>) fs)"
proof -
  let ?ns = "map (\<lambda>f. f\<lparr>dfName := clamp (dfName f) discordMaxFieldName\<rparr>) fs"
  show t: "t = clamp title discordMaxTitle" using assms by (auto simp: fitEmbedBudget_def Let_def)
  show g: "gs = fitValues (int (runeCount t + sum_list (map (\<lambda>f. runeCount (clamp (dfName f) discordMaxFieldName)) fs))) ?ns"
    using assms by (auto simp: fitEmbedBudget_def Let_def comp_def)
  show "length gs = length fs" by (simp add: g)
  have "list_all (\<lambda>f. runeCount (dfName f) \<le> discordMaxFieldName) ?ns"
    by (auto simp: list_all_iff clamp_count)
  then show "list_all fieldOK gs" unfolding g by (rule fitValues_fields)
  have "map (\<lambda>s. runeCount s) (map dfName gs) = map (\<lambda>s. runeCount s) (map dfName ?ns)"
    by (simp only: g fitValues_names)
  then have "map (\<lambda>f. runeCount (dfName f)) gs = map (\<lambda>f. runeCount (clamp (dfName f) discordMaxFieldName)) fs"
    by (simp add: comp_def)
  then show "embedTotal \<lparr>deTitle = t, deColor = c, deFields = gs, deTimestamp = ts\<rparr> =
      runeCount t + sum_list (map (\<lambda>f. runeCount (clamp (dfName f) discordMaxFieldName)) fs) + valueRunes gs"
    by (simp add: embedTotal_def sum_list_addf)
qed

text \<open>A value never grows beyond the shorter of its own length and the limit, one character excepted.\<close>

definition capRunes :: "discordEmbedField \<Rightarrow> nat" where
  "capRunes f = min discordMaxFieldValue (max 1 (runeCount (dfValue f)))"

lemma fitValue_le_cap: "runeCount (fitValue u (dfValue f)) \<le> capRunes f"
  unfolding fitValue_runes capRunes_def by auto

lemma fitValues_le_cap: "valueRunes (fitValues u fs) \<le> sum_list (map capRunes fs)"
proof (induction fs arbitrary: u)
  case (Cons f fs)
  show ?case using add_mono [OF fitValue_le_cap [of u f] Cons.IH]
    by (simp add: fitValues_Cons del: fitValues.simps(2))
qed simp

lemma fitValues_snoc:
  "fitValues u (fs @ [f]) = fitValues u fs @ fitValues (u + int (valueRunes (fitValues u fs))) [f]"
  by (induction fs arbitrary: u) (simp_all add: fitValues_Cons add.assoc del: fitValues.simps(2))

lemma fitValues_total_last:
  assumes "fs \<noteq> []" "u + int (sum_list (map capRunes (butlast fs))) < int discordMaxEmbedTotal"
  shows "u + int (valueRunes (fitValues u fs)) \<le> int discordMaxEmbedTotal"
proof -
  define w where "w = u + int (valueRunes (fitValues u (butlast fs)))"
  have w: "w < int discordMaxEmbedTotal" using assms(2) fitValues_le_cap [of u "butlast fs"] by (simp add: w_def)
  have "fitValues u fs = fitValues u (butlast fs) @ fitValues w [last fs]"
    using fitValues_snoc [of u "butlast fs" "last fs"] unfolding w_def append_butlast_last_id [OF assms(1)] .
  then have "u + int (valueRunes (fitValues u fs)) = w + int (runeCount (fitValue w (dfValue (last fs))))"
    by (simp add: w_def fitValues_Cons del: fitValues.simps(2))
  then show ?thesis using fitValue_count(3) [of w "dfValue (last fs)"] w by simp
qed

lemma verdict_runes: "runeCount (verdict_string v) \<le> 5"
  by (cases v) auto

lemma plain_caps:
  assumes "metadataFields dec mf env = []"
  shows "sum_list (map capRunes (butlast (embedFields dec mf env))) \<le> 5125"
proof -
  obtain f1 f2 rest where s: "butlast (embedFields dec mf env) = f1 # f2 # rest" "length rest \<le> 4"
    "dfValue f2 = verdict_string (verdictOf env)"
    using assms by (auto simp: embedFields_def)
  have "sum_list (map capRunes rest) \<le> 1024 * length rest"
    by (rule sum_list_le) (simp add: list_all_iff capRunes_def)
  moreover have "capRunes f1 \<le> 1024" "capRunes f2 \<le> 5"
    using verdict_runes [of "verdictOf env"] s(3) by (auto simp: capRunes_def)
  ultimately show ?thesis using s(1,2) by simp
qed

section \<open>Properties\<close>

text \<open>
  C19. What the chat format sends fits the destination's limits for every envelope and every configured
  metadata: one embed, a title of at most 256 characters, at most 25 fields, each name at most 256 and each
  value between 1 and 1024 characters. The combined size stays within 6000 when no metadata is published,
  and exceeds it by less than the number of fields otherwise.
\<close>

theorem discord_limits:
  "\<exists>e. dpEmbeds (discordFormat dec mf env) = [e] \<and> runeCount (deTitle e) \<le> discordMaxTitle
     \<and> length (deFields e) \<le> discordMaxFields \<and> list_all fieldOK (deFields e)
     \<and> embedTotal e \<le> discordMaxEmbedTotal + (if metadataFields dec mf env = [] then 0 else length (deFields e) - 1)"
proof -
  obtain t gs where f: "fitEmbedBudget (embedTitle env) (embedFields dec mf env) = (t, gs)"
    by (cases "fitEmbedBudget (embedTitle env) (embedFields dec mf env)")
  let ?e = "\<lparr>deTitle = t, deColor = colorOf (verdictOf env), deFields = gs,
    deTimestamp = (if FinishedAt env = zeroTime then [] else utcText dec (FinishedAt env))\<rparr>"
  let ?fs = "map (\<lambda>f. f\<lparr>dfName := clamp (dfName f) discordMaxFieldName\<rparr>) (embedFields dec mf env)"
  note sp = embedTotal_split [OF f]
  have e: "dpEmbeds (discordFormat dec mf env) = [?e]" by (simp add: discordFormat_def f)
  have t: "runeCount t \<le> 256" by (simp add: sp(1) clamp_count del: runes.simps)
  have n: "length gs \<le> discordMaxFields" using sp(2) embedFields_length [of dec mf env] by simp
  define u where "u = runeCount t + sum_list (map (\<lambda>f. runeCount (clamp (dfName f) discordMaxFieldName)) (embedFields dec mf env))"
  have u: "u \<le> 299 + 256 * length (metadataFields dec mf env)"
    using t embed_names_sum [of dec mf env] by (simp add: u_def)
  have gs: "gs = fitValues (int u) ?fs" by (rule sp(5) [folded u_def])
  have tot: "embedTotal ?e = u + valueRunes gs" by (simp only: sp(4) u_def)
  have "int u < int discordMaxEmbedTotal" using u metadataFields_length [of dec mf env] by simp
  then have room: "embedTotal ?e \<le> discordMaxEmbedTotal + (length gs - 1)"
    using fitValues_total_room [of "int u" ?fs] tot gs by simp
  have plain: "embedTotal ?e \<le> discordMaxEmbedTotal" if m: "metadataFields dec mf env = []"
  proof -
    have caps: "map capRunes (butlast ?fs) = map capRunes (butlast (embedFields dec mf env))"
      by (simp add: map_butlast [symmetric] capRunes_def)
    have "?fs \<noteq> []" by (simp add: embedFields_def)
    moreover have "int u + int (sum_list (map capRunes (butlast ?fs))) < int discordMaxEmbedTotal"
      using plain_caps [OF m] u m by (simp add: caps del: map_map)
    ultimately show ?thesis using fitValues_total_last [of ?fs "int u"] tot gs by simp
  qed
  show ?thesis using e t n sp(3) room plain by auto
qed

text \<open>
  The chat format is an allow-list: with named metadata keys, two envelopes that agree on the job,
  the verdict, the top category, the score, the source's kind and reference, the model, the error, the finish
  time and the values under the named keys render the same message. Digests, frames, raw provider output and
  every other metadata key cannot reach it.
\<close>

theorem discord_discloses_named:
  assumes "mf \<noteq> [MetadataWildcard]"
    and "eJobID env' = eJobID env" "Kind (eSource env') = Kind (eSource env)" "Ref (eSource env') = Ref (eSource env)"
    and "ModelID env' = ModelID env" "eError env' = eError env" "FinishedAt env' = FinishedAt env"
    and "map_option (\<lambda>r. (ovVerdict (Overall r), TopCategory (Overall r), MaxScore (Overall r))) (eResult env') =
      map_option (\<lambda>r. (ovVerdict (Overall r), TopCategory (Overall r), MaxScore (Overall r))) (eResult env)"
    and "\<And>k. k \<in> set mf \<Longrightarrow> metaValue dec (eMetadata env') k = metaValue dec (eMetadata env) k"
  shows "Format dec (discordFormatter mf) env' = Format dec (discordFormatter mf) env"
proof -
  have v: "verdictOf env' = verdictOf env" "topCategoryName env' = topCategoryName env" "scoreText env' = scoreText env"
    using assms(8) by (auto simp: verdictOf_def topCategoryName_def scoreText_def split: option.splits)
  have "filter (\<lambda>k. metaValue dec (eMetadata env') k \<noteq> None) mf = filter (\<lambda>k. metaValue dec (eMetadata env) k \<noteq> None) mf"
    by (rule filter_cong) (simp_all add: assms(9))
  moreover have "map (\<lambda>k. (k, the (metaValue dec (eMetadata env') k))) (filter P mf)
    = map (\<lambda>k. (k, the (metaValue dec (eMetadata env) k))) (filter P mf)" for P
    by (rule map_cong) (simp_all add: assms(9))
  ultimately have "metadataFields dec mf env' = metadataFields dec mf env"
    by (simp only: metadataFields_named [OF assms(1)])
  then show ?thesis using assms v by (simp add: discordFormat_def embedTitle_def embedFields_def)
qed

definition demoDecoders :: Decoders where
  "demoDecoders = \<lparr>decObject = (\<lambda>m. if m = ''{}'' then Some [] else Some [(''id'', ''7''), (''note'', m)]),
     decAny = (\<lambda>r. Some (AString r)), formatFloat = (\<lambda>x. ''0''), utcText = show_int\<rparr>"

theorem discord_discloses_named_witness:
  "Format demoDecoders (discordFormatter [''id'']) ((demoEnv ''j'')\<lparr>eMetadata := ''x''\<rparr>)
   = Format demoDecoders (discordFormatter [''id'']) ((demoEnv ''j'')\<lparr>eMetadata := ''y'', RawSHA256 := ''secret''\<rparr>)"
  by (rule discord_discloses_named) (simp_all add: metaValue_def demoDecoders_def)

text \<open>
  A format name resolves exactly when it is the JSON envelope without metadata keys or the chat format
  with distinct, non-empty keys of which a wildcard is the only one; every other setting is refused.
\<close>

theorem formatter_for_exact:
  "FormatterFor name flds = Inr f \<longleftrightarrow>
     ToLower (TrimSpace name) \<in> {[], ''json''} \<and> flds = [] \<and> f = jsonFormatter
     \<or> ToLower (TrimSpace name) = ''discord'' \<and> fieldsOK (map TrimSpace flds) \<and> f = discordFormatter (map TrimSpace flds)"
proof -
  define key where "key = (if ToLower (TrimSpace name) = [] then ''json'' else ToLower (TrimSpace name))"
  have k: "FormatterFor name flds = (case map_of formatterFactories key of
      None \<Rightarrow> Inl (errorf (''result: unknown format '' @ quoted name @ '' (want one of: '' @ Join KnownFormats '', '' @ '')''))
    | Some new \<Rightarrow> (case normalizedFields flds of Inl e \<Rightarrow> Inl e | Inr opts \<Rightarrow> new opts))"
    by (simp only: FormatterFor_def Let_def key_def)
  have json: "key = ''json'' \<longleftrightarrow> ToLower (TrimSpace name) \<in> {[], ''json''}" by (auto simp: key_def)
  have disc: "key = ''discord'' \<longleftrightarrow> ToLower (TrimSpace name) = ''discord''" by (auto simp: key_def)
  consider "key = ''json''" | "key = ''discord''" | "key \<noteq> ''json''" "key \<noteq> ''discord''" by blast
  then show ?thesis
  proof cases
    case 1
    have "normalizedFields flds = Inr [] \<longleftrightarrow> flds = []" by (auto simp: normalizedFields_ok fieldsOK_def)
    moreover have "normalizedFields flds = Inr o' \<Longrightarrow> o' = [] \<Longrightarrow> flds = []" for o' by (auto simp: normalizedFields_ok)
    ultimately show ?thesis using 1 json disc by (auto simp: k formatterFactories_def split: sum.splits if_splits)
  next
    case 2
    have "(case normalizedFields flds of Inl e \<Rightarrow> Inl e | Inr opts \<Rightarrow> Inr (discordFormatter opts)) = Inr f
      \<longleftrightarrow> (\<exists>out. normalizedFields flds = Inr out \<and> f = discordFormatter out)"
      by (auto split: sum.splits)
    then show ?thesis using 2 json disc by (auto simp: k formatterFactories_def normalizedFields_ok)
  next
    case 3
    then show ?thesis using json disc by (auto simp: k formatterFactories_def)
  qed
qed

definition longValue :: string where "longValue = replicate 1000 (CHR ''x'')"

definition quotedLong :: string where "quotedLong = [quoteCh] @ longValue @ [quoteCh]"

definition longMeta :: string where
  "longMeta = ''{'' @ Join (map (\<lambda>k. [quoteCh] @ k @ [quoteCh] @ '':'' @ quotedLong) [''a'', ''b'', ''c'', ''d'']) '','' @ ''}''"

definition longDecoders :: Decoders where
  "longDecoders = \<lparr>decObject = (\<lambda>m. if m = longMeta then Some (map (\<lambda>k. (k, quotedLong)) [''a'', ''b'', ''c'', ''d'']) else None),
     decAny = (\<lambda>r. if r = quotedLong then Some (AString longValue) else None), formatFloat = (\<lambda>x. ''0''), utcText = show_int\<rparr>"

definition longEnv :: ResultEnvelope where
  "longEnv = (demoEnv (replicate 1024 (CHR ''j'')))\<lparr>eMetadata := longMeta,
     eSource := \<lparr>Kind = ''file'', Ref = longValue, RefDigest = [], srcMediaType = ''image''\<rparr>\<rparr>"

lemma long_runes:
  "runeCount (replicate n (CHR ''x'')) = n" "runeCount (replicate n (CHR ''j'')) = n"
  "runeCount (''file'' @ midDot @ replicate n (CHR ''x'')) = 7 + n"
proof -
  show a: "runeCount (replicate n (CHR ''x'')) = n" "runeCount (replicate n (CHR ''j'')) = n"
    by (simp_all add: runes_ascii list_all_iff)
  show "runeCount (''file'' @ midDot @ replicate n (CHR ''x'')) = 7 + n"
    using a(1) by (simp add: lead2_def inR_def)
qed

lemma longMeta_Cons: "longMeta \<noteq> []"
  by (simp add: longMeta_def)

lemma long_metadata:
  "metadataFields longDecoders [''a'', ''b'', ''c'', ''d''] longEnv =
     map (\<lambda>k. \<lparr>dfName = k, dfValue = longValue, dfInline = True\<rparr>) [''a'', ''b'', ''c'', ''d'']"
proof -
  have "runeCount longValue = 1000" unfolding longValue_def by (rule long_runes)
  then have "metadataValueText longDecoders quotedLong = longValue"
    by (simp add: metadataValueText_def longDecoders_def clamp_short)
  moreover have "orDash longValue = longValue" by (simp add: orDash_def longValue_def)
  moreover have "clamp k discordMaxFieldName = k" if "k \<in> {''a'', ''b'', ''c'', ''d''}" for k
    using that by (auto simp: clamp_def)
  moreover have "decObject longDecoders (eMetadata longEnv) = Some (map (\<lambda>k. (k, quotedLong)) [''a'', ''b'', ''c'', ''d''])"
    by (simp add: longDecoders_def longEnv_def)
  moreover have "eMetadata longEnv \<noteq> []" by (simp add: longEnv_def longMeta_Cons)
  ultimately show ?thesis by (simp add: metadataFields_def)
qed

text \<open>The sizes the loop gives to values of the given sizes.\<close>

fun fitCounts :: "int \<Rightarrow> nat list \<Rightarrow> nat" where
  "fitCounts u [] = 0"
| "fitCounts u (n # ns) =
     (let c = min (max 1 n) (nat (max 1 (min (int discordMaxFieldValue) (int discordMaxEmbedTotal - u))))
      in c + fitCounts (u + int c) ns)"

lemma fitValues_counts: "valueRunes (fitValues u fs) = fitCounts u (map (\<lambda>f. runeCount (dfValue f)) fs)"
  by (induction fs arbitrary: u) (simp_all add: fitValues_Cons fitValue_runes Let_def del: fitValues.simps(2))

lemma long_fields:
  "map (\<lambda>f. runeCount (dfValue f)) (embedFields longDecoders [''a'', ''b'', ''c'', ''d''] longEnv)
     = [1024, 5, 1, 7, 1000, 1000, 1000, 1000, 1007, 10, 7]"
  "map (\<lambda>f. runeCount (clamp (dfName f) discordMaxFieldName)) (embedFields longDecoders [''a'', ''b'', ''c'', ''d''] longEnv)
     = [3, 7, 12, 5, 1, 1, 1, 1, 6, 5, 5]"
  unfolding embedFields_def long_metadata
  using long_runes(1) [of 1000] long_runes(2) [of 1024] long_runes(3) [of 1000]
  by (simp_all add: longEnv_def demoEnv_def verdictOf_def topCategoryName_def orDash_def
      scoreText_def modelText_def longValue_def clamp_def lead2_def inR_def)

text \<open>
  With metadata published the combined limit can be exceeded: a job identifier of 1024 characters, four
  metadata values of 1000 and a source reference of 1000 spend the whole budget, and the model and error
  fields that follow still take one character each.
\<close>

theorem discord_over_budget:
  "length longMeta \<le> MaxMetadataBytes \<and>
   map embedTotal (dpEmbeds (discordFormat longDecoders [''a'', ''b'', ''c'', ''d''] longEnv)) = [6002]"
proof -
  let ?fs = "embedFields longDecoders [''a'', ''b'', ''c'', ''d''] longEnv"
  obtain t gs where f: "fitEmbedBudget (embedTitle longEnv) ?fs = (t, gs)" by (cases "fitEmbedBudget (embedTitle longEnv) ?fs")
  note sp = embedTotal_split [OF f]
  have t: "runeCount t = 13"
    by (simp add: sp(1) embedTitle_def longEnv_def demoEnv_def verdictOf_def topCategoryName_def clamp_def)
  have vals: "map (\<lambda>f. runeCount (dfValue f)) (map (\<lambda>f. f\<lparr>dfName := clamp (dfName f) discordMaxFieldName\<rparr>) ?fs)
    = [1024, 5, 1, 7, 1000, 1000, 1000, 1000, 1007, 10, 7]"
    using long_fields(1) by (simp add: comp_def)
  have u: "int (runeCount t + sum_list (map (\<lambda>f. runeCount (clamp (dfName f) discordMaxFieldName)) ?fs)) = 60"
    unfolding long_fields(2) t by simp
  have "valueRunes gs = fitCounts 60 [1024, 5, 1, 7, 1000, 1000, 1000, 1000, 1007, 10, 7]"
    unfolding sp(5) u fitValues_counts vals ..
  also have "\<dots> = 5942" by code_simp
  finally have "embedTotal \<lparr>deTitle = t, deColor = c, deFields = gs, deTimestamp = ts\<rparr> = 6002" for c ts
    unfolding sp(4) long_fields(2) t by simp
  moreover have "length longMeta \<le> MaxMetadataBytes"
    by (simp add: longMeta_def quotedLong_def longValue_def MaxMetadataBytes_def)
  ultimately show ?thesis by (simp add: discordFormat_def f)
qed

end
