(* ===== verification/Fetch.thy ===== *)
theory Fetch
  imports Httpx
begin

text \<open>
  Downloading remote media (\<open>internal/fetch\<close>): the address policies of \<open>ippolicy.go\<close>, the URL rules and the
  redaction of \<open>validate.go\<close> and the fetcher of \<open>fetch.go\<close>. Addresses are 32-bit and 128-bit words, with the
  predicates of \<open>net/netip\<close> written out. What \<open>url.Parse\<close> and \<open>mime.ParseMediaType\<close> make of a text is an
  argument; a \<open>URL\<close> carries the answers of its accessors. Resolution, connections and responses are
  arguments too, one per attempt.
\<close>

unbundle bit_operations_syntax

section \<open>Addresses (net/netip)\<close>

datatype Addr = InvalidAddr | V4 "32 word" | V6 "128 word" string

definition v4octet :: "32 word \<Rightarrow> nat \<Rightarrow> nat" where
  "v4octet a i = unat a div 256 ^ (3 - i) mod 256"

definition v6octet :: "128 word \<Rightarrow> nat \<Rightarrow> nat" where
  "v6octet a i = unat a div 256 ^ (15 - i) mod 256"

definition v6u16 :: "128 word \<Rightarrow> nat \<Rightarrow> nat" where
  "v6u16 a i = unat a div 65536 ^ (7 - i) mod 65536"

definition Is4In6 :: "128 word \<Rightarrow> bool" where
  "Is4In6 a \<longleftrightarrow> unat a div 2 ^ 64 = 0 \<and> unat a mod 2 ^ 64 div 2 ^ 32 = 65535"

definition Unmap :: "Addr \<Rightarrow> Addr" where
  "Unmap ip = (case ip of V6 a z \<Rightarrow> if Is4In6 a then V4 (word_of_nat (unat a mod 2 ^ 32)) else ip | _ \<Rightarrow> ip)"

definition IsLoopback :: "Addr \<Rightarrow> bool" where
  "IsLoopback ip = (case ip of V4 a \<Rightarrow> v4octet a 0 = 127 | V6 a z \<Rightarrow> a = 1 | InvalidAddr \<Rightarrow> False)"

definition IsPrivate :: "Addr \<Rightarrow> bool" where
  "IsPrivate ip =
     (case ip of
        V4 a \<Rightarrow> v4octet a 0 = 10 \<or> (v4octet a 0 = 172 \<and> v4octet a 1 AND 240 = 16) \<or> (v4octet a 0 = 192 \<and> v4octet a 1 = 168)
      | V6 a z \<Rightarrow> v6octet a 0 AND 254 = 252
      | InvalidAddr \<Rightarrow> False)"

definition IsLinkLocalUnicast :: "Addr \<Rightarrow> bool" where
  "IsLinkLocalUnicast ip =
     (case ip of
        V4 a \<Rightarrow> v4octet a 0 = 169 \<and> v4octet a 1 = 254
      | V6 a z \<Rightarrow> v6u16 a 0 AND 65472 = 65152
      | InvalidAddr \<Rightarrow> False)"

definition IsLinkLocalMulticast :: "Addr \<Rightarrow> bool" where
  "IsLinkLocalMulticast ip =
     (case ip of
        V4 a \<Rightarrow> v4octet a 0 = 224 \<and> v4octet a 1 = 0 \<and> v4octet a 2 = 0
      | V6 a z \<Rightarrow> v6u16 a 0 AND 65295 = 65282
      | InvalidAddr \<Rightarrow> False)"

definition IsInterfaceLocalMulticast :: "Addr \<Rightarrow> bool" where
  "IsInterfaceLocalMulticast ip = (case ip of V6 a z \<Rightarrow> v6u16 a 0 AND 65295 = 65281 | _ \<Rightarrow> False)"

definition IsMulticast :: "Addr \<Rightarrow> bool" where
  "IsMulticast ip =
     (case ip of V4 a \<Rightarrow> v4octet a 0 AND 240 = 224 | V6 a z \<Rightarrow> v6octet a 0 = 255 | InvalidAddr \<Rightarrow> False)"

definition IsUnspecified :: "Addr \<Rightarrow> bool" where
  "IsUnspecified ip = (ip = V4 0 \<or> ip = V6 0 [])"

text \<open>A prefix contains only addresses of its own family, and none with a zone.\<close>

definition prefix4Contains :: "nat \<Rightarrow> nat \<Rightarrow> Addr \<Rightarrow> bool" where
  "prefix4Contains base len ip = (case ip of V4 a \<Rightarrow> unat a div 2 ^ (32 - len) = base div 2 ^ (32 - len) | _ \<Rightarrow> False)"

definition prefix6Contains :: "nat \<Rightarrow> nat \<Rightarrow> Addr \<Rightarrow> bool" where
  "prefix6Contains base len ip =
     (case ip of V6 a z \<Rightarrow> z = [] \<and> unat a div 2 ^ (128 - len) = base div 2 ^ (128 - len) | _ \<Rightarrow> False)"

text \<open>The textual form: dotted decimal, or hexadecimal groups with the longest run of zeros elided.\<close>

definition hexDigit :: "nat \<Rightarrow> char" where
  "hexDigit n = (if n < 10 then char_of (48 + n) else char_of (87 + n))"

fun showHex :: "nat \<Rightarrow> string" where
  "showHex n = (if n < 16 then [hexDigit n] else showHex (n div 16) @ [hexDigit (n mod 16)])"

declare showHex.simps [simp del]

definition zeroRun :: "nat list \<Rightarrow> nat \<Rightarrow> nat" where
  "zeroRun gs i = length (takeWhile (\<lambda>g. g = 0) (drop i gs))"

definition longestZeros :: "nat list \<Rightarrow> (nat \<times> nat) option" where
  "longestZeros gs =
     foldl (\<lambda>best i. let l = zeroRun gs i in
       if l \<ge> 2 \<and> l > (case best of None \<Rightarrow> 0 | Some (s, k) \<Rightarrow> k) then Some (i, l) else best) None [0..<8]"

definition addrText :: "Addr \<Rightarrow> string" where
  "addrText ip =
     (case ip of
        InvalidAddr \<Rightarrow> ''invalid IP''
      | V4 a \<Rightarrow> Join (map (\<lambda>i. show_nat (v4octet a i)) [0..<4]) ''.''
      | V6 a z \<Rightarrow>
          (let gs = map (v6u16 a) [0..<8];
               body = (case longestZeros gs of
                   None \<Rightarrow> Join (map showHex gs) '':''
                 | Some (s, k) \<Rightarrow> Join (map showHex (take s gs)) '':'' @ ''::'' @ Join (map showHex (drop (s + k) gs)) '':'')
           in body @ (if z = [] then [] else ''%'' @ z)))"

section \<open>Address policies (ippolicy.go)\<close>

definition cgnatContains :: "Addr \<Rightarrow> bool" where
  "cgnatContains = prefix4Contains (100 * 2 ^ 24 + 64 * 2 ^ 16) 10"

definition imdsV6Contains :: "Addr \<Rightarrow> bool" where
  "imdsV6Contains = prefix6Contains (64768 * 2 ^ 112 + 3778 * 2 ^ 96) 32"

definition DenyPrivate :: "Addr \<Rightarrow> goerr option" where
  "DenyPrivate ip0 =
     (if ip0 = InvalidAddr then Some (errorf ''fetch: invalid address'')
      else (let ip = Unmap ip0; bad = (\<lambda>what. Some (errorf (''fetch: '' @ addrText ip @ what))) in
        if IsLoopback ip then bad '' is loopback''
        else if IsPrivate ip then bad '' is a private address''
        else if IsLinkLocalUnicast ip \<or> IsLinkLocalMulticast ip then bad '' is link-local (cloud metadata range)''
        else if IsUnspecified ip then bad '' is the unspecified address''
        else if IsMulticast ip \<or> IsInterfaceLocalMulticast ip then bad '' is multicast''
        else if cgnatContains ip then bad '' is CGNAT shared address space''
        else None))"

definition DenyMetadata :: "Addr \<Rightarrow> goerr option" where
  "DenyMetadata ip0 =
     (if ip0 = InvalidAddr then Some (errorf ''fetch: invalid address'')
      else (let ip = Unmap ip0; bad = (\<lambda>what. Some (errorf (''fetch: '' @ addrText ip @ what))) in
        if IsLinkLocalUnicast ip \<or> IsLinkLocalMulticast ip then bad '' is link-local (cloud metadata range)''
        else if imdsV6Contains ip then bad '' is the IPv6 instance-metadata range''
        else if IsUnspecified ip then bad '' is the unspecified address''
        else if IsMulticast ip \<or> IsInterfaceLocalMulticast ip then bad '' is multicast''
        else if cgnatContains ip then bad '' is CGNAT shared address space''
        else None))"

section \<open>URLs (validate.go)\<close>

text \<open>The escaped host and path are what \<open>String\<close> writes; \<open>uHostname\<close> is \<open>Hostname()\<close>.\<close>

record URL =
  uScheme :: string
  uOpaque :: string
  uUser :: "string option"
  uHost :: string
  uHostname :: string
  uPath :: string
  uOmitHost :: bool
  uForceQuery :: bool
  uRawQuery :: string
  uFragment :: string

definition URL_String :: "URL \<Rightarrow> string" where
  "URL_String u =
     (let pre = (if uScheme u \<noteq> [] then uScheme u @ '':'' else []);
          auth = (if (uScheme u \<noteq> [] \<or> uHost u \<noteq> [] \<or> uUser u \<noteq> None)
                     \<and> \<not> (uOmitHost u \<and> uHost u = [] \<and> uUser u = None)
                  then (if uHost u \<noteq> [] \<or> uPath u \<noteq> [] \<or> uUser u \<noteq> None then ''//'' else [])
                    @ (case uUser u of None \<Rightarrow> [] | Some ui \<Rightarrow> ui @ ''@'') @ uHost u
                  else []);
          slash = (if uPath u \<noteq> [] \<and> take 1 (uPath u) \<noteq> ''/'' \<and> uHost u \<noteq> [] then ''/'' else []);
          dot = (if pre @ auth @ slash = [] \<and> Contains (hd (SplitByte (uPath u) (CHR ''/''))) '':'' then ''./'' else []);
          body = (if uOpaque u \<noteq> [] then uOpaque u else auth @ slash @ dot @ uPath u)
      in pre @ body @ (if uForceQuery u \<or> uRawQuery u \<noteq> [] then ''?'' @ uRawQuery u else [])
         @ (if uFragment u \<noteq> [] then ''#'' @ uFragment u else []))"

record hostRules =
  hrAllow :: "string list"
  hrPrivate :: "string list"

definition permits :: "hostRules \<Rightarrow> string \<Rightarrow> bool" where
  "permits h host \<longleftrightarrow> hrAllow h = [] \<or> host \<in> set (hrAllow h) \<or> host \<in> set (hrPrivate h)"

type_synonym urlParser = "string \<Rightarrow> URL res"

definition validateURL :: "urlParser \<Rightarrow> string \<Rightarrow> hostRules \<Rightarrow> string \<Rightarrow> URL res" where
  "validateURL parse raw hosts extraScheme =
     (case parse (TrimSpace raw) of
        Inl e \<Rightarrow> Inl (errorf ''fetch: url is not parseable'')
      | Inr u \<Rightarrow>
          if uUser u \<noteq> None then Inl (errorf (''fetch: url must not contain userinfo '' @ emDash @ '' credentials are env-only''))
          else (let host = ToLower (uHostname u) in
            if host = [] then Inl (errorf ''fetch: url has no host'')
            else if \<not> permits hosts host then
              Inl (errorf (''fetch: host '' @ quoted host @ '' is not in source.url.allow_hosts''))
            else if uScheme u = ''https'' \<or> (extraScheme \<noteq> [] \<and> uScheme u = extraScheme)
                \<or> (uScheme u = ''http'' \<and> host \<in> set (hrPrivate hosts)) then Inr u
            else Inl (errorf (''fetch: url scheme must be https, got '' @ quoted (uScheme u)))))"

definition ValidateURL :: "urlParser \<Rightarrow> string \<Rightarrow> string list \<Rightarrow> string list \<Rightarrow> URL res" where
  "ValidateURL parse raw allowHosts privateHosts =
     validateURL parse raw \<lparr>hrAllow = allowHosts, hrPrivate = privateHosts\<rparr> []"

definition Redact :: "urlParser \<Rightarrow> string \<Rightarrow> string \<times> string" where
  "Redact parse raw =
     (let digest = hex_encode (sha256 raw) in
      case parse (TrimSpace raw) of
        Inl e \<Rightarrow> ([], digest)
      | Inr u \<Rightarrow> (URL_String (u\<lparr>uRawQuery := [], uForceQuery := False, uFragment := [], uUser := None\<rparr>), digest))"

section \<open>The fetcher (fetch.go)\<close>

record FetchConfig =
  fAllowHosts :: "string list"
  fAllowPrivateHosts :: "string list"
  fMaxBytes :: int
  fTimeout :: int
  fMaxAttempts :: int
  fAllowedMediaTypes :: "string list"

record Fetcher =
  fcfg :: FetchConfig
  fhosts :: hostRules
  allowTypes :: "string list"
  allowScheme :: string

definition lowerSet :: "string list \<Rightarrow> string list" where
  "lowerSet xs = map (\<lambda>s. ToLower (TrimSpace s)) xs"

definition NewFetcher :: "FetchConfig \<Rightarrow> Fetcher" where
  "NewFetcher cfg0 =
     (let cfg = cfg0\<lparr>fMaxBytes := (if fMaxBytes cfg0 \<le> 0 then 268435456 else fMaxBytes cfg0),
                     fTimeout := (if fTimeout cfg0 \<le> 0 then 60 * Second else fTimeout cfg0),
                     fMaxAttempts := (if fMaxAttempts cfg0 \<le> 0 then 3 else fMaxAttempts cfg0)\<rparr>
      in \<lparr>fcfg = cfg, fhosts = \<lparr>hrAllow = lowerSet (fAllowHosts cfg), hrPrivate = lowerSet (fAllowPrivateHosts cfg)\<rparr>,
          allowTypes = lowerSet (fAllowedMediaTypes cfg), allowScheme = []\<rparr>)"

text \<open>The policy is chosen from the host name dialed and applied to every address the dialer is about to
  connect to; each candidate comes with the outcome of its connect.\<close>

definition dialPolicy :: "Fetcher \<Rightarrow> string \<Rightarrow> Addr \<Rightarrow> goerr option" where
  "dialPolicy f host = (if ToLower host \<in> set (hrPrivate (fhosts f)) then DenyMetadata else DenyPrivate)"

fun dialLoop :: "(Addr \<Rightarrow> goerr option) \<Rightarrow> (Addr \<times> goerr option) list \<Rightarrow> goerr option \<Rightarrow> Addr res" where
  "dialLoop policy [] firstErr = Inl (case firstErr of None \<Rightarrow> errorf ''missing address'' | Some e \<Rightarrow> e)"
| "dialLoop policy ((ip, connectErr) # rest) firstErr =
     (case (case policy ip of Some e \<Rightarrow> Some e | None \<Rightarrow> connectErr) of
        None \<Rightarrow> Inr ip
      | Some e \<Rightarrow> dialLoop policy rest (case firstErr of None \<Rightarrow> Some e | Some e0 \<Rightarrow> Some e0))"

definition dial :: "Fetcher \<Rightarrow> string \<Rightarrow> (Addr \<times> goerr option) list \<Rightarrow> Addr res" where
  "dial f host candidates = dialLoop (dialPolicy f host) candidates None"

definition terminalErr :: "goerr \<Rightarrow> goerr" where
  "terminalErr e = e\<lparr>etree := TerminalErr # etree e\<rparr>"

definition checkMediaType :: "(string \<Rightarrow> string res) \<Rightarrow> Fetcher \<Rightarrow> string \<Rightarrow> goerr option" where
  "checkMediaType parseMedia f header =
     (if allowTypes f = [] then None
      else case parseMedia header of
          Inl e \<Rightarrow> Some (terminalErr (errorf ''fetch: unparseable Content-Type''))
        | Inr mt \<Rightarrow>
            if ToLower mt \<notin> set (allowTypes f) then
              Some (terminalErr (errorf (''fetch: Content-Type '' @ quoted mt @ '' is not in source.url.allowed_media_types'')))
            else None)"

definition redactForError :: "urlParser \<Rightarrow> string \<Rightarrow> string" where
  "redactForError parse raw = fst (Redact parse raw)"

text \<open>\<open>filepath.Ext\<close>: from the last dot of the last path element on.\<close>

definition filepathExt :: "string \<Rightarrow> string" where
  "filepathExt p =
     (let r = takeWhile (\<lambda>c. c \<noteq> CHR ''/'') (rev p)
      in if CHR ''.'' \<in> set r then rev (takeWhile (\<lambda>c. c \<noteq> CHR ''.'') r @ ''.'') else [])"

definition extOf :: "urlParser \<Rightarrow> string \<Rightarrow> string" where
  "extOf parse raw =
     (let ext = filepathExt (fst (Redact parse raw)) in
      if length ext > 5 \<or> CHR ''/'' \<in> set ext \<or> CHR 0x5C \<in> set ext then [] else ext)"

text \<open>What the environment does in one attempt. The error of \<open>client.Do\<close> is a \<open>url.Error\<close>, whose text
  names the method and the URL. A context that is done shows as an error of the wait.\<close>

record AttemptWorld =
  awRequestErr :: "goerr option"
  awDo :: RoundTrip
  awRetryWait :: "goerr option"
  awOpenErr :: "goerr option"
  awWriteErr :: "goerr option"
  awCloseErr :: "goerr option"
  awCtxErr :: "goerr option"
  awBackoff :: "goerr option"

definition urlError :: "string \<Rightarrow> goerr \<Rightarrow> goerr" where
  "urlError url cause = wrapf (''Get '' @ quoted url @ '': '') cause"

text \<open>One download into the file, given the content of the file so far (\<open>None\<close>: no such file).\<close>

definition attemptFetch ::
  "urlParser \<Rightarrow> (string \<Rightarrow> string res) \<Rightarrow> Fetcher \<Rightarrow> AttemptWorld \<Rightarrow> string \<Rightarrow> string \<Rightarrow> string option \<Rightarrow> string option \<times> goerr option" where
  "attemptFetch parse parseMedia f w url path file =
     (case awRequestErr w of
        Some e \<Rightarrow> (file, Some (terminalErr e))
      | None \<Rightarrow>
          (case awDo w of
             NetErr cause \<Rightarrow>
               (let e = urlError url cause in (file, Some (if Contains (emsg e) ''fetch: '' then terminalErr e else e)))
           | GotResp rs \<Rightarrow>
               (let statusErr = errorf (''fetch: '' @ redactForError parse url @ '' returned '' @ show_int (rStatus rs)) in
                if rStatus rs \<noteq> 200 then
                  (file,
                   if \<not> RetryableStatus (rStatus rs) then Some (terminalErr statusErr)
                   else if RetryAfter rs > 0 then
                     Some (case awRetryWait w of Some e \<Rightarrow> e | None \<Rightarrow> statusErr)
                   else Some statusErr)
                else case checkMediaType parseMedia f (rHeader rs ''Content-Type'') of
                    Some e \<Rightarrow> (file, Some e)
                  | None \<Rightarrow>
                      (case awOpenErr w of
                         Some e \<Rightarrow> (file, Some (terminalErr (wrapf (''fetch: create '' @ path @ '': '') e)))
                       | None \<Rightarrow>
                           (let body = take (nat (fMaxBytes (fcfg f) + 1)) (rBody rs);
                                copyErr = (case rReadErr rs of Some e \<Rightarrow> Some e | None \<Rightarrow> awWriteErr w)
                            in (Some body,
                                case copyErr of
                                  Some e \<Rightarrow> Some e
                                | None \<Rightarrow>
                                    if int (length body) > fMaxBytes (fcfg f) then
                                      Some (terminalErr (errorf (''fetch: body exceeds source.url.max_bytes ('' @ show_int (fMaxBytes (fcfg f)) @ '')'')))
                                    else map_option (wrapf (''fetch: close '' @ path @ '': '')) (awCloseErr w)))))))"

text \<open>The attempts. A failed one removes the file; what is left is the content after the loop.\<close>

function fetchLoop ::
  "urlParser \<Rightarrow> (string \<Rightarrow> string res) \<Rightarrow> Fetcher \<Rightarrow> (nat \<Rightarrow> AttemptWorld) \<Rightarrow> string \<Rightarrow> string \<Rightarrow> nat \<Rightarrow> goerr option \<Rightarrow> string option \<Rightarrow>
     string option \<times> string res" where
  "fetchLoop parse parseMedia f w url path attempt lastErr file =
     (if int attempt > fMaxAttempts (fcfg f) then
        (file, Inl (markRetryable (wrapf (''fetch: after '' @ show_int (fMaxAttempts (fcfg f)) @ '' attempts: '')
          (case lastErr of Some e \<Rightarrow> e | None \<Rightarrow> errorf ''%!w(<nil>)''))))
      else case attemptFetch parse parseMedia f (w attempt) url path file of
          (file', None) \<Rightarrow> (file', Inr path)
        | (file', Some e) \<Rightarrow>
            if errorsIs e TerminalErr then (None, Inl e)
            else (case awCtxErr (w attempt) of
                Some ce \<Rightarrow> (None, Inl ce)
              | None \<Rightarrow>
                  (case (if int attempt < fMaxAttempts (fcfg f) then awBackoff (w attempt) else None) of
                     Some ce \<Rightarrow> (None, Inl ce)
                   | None \<Rightarrow> fetchLoop parse parseMedia f w url path (attempt + 1) (Some e) None)))"
  by pat_completeness auto

termination
  by (relation "measure (\<lambda>(parse, parseMedia, f, w, url, path, attempt, lastErr, file). nat (fMaxAttempts (fcfg f) + 1) - attempt)") auto

declare fetchLoop.simps [simp del]

definition fetchPath :: "urlParser \<Rightarrow> string \<Rightarrow> string \<Rightarrow> string" where
  "fetchPath parse rawURL dir = dir @ ''/source'' @ extOf parse rawURL"

definition FetchURL ::
  "urlParser \<Rightarrow> (string \<Rightarrow> string res) \<Rightarrow> Fetcher \<Rightarrow> (nat \<Rightarrow> AttemptWorld) \<Rightarrow> string \<Rightarrow> string \<Rightarrow> string option \<times> string res" where
  "FetchURL parse parseMedia f w rawURL dir =
     (case validateURL parse rawURL (fhosts f) (allowScheme f) of
        Inl e \<Rightarrow> (None, Inl (terminalErr e))
      | Inr u \<Rightarrow> fetchLoop parse parseMedia f w (URL_String u) (fetchPath parse rawURL dir) 1 None None)"

definition Reason :: "goerr option \<Rightarrow> string" where
  "Reason err =
     (case err of
        None \<Rightarrow> []
      | Some e \<Rightarrow>
          if errorsIs e DeadlineExceeded \<or> errorsIs e Canceled then ''timeout''
          else (let s = emsg e; has = (\<lambda>ws. list_ex (Contains s) ws) in
            if has [''allow_hosts'', ''scheme'', ''userinfo'', ''no host'', ''not parseable''] then ''rejected_url''
            else if has [''loopback'', ''private'', ''link-local'', ''multicast'', ''CGNAT'', ''unspecified''] then ''denied_address''
            else if has [''redirect''] then ''redirect''
            else if has [''max_bytes''] then ''oversize''
            else if has [''Content-Type''] then ''media_type''
            else if has [''returned ''] then ''http_status''
            else ''other''))"

section \<open>The denied ranges as a table\<close>

definition privateV4 :: "(nat \<times> nat) list" where
  "privateV4 = [(127 * 2 ^ 24, 8), (10 * 2 ^ 24, 8), (172 * 2 ^ 24 + 16 * 2 ^ 16, 12), (192 * 2 ^ 24 + 168 * 2 ^ 16, 16),
     (169 * 2 ^ 24 + 254 * 2 ^ 16, 16), (0, 32), (224 * 2 ^ 24, 4), (100 * 2 ^ 24 + 64 * 2 ^ 16, 10)]"

definition privateV6 :: "(nat \<times> nat) list" where
  "privateV6 = [(1, 128), (64512 * 2 ^ 112, 7), (65152 * 2 ^ 112, 10), (65280 * 2 ^ 112, 8)]"

definition inRanges :: "nat \<Rightarrow> nat \<Rightarrow> (nat \<times> nat) list \<Rightarrow> bool" where
  "inRanges bits n table = list_ex (\<lambda>(base, len). n div 2 ^ (bits - len) = base div 2 ^ (bits - len)) table"

text \<open>The addresses the default policy refuses.\<close>

definition nonPublic :: "Addr \<Rightarrow> bool" where
  "nonPublic ip =
     (case Unmap ip of
        InvalidAddr \<Rightarrow> True
      | V4 a \<Rightarrow> inRanges 32 (unat a) privateV4
      | V6 a z \<Rightarrow> inRanges 128 (unat a) privateV6 \<or> (a = 0 \<and> z = []))"

definition mapped4 :: "32 word \<Rightarrow> 128 word" where
  "mapped4 a = word_of_nat (65535 * 2 ^ 32 + unat a)"

section \<open>Facts on addresses\<close>

lemma and_push_mask: "(x::nat) AND push_bit k (mask n) = push_bit k (take_bit n (drop_bit k x))"
  by (rule bit_eqI) (auto simp: bit_simps)

lemma and_240: "x < 256 \<Longrightarrow> (x::nat) AND 240 = 16 * (x div 16)"
proof -
  assume "x < 256"
  moreover have "push_bit 4 (mask 4) = (240::nat)" by (simp add: mask_eq_exp_minus_1 push_bit_eq_mult)
  ultimately show ?thesis using and_push_mask [of x 4 4]
    by (simp add: push_bit_eq_mult take_bit_eq_mod drop_bit_eq_div)
qed

lemma and_254: "x < 256 \<Longrightarrow> (x::nat) AND 254 = 2 * (x div 2)"
proof -
  assume "x < 256"
  moreover have "push_bit 1 (mask 7) = (254::nat)" by (simp add: mask_eq_exp_minus_1 push_bit_eq_mult)
  ultimately show ?thesis using and_push_mask [of x 1 7]
    by (simp add: push_bit_eq_mult take_bit_eq_mod drop_bit_eq_div)
qed

lemma and_65472: "x < 65536 \<Longrightarrow> (x::nat) AND 65472 = 64 * (x div 64)"
proof -
  assume "x < 65536"
  moreover have "push_bit 6 (mask 10) = (65472::nat)" by (simp add: mask_eq_exp_minus_1 push_bit_eq_mult)
  ultimately show ?thesis using and_push_mask [of x 6 10]
    by (simp add: push_bit_eq_mult take_bit_eq_mod drop_bit_eq_div)
qed

lemma and_65280: "x < 65536 \<Longrightarrow> (x::nat) AND 65280 = 256 * (x div 256)"
proof -
  assume "x < 65536"
  moreover have "push_bit 8 (mask 8) = (65280::nat)" by (simp add: mask_eq_exp_minus_1 push_bit_eq_mult)
  ultimately show ?thesis using and_push_mask [of x 8 8]
    by (simp add: push_bit_eq_mult take_bit_eq_mod drop_bit_eq_div)
qed

lemma and_65295: "x < 65536 \<Longrightarrow> (x::nat) AND 65295 = 65280 + y \<Longrightarrow> y < 16 \<Longrightarrow> x div 256 = 255"
proof -
  assume a: "x < 65536" "x AND 65295 = 65280 + y" "y < 16"
  have "x AND 65280 = (x AND 65295) AND 65280"
    by (simp add: and.assoc)
  also have "\<dots> = (65280 + y) AND 65280" using a(2) by simp
  also have "\<dots> = 65280" using and_65280 [of "65280 + y"] a(3) by simp
  finally show ?thesis using and_65280 [OF a(1)] by simp
qed

lemma v4_words:
  fixes a :: "32 word"
  defines "b \<equiv> unat a div 65536"
  shows "b < 65536" "v4octet a 0 = b div 256" "v4octet a 1 = b mod 256" "v4octet a 2 = unat a div 256 mod 256"
    "unat a div 16777216 = b div 256" "unat a div 1048576 = b div 16" "unat a div 268435456 = b div 4096"
    "unat a div 4194304 = b div 64"
proof -
  have "unat a < 2 ^ 32" using unsigned_less [of a, where ?'a = nat] by simp
  then show b: "b < 65536" by (simp add: b_def less_mult_imp_div_less)
  show "v4octet a 0 = b div 256" using b by (simp add: v4octet_def b_def flip: div_mult2_eq)
  show "v4octet a 1 = b mod 256" "v4octet a 2 = unat a div 256 mod 256" by (simp_all add: v4octet_def b_def)
  show "unat a div 16777216 = b div 256" "unat a div 1048576 = b div 16" "unat a div 268435456 = b div 4096"
    "unat a div 4194304 = b div 64" by (simp_all add: b_def flip: div_mult2_eq)
qed

lemma v6_words:
  fixes a :: "128 word"
  defines "b \<equiv> unat a div 2 ^ 112"
  shows "b < 65536" "v6octet a 0 = b div 256" "v6u16 a 0 = b" "unat a div 2 ^ 121 = b div 512"
    "unat a div 2 ^ 118 = b div 64" "unat a div 2 ^ 120 = b div 256"
proof -
  have "unat a < 2 ^ 128" using unsigned_less [of a, where ?'a = nat] by simp
  then show b: "b < 65536" by (simp add: b_def less_mult_imp_div_less)
  show "v6octet a 0 = b div 256" using b by (simp add: v6octet_def b_def flip: div_mult2_eq)
  show "v6u16 a 0 = b" using b by (simp add: v6u16_def b_def)
  show "unat a div 2 ^ 121 = b div 512" "unat a div 2 ^ 118 = b div 64" "unat a div 2 ^ 120 = b div 256"
    by (simp_all add: b_def flip: div_mult2_eq)
qed

lemma DenyPrivate_None:
  "DenyPrivate ip = None \<longleftrightarrow> ip \<noteq> InvalidAddr \<and> \<not> (IsLoopback (Unmap ip) \<or> IsPrivate (Unmap ip) \<or>
     IsLinkLocalUnicast (Unmap ip) \<or> IsLinkLocalMulticast (Unmap ip) \<or> IsUnspecified (Unmap ip) \<or>
     IsMulticast (Unmap ip) \<or> IsInterfaceLocalMulticast (Unmap ip) \<or> cgnatContains (Unmap ip))"
  by (simp add: DenyPrivate_def Let_def)

lemma DenyMetadata_None:
  "DenyMetadata ip = None \<longleftrightarrow> ip \<noteq> InvalidAddr \<and> \<not> (imdsV6Contains (Unmap ip) \<or>
     IsLinkLocalUnicast (Unmap ip) \<or> IsLinkLocalMulticast (Unmap ip) \<or> IsUnspecified (Unmap ip) \<or>
     IsMulticast (Unmap ip) \<or> IsInterfaceLocalMulticast (Unmap ip) \<or> cgnatContains (Unmap ip))"
  by (auto simp: DenyMetadata_def Let_def)

lemma two_digits: "l < k \<Longrightarrow> (b::nat) div k = h \<and> b mod k = l \<longleftrightarrow> b = k * h + l"
proof
  show "b div k = h \<and> b mod k = l \<Longrightarrow> b = k * h + l" using mult_div_mod_eq [of k b] by auto
qed simp

lemma two_nibbles: "l < 16 \<Longrightarrow> (b::nat) div 256 = h \<and> b mod 256 div 16 = l \<longleftrightarrow> b div 16 = 16 * h + l"
proof -
  assume l: "l < 16"
  have "b div 256 = b div 16 div 16" "b mod 256 div 16 = b div 16 mod 16"
    using mod_mult2_eq [of b 16 16] by (simp_all flip: div_mult2_eq)
  then show ?thesis using two_digits [OF l, of "b div 16" h] by simp
qed

lemma nonPublic_V4:
  "inRanges 32 (unat a) privateV4 \<longleftrightarrow> IsLoopback (V4 a) \<or> IsPrivate (V4 a) \<or>
     IsLinkLocalUnicast (V4 a) \<or> IsLinkLocalMulticast (V4 a) \<or> IsUnspecified (V4 a) \<or>
     IsMulticast (V4 a) \<or> IsInterfaceLocalMulticast (V4 a) \<or> cgnatContains (V4 a)"
proof -
  note w = v4_words [of a]
  let ?b = "unat a div 65536"
  have m1: "?b mod 256 AND 240 = 16 \<longleftrightarrow> ?b mod 256 div 16 = 1" by (simp add: and_240)
  have o: "?b div 256 < 256" using w(1) by (simp add: less_mult_imp_div_less)
  have m2: "?b div 256 AND 240 = 224 \<longleftrightarrow> ?b div 256 div 16 = 14" using and_240 [OF o] by simp
  have 172: "?b div 256 = 172 \<and> ?b mod 256 div 16 = 1 \<longleftrightarrow> ?b div 16 = 2753" by (simp add: two_nibbles)
  have 192: "?b div 256 = 192 \<and> ?b mod 256 = 168 \<longleftrightarrow> ?b = 49320" by (simp add: two_digits)
  have 169: "?b div 256 = 169 \<and> ?b mod 256 = 254 \<longleftrightarrow> ?b = 43518" by (simp add: two_digits)
  have 224: "?b div 256 div 16 = 14 \<longleftrightarrow> ?b div 4096 = 14" by (simp flip: div_mult2_eq)
  have ll: "IsLinkLocalMulticast (V4 a) \<Longrightarrow> ?b div 4096 = 14"
    using w(2) 224 by (simp add: IsLinkLocalMulticast_def)
  have z: "unat a = 0 \<longleftrightarrow> a = 0" by (simp add: unat_eq_0)
  have o1: "v4octet a (Suc 0) = ?b mod 256" using w(3) by simp
  show ?thesis using ll
    by (simp add: inRanges_def privateV4_def IsLoopback_def IsPrivate_def IsLinkLocalUnicast_def IsUnspecified_def IsMulticast_def
        IsInterfaceLocalMulticast_def cgnatContains_def prefix4Contains_def w o1 m1 m2 172 [simplified] 192 169 224 z)
      blast
qed

lemma nonPublic_V6:
  "inRanges 128 (unat a) privateV6 \<or> (a = 0 \<and> z = []) \<longleftrightarrow> IsLoopback (V6 a z) \<or> IsPrivate (V6 a z) \<or>
     IsLinkLocalUnicast (V6 a z) \<or> IsLinkLocalMulticast (V6 a z) \<or> IsUnspecified (V6 a z) \<or>
     IsMulticast (V6 a z) \<or> IsInterfaceLocalMulticast (V6 a z) \<or> cgnatContains (V6 a z)"
proof -
  note w = v6_words [of a]
  let ?b = "unat a div 2 ^ 112"
  have o: "?b div 256 < 256" using w(1) by (simp add: less_mult_imp_div_less)
  have fc: "?b div 256 AND 254 = 252 \<longleftrightarrow> ?b div 512 = 126" using and_254 [OF o] by (simp flip: div_mult2_eq)
  have fe: "?b AND 65472 = 65152 \<longleftrightarrow> ?b div 64 = 1018" using and_65472 [OF w(1)] by simp
  have ll: "IsLinkLocalMulticast (V6 a z) \<or> IsInterfaceLocalMulticast (V6 a z) \<Longrightarrow> ?b div 256 = 255"
    using and_65295 [OF w(1), of 2] and_65295 [OF w(1), of 1] w(3)
    by (auto simp: IsLinkLocalMulticast_def IsInterfaceLocalMulticast_def)
  have one: "unat a = 1 \<longleftrightarrow> a = 1" by (metis unat_1 word_unat_eq_iff)
  have r: "inRanges 128 (unat a) privateV6 \<longleftrightarrow> a = 1 \<or> ?b div 512 = 126 \<or> ?b div 64 = 1018 \<or> ?b div 256 = 255"
    using w(4-6) one by (simp add: inRanges_def privateV6_def)
  have l: "IsLoopback (V6 a z) = (a = 1)" "IsPrivate (V6 a z) = (?b div 512 = 126)" "IsLinkLocalUnicast (V6 a z) = (?b div 64 = 1018)"
    "IsUnspecified (V6 a z) = (a = 0 \<and> z = [])" "IsMulticast (V6 a z) = (?b div 256 = 255)" "\<not> cgnatContains (V6 a z)"
    using w(2,3) fc fe
    by (simp_all add: IsLoopback_def IsPrivate_def IsLinkLocalUnicast_def IsUnspecified_def IsMulticast_def cgnatContains_def prefix4Contains_def)
  show ?thesis unfolding r l(1-5) using ll l(6) by blast
qed

lemma Unmap_valid: "Unmap ip = InvalidAddr \<longleftrightarrow> ip = InvalidAddr"
  by (cases ip) (simp_all add: Unmap_def)

lemma DenyPrivate_nonPublic: "DenyPrivate ip = None \<longleftrightarrow> \<not> nonPublic ip"
proof (cases "Unmap ip")
  case InvalidAddr
  then show ?thesis using Unmap_valid [of ip] by (simp add: DenyPrivate_None nonPublic_def)
next
  case (V4 a)
  then show ?thesis using nonPublic_V4 [of a] Unmap_valid [of ip] by (auto simp: DenyPrivate_None nonPublic_def)
next
  case (V6 a z)
  then show ?thesis using nonPublic_V6 [of a z] Unmap_valid [of ip] by (auto simp: DenyPrivate_None nonPublic_def)
qed

lemma Unmap_mapped4: "Unmap (V6 (mapped4 a) z) = V4 a"
proof -
  have a: "unat a < 2 ^ 32" using unsigned_less [of a, where ?'a = nat] by simp
  have "unat (word_of_nat n :: 128 word) = n" if "n < 2 ^ 128" for n
    using that by (simp add: unsigned_of_nat take_bit_nat_eq_self)
  moreover have "65535 * 2 ^ 32 + unat a < 2 ^ 128" using a by simp
  ultimately have "unat (mapped4 a) = 65535 * 2 ^ 32 + unat a" unfolding mapped4_def by blast
  moreover have "(65535 * 2 ^ 32 + unat a) mod 2 ^ 32 = unat a mod 2 ^ 32" by (rule mod_mult_self3)
  moreover have "(65535 * 2 ^ 32 + unat a) div 2 ^ 32 = 65535" using a by simp
  ultimately show ?thesis using a by (simp add: Unmap_def Is4In6_def)
qed

lemma imds_private: "imdsV6Contains ip \<Longrightarrow> IsPrivate ip"
proof (cases ip)
  case (V6 a z)
  assume "imdsV6Contains ip"
  then have i: "unat a div 2 ^ 96 = 64768 * 2 ^ 16 + 3778" using V6 by (simp add: imdsV6Contains_def prefix6Contains_def)
  have "unat a div 2 ^ 112 = unat a div 2 ^ 96 div 2 ^ 16" by (simp flip: div_mult2_eq)
  then have b: "unat a div 2 ^ 112 = 64768" using i by simp
  have "v6octet a 0 = 253" using v6_words(2) [of a] b by simp
  moreover have "(253::nat) AND 254 = 252" using and_254 [of 253] by simp
  ultimately show ?thesis using V6 by (simp add: IsPrivate_def)
qed (simp_all add: imdsV6Contains_def prefix6Contains_def)

lemma DenyPrivate_Metadata: "DenyPrivate ip = None \<Longrightarrow> DenyMetadata ip = None"
  using imds_private [of "Unmap ip"] by (auto simp: DenyPrivate_None DenyMetadata_None)

section \<open>Facts on fetching\<close>

lemma dialLoop_policy: "dialLoop policy cs fe = Inr ip \<Longrightarrow> policy ip = None \<and> (ip, None) \<in> set cs"
  by (induction policy cs fe rule: dialLoop.induct) (auto split: option.splits)

definition goodAttempt :: "(string \<Rightarrow> string res) \<Rightarrow> Fetcher \<Rightarrow> AttemptWorld \<Rightarrow> string \<Rightarrow> bool" where
  "goodAttempt parseMedia f w body \<longleftrightarrow>
     (\<exists>rs. awDo w = GotResp rs \<and> rStatus rs = 200 \<and> checkMediaType parseMedia f (rHeader rs ''Content-Type'') = None \<and>
       rReadErr rs = None \<and> awWriteErr w = None \<and> awCloseErr w = None \<and> rBody rs = body \<and> int (length body) \<le> fMaxBytes (fcfg f))"

lemma attemptFetch_ok:
  "attemptFetch parse parseMedia f w url path file = (file', None) \<Longrightarrow> \<exists>body. file' = Some body \<and> goodAttempt parseMedia f w body"
  by (auto simp: attemptFetch_def goodAttempt_def Let_def min_def split: option.splits RoundTrip.splits if_splits)

lemma fetchLoop_outcome:
  "fetchLoop parse parseMedia f w url path attempt lastErr None = (file, r) \<Longrightarrow> 1 \<le> attempt \<Longrightarrow>
     (case r of Inl e \<Rightarrow> file = None
      | Inr p \<Rightarrow> p = path \<and> (\<exists>n body. attempt \<le> n \<and> int n \<le> fMaxAttempts (fcfg f) \<and> file = Some body \<and> goodAttempt parseMedia f (w n) body))"
proof (induction "nat (fMaxAttempts (fcfg f) + 1) - attempt" arbitrary: attempt lastErr rule: less_induct)
  case less
  show ?case
  proof (cases "int attempt > fMaxAttempts (fcfg f)")
    case True
    then show ?thesis using less.prems(1) by (subst (asm) fetchLoop.simps) auto
  next
    case False
    obtain file' e where a: "attemptFetch parse parseMedia f (w attempt) url path None = (file', e)" by force
    show ?thesis
    proof (cases e)
      case None
      then have "file = file'" "r = Inr path" using less.prems(1) False a by (subst (asm) fetchLoop.simps, simp)+
      then show ?thesis using attemptFetch_ok a None False by fastforce
    next
      case (Some x)
      let ?again = "fetchLoop parse parseMedia f w url path (attempt + 1) (Some x) None"
      have "(file = None \<and> (\<exists>y. r = Inl y)) \<or> ?again = (file, r)"
        using less.prems(1) False a Some by (subst (asm) fetchLoop.simps) (auto split: if_splits option.splits)
      then show ?thesis
      proof
        assume "?again = (file, r)"
        moreover have "nat (fMaxAttempts (fcfg f) + 1) - (attempt + 1) < nat (fMaxAttempts (fcfg f) + 1) - attempt"
          using False by simp
        ultimately have ih: "case r of Inl e \<Rightarrow> file = None
          | Inr p \<Rightarrow> p = path \<and> (\<exists>n body. attempt + 1 \<le> n \<and> int n \<le> fMaxAttempts (fcfg f) \<and> file = Some body \<and> goodAttempt parseMedia f (w n) body)"
          using less.hyps [of "attempt + 1" "Some x"] less.prems(2) by simp
        show ?thesis
        proof (cases r)
          case (Inr p)
          then show ?thesis using ih by simp (metis Suc_leD)
        qed (use ih in simp)
      qed (auto)
    qed
  qed
qed

lemma extOf_plain: "CHR ''/'' \<notin> set (extOf parse raw) \<and> length (extOf parse raw) \<le> 5"
  by (auto simp: extOf_def Let_def)

text \<open>A transport error keeps the URL in its text through the retries.\<close>

lemma Contains_within: "Contains s t \<Longrightarrow> Contains (x @ s @ y) t"
proof -
  assume "Contains s t"
  then obtain a b where "x @ s @ y = (x @ a) @ t @ (b @ y)" by (auto simp: Contains_iff)
  then show ?thesis unfolding Contains_iff by blast
qed

lemma Contains_wrapf: "Contains (emsg e) t \<Longrightarrow> Contains (emsg (wrapf p e)) t"
  using Contains_within [of "emsg e" t p "[]"] by (simp add: wrapf_def)

lemma Contains_markRetryable: "Contains (emsg e) t \<Longrightarrow> Contains (emsg (markRetryable e)) t"
  using Contains_within [of "emsg e" t "''retryable: ''" "[]"] by (simp add: markRetryable_def wrap2_def sentinelErr_def)

lemma Contains_refl [simp]: "Contains s s"
  unfolding Contains_iff by (metis append_Nil append_Nil2)

lemma urlError_url: "Contains (emsg (urlError url cause)) url"
  using Contains_within [OF Contains_refl, of "''Get '' @ [CHR 0x22]" url "[CHR 0x22] @ '': '' @ emsg cause"]
  by (simp add: urlError_def wrapf_def quoted_def)

lemma fetchLoop_transport:
  assumes "\<forall>n. awRequestErr (w n) = None \<and> (\<exists>cause. awDo (w n) = NetErr cause) \<and> awCtxErr (w n) = None \<and> awBackoff (w n) = None"
    and "(\<exists>e. lastErr = Some e \<and> Contains (emsg e) url) \<or> int attempt \<le> fMaxAttempts (fcfg f)"
  shows "\<exists>e. fetchLoop parse parseMedia f w url path attempt lastErr None = (None, Inl e) \<and> Contains (emsg e) url"
  using assms(2)
proof (induction "nat (fMaxAttempts (fcfg f) + 1) - attempt" arbitrary: attempt lastErr rule: less_induct)
  case less
  show ?case
  proof (cases "int attempt > fMaxAttempts (fcfg f)")
    case True
    then obtain e where "lastErr = Some e" "Contains (emsg e) url" using less.prems by auto
    then show ?thesis using True by (subst fetchLoop.simps) (simp add: Contains_markRetryable Contains_wrapf)
  next
    case False
    obtain cause where d: "awRequestErr (w attempt) = None" "awDo (w attempt) = NetErr cause" "awCtxErr (w attempt) = None"
      "awBackoff (w attempt) = None" using assms(1) by blast
    let ?e = "urlError url cause"
    have a: "attemptFetch parse parseMedia f (w attempt) url path None =
        (None, Some (if Contains (emsg ?e) ''fetch: '' then terminalErr ?e else ?e))"
      using d by (simp add: attemptFetch_def Let_def)
    show ?thesis
    proof (cases "errorsIs (if Contains (emsg ?e) ''fetch: '' then terminalErr ?e else ?e) TerminalErr")
      case True
      then show ?thesis using False a urlError_url by (subst fetchLoop.simps) (auto simp: terminalErr_def)
    next
      case nt: False
      have "nat (fMaxAttempts (fcfg f) + 1) - (attempt + 1) < nat (fMaxAttempts (fcfg f) + 1) - attempt" using False by simp
      from less.hyps [OF this, of "Some (if Contains (emsg ?e) ''fetch: '' then terminalErr ?e else ?e)"]
      show ?thesis using False a nt d urlError_url by (subst fetchLoop.simps) (auto simp: terminalErr_def)
    qed
  qed
qed

section \<open>Properties\<close>

text \<open>
  The default policy accepts exactly the addresses outside the table of loopback, private, link-local,
  unspecified, multicast and shared ranges, after unmapping; an IPv4 address written as a mapped IPv6
  address is judged as the IPv4 address.
\<close>

theorem deny_private_exact:
  "(DenyPrivate ip = None) = (\<not> nonPublic ip) \<and> DenyPrivate (V6 (mapped4 a) z) = DenyPrivate (V4 a)"
  using DenyPrivate_nonPublic by (simp add: DenyPrivate_def Unmap_mapped4) (simp add: Unmap_def)

text \<open>
  C16. Whatever a name resolves to, a connection is only made to an address its policy accepts: never to the
  metadata, link-local, multicast or shared ranges, and to a non-public address only when the operator
  listed the host name.
\<close>

theorem dial_confined:
  assumes "dial f host candidates = Inr ip"
  shows "DenyMetadata ip = None \<and> \<not> imdsV6Contains (Unmap ip) \<and> \<not> IsLinkLocalUnicast (Unmap ip) \<and>
    (nonPublic ip \<longrightarrow> ToLower host \<in> set (hrPrivate (fhosts f))) \<and> (ip, None) \<in> set candidates"
proof -
  have "dialPolicy f host ip = None" "(ip, None) \<in> set candidates"
    using dialLoop_policy assms by (auto simp: dial_def)
  then show ?thesis using DenyPrivate_Metadata DenyPrivate_nonPublic
    by (auto simp: dialPolicy_def DenyMetadata_None split: if_splits)
qed

theorem dial_confined_witness:
  "DenyMetadata (V4 134744072) = None \<and>
   dial (NewFetcher \<lparr>fAllowHosts = [], fAllowPrivateHosts = [], fMaxBytes = 0, fTimeout = 0, fMaxAttempts = 0, fAllowedMediaTypes = []\<rparr>)
     ''h'' [(V4 2130706433, None), (V4 134744072, None)] = Inr (V4 134744072)"
proof -
  have "dial (NewFetcher \<lparr>fAllowHosts = [], fAllowPrivateHosts = [], fMaxBytes = 0, fTimeout = 0, fMaxAttempts = 0, fAllowedMediaTypes = []\<rparr>)
     ''h'' [(V4 2130706433, None), (V4 134744072, None)] = Inr (V4 134744072)"
    by (simp add: dial_def dialPolicy_def NewFetcher_def Let_def lowerSet_def DenyPrivate_def Unmap_def IsLoopback_def v4octet_def
        IsPrivate_def IsLinkLocalUnicast_def IsLinkLocalMulticast_def IsUnspecified_def IsMulticast_def IsInterfaceLocalMulticast_def
        cgnatContains_def prefix4Contains_def and_240)
  then show ?thesis using dial_confined by blast
qed

text \<open>
  C17. A fetch that succeeds leaves exactly the body of one 200 response of an allowed media type, complete and
  within the size limit, in a file directly inside the given directory, within the configured attempts and for
  a URL the host rules accept. A fetch that fails leaves no file.
\<close>

theorem fetch_outcome:
  "case FetchURL parse parseMedia f w rawURL dir of
     (file, Inl e) \<Rightarrow> file = None
   | (file, Inr path) \<Rightarrow>
       (\<exists>name u n body. path = dir @ ''/'' @ name \<and> CHR ''/'' \<notin> set name \<and>
          validateURL parse rawURL (fhosts f) (allowScheme f) = Inr u \<and>
          1 \<le> n \<and> int n \<le> fMaxAttempts (fcfg f) \<and> file = Some body \<and> goodAttempt parseMedia f (w n) body)"
proof (cases "validateURL parse rawURL (fhosts f) (allowScheme f)")
  case (Inr u)
  obtain out r where fr: "FetchURL parse parseMedia f w rawURL dir = (out, r)" by force
  then have l: "fetchLoop parse parseMedia f w (URL_String u) (fetchPath parse rawURL dir) 1 None None = (out, r)"
    using Inr by (simp add: FetchURL_def)
  have p: "\<exists>name. fetchPath parse rawURL dir = dir @ ''/'' @ name \<and> CHR ''/'' \<notin> set name"
    using extOf_plain by (intro exI [of _ "''source'' @ extOf parse rawURL"]) (simp add: fetchPath_def)
  show ?thesis using fetchLoop_outcome [OF l] fr Inr p by (cases r) auto
qed (simp add: FetchURL_def)

text \<open>
  The recorded reference does not depend on the query, the fragment or the user information of the URL, so
  a presigned credential cannot reach it; a text that does not parse records nothing.
\<close>

theorem redact_independent:
  assumes "parse (TrimSpace raw) = Inr u"
    and "parse (TrimSpace raw') = Inr (u\<lparr>uRawQuery := q, uForceQuery := fq, uFragment := fr, uUser := usr\<rparr>)"
  shows "fst (Redact parse raw) = fst (Redact parse raw') \<and>
    fst (Redact (\<lambda>_. Inl e) raw) = [] \<and> snd (Redact parse raw) = hex_encode (sha256 raw)"
  using assms by (simp add: Redact_def Let_def)

definition demoURL :: "string \<Rightarrow> URL" where
  "demoURL q = \<lparr>uScheme = ''https'', uOpaque = [], uUser = None, uHost = ''h'', uHostname = ''h'', uPath = ''/a.png'',
     uOmitHost = False, uForceQuery = False, uRawQuery = q, uFragment = []\<rparr>"

theorem redact_independent_witness:
  "fst (Redact (\<lambda>s. Inr (demoURL s)) ''x'') = fst (Redact (\<lambda>s. Inr (demoURL s)) ''y'')"
  using redact_independent [where parse = "\<lambda>s. Inr (demoURL s)" and raw = "''x''" and u = "demoURL ''x''" and raw' = "''y''" and q = "''y''" and
    fq = False and fr = "[]" and usr = None]
  by (simp add: demoURL_def TrimSpace_def is_space_def Let_def)

text \<open>A fetch whose attempts all fail in the transport returns an error whose text contains the full URL, query
  string included.\<close>

lemma transport_error_carries_url:
  assumes "validateURL parse rawURL (fhosts f) (allowScheme f) = Inr u" "1 \<le> fMaxAttempts (fcfg f)"
    and "\<forall>n. awRequestErr (w n) = None \<and> (\<exists>cause. awDo (w n) = NetErr cause) \<and> awCtxErr (w n) = None \<and> awBackoff (w n) = None"
  shows "\<exists>e. FetchURL parse parseMedia f w rawURL dir = (None, Inl e) \<and> Contains (emsg e) (URL_String u)"
  using fetchLoop_transport [OF assms(3), of None "URL_String u" 1 f] assms(1,2) by (simp add: FetchURL_def)

definition demoFetcher :: Fetcher where
  "demoFetcher = NewFetcher \<lparr>fAllowHosts = [], fAllowPrivateHosts = [], fMaxBytes = 0, fTimeout = 0, fMaxAttempts = 1, fAllowedMediaTypes = []\<rparr>"

definition timeoutWorld :: AttemptWorld where
  "timeoutWorld = \<lparr>awRequestErr = None, awDo = NetErr (errorf ''i/o timeout''), awRetryWait = None, awOpenErr = None,
     awWriteErr = None, awCloseErr = None, awCtxErr = None, awBackoff = None\<rparr>"

lemma demo_valid: "validateURL (\<lambda>_. Inr (demoURL q)) raw (fhosts demoFetcher) (allowScheme demoFetcher) = Inr (demoURL q)"
  by (simp add: validateURL_def demoURL_def demoFetcher_def NewFetcher_def Let_def permits_def lowerSet_def ToLower_def)

lemma demo_url: "URL_String (demoURL q) = ''https://h/a.png'' @ (if q = [] then [] else ''?'' @ q)"
  by (simp add: URL_String_def demoURL_def)

end
