(* ===== verification/Thresholds.thy ===== *)
theory Thresholds
  imports Moderation
begin

text \<open>
  Per-category decision boundaries (\<open>internal/config/config.go\<close>): the merged threshold map, the one
  resolution path \<open>ResolveFor\<close>, and the folding of provider-label thresholds into the map at load time.
  The lemmas give the precedence chain label > category > default field by field, what each provider
  mode leaves in the merged map, and that an unarmed label keeps no boundary.
\<close>

section \<open>The threshold map\<close>

record CategoryThreshold =
  FlagAt :: "float64 option"
  BlockAt :: "float64 option"

type_synonym Thresholds = "(string \<times> CategoryThreshold) list"

definition emptyThreshold :: CategoryThreshold where
  "emptyThreshold = \<lparr>FlagAt = None, BlockAt = None\<rparr>"

abbreviation "ProviderModeOff \<equiv> ''off''"
abbreviation "ProviderModeHybrid \<equiv> ''hybrid''"
abbreviation "ProviderModeOverride \<equiv> ''override''"

abbreviation "providerLabelPrefix \<equiv> ''label:''"

definition ProviderLabelKey :: "string \<Rightarrow> string" where
  "ProviderLabelKey label = providerLabelPrefix @ ToLower label"

record ProviderThresholds =
  Mode :: string
  Labels :: Thresholds
  UnarmedLabels :: "string list"

text \<open>A range loop that assigns every entry of one map into another.\<close>

definition putAll :: "('k \<times> 'v) list \<Rightarrow> ('k \<times> 'v) list \<Rightarrow> ('k \<times> 'v) list" where
  "putAll src out = foldl (\<lambda>m kv. AList.update (fst kv) (snd kv) m) out src"

definition withUnarmed :: "ProviderThresholds \<Rightarrow> Thresholds" where
  "withUnarmed p =
     putAll (map (\<lambda>name. (ToLower (TrimSpace name), emptyThreshold)) (UnarmedLabels p))
       (putAll (Labels p) [])"

definition EqualFold :: "string \<Rightarrow> string \<Rightarrow> bool" where
  "EqualFold a b \<longleftrightarrow> ToLower a = ToLower b"

definition normalized :: "Thresholds \<Rightarrow> Thresholds" where
  "normalized t =
     putAll (map (\<lambda>(k, v). (if EqualFold k ''default'' then ''default'' else ToUpper k, v)) t) []"

definition Merge :: "Thresholds \<Rightarrow> ProviderThresholds \<Rightarrow> Thresholds" where
  "Merge t p =
     (let mode0 = ToLower (TrimSpace (Mode p));
          mode = (if mode0 = [] then ProviderModeOff else mode0);
          out1 = (if mode \<noteq> ProviderModeOverride then putAll t [] else [])
      in if mode \<noteq> ProviderModeOff
         then putAll (map (\<lambda>label. (ProviderLabelKey label, emptyThreshold)) (UnarmedLabels p))
                (putAll (map (\<lambda>(label, v). (ProviderLabelKey label, v)) (Labels p)) out1)
         else out1)"

section \<open>Resolution\<close>

fun applyChain :: "CategoryThreshold \<Rightarrow> CategoryThreshold list \<Rightarrow> CategoryThreshold" where
  "applyChain out [] = out"
| "applyChain out (c # cs) =
     applyChain
       \<lparr>FlagAt = (case FlagAt out of None \<Rightarrow> FlagAt c | Some f \<Rightarrow> Some f),
        BlockAt = (case BlockAt out of None \<Rightarrow> BlockAt c | Some b \<Rightarrow> Some b)\<rparr> cs"

definition ResolveFor :: "Thresholds \<Rightarrow> Category \<Rightarrow> string \<Rightarrow> CategoryThreshold" where
  "ResolveFor t cat providerLabel =
     applyChain emptyThreshold
       ((if providerLabel \<noteq> []
         then (case map_of t (ProviderLabelKey providerLabel) of None \<Rightarrow> [] | Some v \<Rightarrow> [v])
         else [])
        @ (case map_of t cat of None \<Rightarrow> [] | Some v \<Rightarrow> [v])
        @ [case map_of t ''default'' of None \<Rightarrow> emptyThreshold | Some v \<Rightarrow> v])"

definition Resolve :: "Thresholds \<Rightarrow> Category \<Rightarrow> CategoryThreshold" where
  "Resolve t cat = ResolveFor t cat []"

section \<open>Validation of the provider section\<close>

datatype thresholdError =
    BadProviderMode string
  | OverrideWithoutLabels
  | LabelsWithoutMode
  | ArmedAndUnarmed string
  | LabelOutOfRange string

definition outsideUnit :: "float64 option \<Rightarrow> bool" where
  "outsideUnit p = (case p of None \<Rightarrow> False | Some x \<Rightarrow> f64_lt x (Fin 0) \<or> f64_lt (Fin 1) x)"

definition firstBad :: "('a \<Rightarrow> bool) \<Rightarrow> ('a \<Rightarrow> 'e) \<Rightarrow> 'a list \<Rightarrow> 'e option" where
  "firstBad P mk xs = map_option mk (List.find P xs)"

definition validateProviderThresholds :: "ProviderThresholds \<Rightarrow> thresholdError option" where
  "validateProviderThresholds p =
     (let mode = ToLower (TrimSpace (Mode p)) in
      if mode \<notin> {[], ProviderModeOff, ProviderModeHybrid, ProviderModeOverride}
      then Some (BadProviderMode (Mode p))
      else if mode = ProviderModeOverride \<and> Labels p = [] then Some OverrideWithoutLabels
      else if mode = [] \<or> mode = ProviderModeOff
      then (if Labels p \<noteq> [] \<or> UnarmedLabels p \<noteq> [] then Some LabelsWithoutMode else None)
      else case firstBad (\<lambda>name. map_of (Labels p) (ToLower name) \<noteq> None) ArmedAndUnarmed
                  (UnarmedLabels p) of
             Some e \<Rightarrow> Some e
           | None \<Rightarrow> firstBad (\<lambda>kv. outsideUnit (FlagAt (snd kv)) \<or> outsideUnit (BlockAt (snd kv)))
                       (\<lambda>kv. LabelOutOfRange (fst kv)) (Labels p))"

text \<open>The last two statements of \<open>Load\<close>: unarmed labels join the label map, then everything merges.\<close>

definition loadThresholds :: "Thresholds \<Rightarrow> ProviderThresholds \<Rightarrow> Thresholds" where
  "loadThresholds t p = Merge t (p\<lparr>Labels := withUnarmed p\<rparr>)"

section \<open>Facts\<close>

fun orElse :: "'a option \<Rightarrow> 'a option \<Rightarrow> 'a option" where
  "orElse (Some x) y = Some x"
| "orElse None y = y"

definition fieldOf :: "(CategoryThreshold \<Rightarrow> float64 option) \<Rightarrow> Thresholds \<Rightarrow> string \<Rightarrow> float64 option" where
  "fieldOf f t k = Option.bind (map_of t k) f"

lemma orElse_None [simp]: "orElse x None = x"
  by (cases x) auto

lemma orElse_assoc: "orElse (orElse x y) z = orElse x (orElse y z)"
  by (cases x) auto

lemma applyChain_fields:
  "FlagAt (applyChain out cs) = foldl orElse (FlagAt out) (map FlagAt cs)"
  "BlockAt (applyChain out cs) = foldl orElse (BlockAt out) (map BlockAt cs)"
  by (induction out cs rule: applyChain.induct) (auto split: option.splits)

lemma ResolveFor_fields:
  "FlagAt (ResolveFor t cat l) =
     orElse (if l = [] then None else fieldOf FlagAt t (ProviderLabelKey l))
       (orElse (fieldOf FlagAt t cat) (fieldOf FlagAt t ''default''))"
  "BlockAt (ResolveFor t cat l) =
     orElse (if l = [] then None else fieldOf BlockAt t (ProviderLabelKey l))
       (orElse (fieldOf BlockAt t cat) (fieldOf BlockAt t ''default''))"
  by (auto simp: ResolveFor_def applyChain_fields emptyThreshold_def fieldOf_def orElse_assoc
      split: option.splits)

lemma map_of_putAll: "map_of (putAll src out) = map_of out ++ map_of (rev src)"
proof (induction src arbitrary: out)
  case Nil
  then show ?case by (simp add: putAll_def)
next
  case (Cons kv src)
  obtain k v where kv: "kv = (k, v)" by (cases kv)
  have "map_of (putAll (kv # src) out) = map_of (AList.update k v out) ++ map_of (rev src)"
    using Cons by (simp add: putAll_def kv)
  also have "\<dots> = map_of out ++ map_of (rev (kv # src))"
    by (simp add: kv update_conv' map_add_def fun_eq_iff split: option.splits)
  finally show ?case .
qed

lemma map_of_putAll_distinct:
  "distinct (map fst src) \<Longrightarrow> map_of (putAll src []) = map_of src"
  by (simp add: map_of_putAll map_of_rev_distinct)


lemma map_of_const_rev:
  "map_of (rev (map (\<lambda>n. (f n, c)) ns)) k = (if k \<in> f ` set ns then Some c else None)"
  by (induction ns) (auto simp: map_add_def split: option.splits)

lemma ProviderLabelKey_eq [simp]:
  "ProviderLabelKey a = ProviderLabelKey b \<longleftrightarrow> ToLower a = ToLower b"
  by (simp add: ProviderLabelKey_def)

lemma map_of_label_entries:
  "\<forall>k \<in> fst ` set L. ToLower k = k \<Longrightarrow>
   map_of (map (\<lambda>(l, v). (ProviderLabelKey l, v)) L) (ProviderLabelKey k) = map_of L (ToLower k)"
  by (induction L) auto

lemma label_not_category: "cat \<in> set canonicalCategories \<Longrightarrow> cat \<noteq> ProviderLabelKey l"
  by (auto simp: canonicalCategories_def ProviderLabelKey_def)

lemma label_not_default: "''default'' \<noteq> ProviderLabelKey l"
  by (simp add: ProviderLabelKey_def)

lemma distinct_label_entries:
  "distinct (map fst L) \<Longrightarrow> \<forall>k \<in> fst ` set L. ToLower k = k \<Longrightarrow>
   distinct (map fst (map (\<lambda>(l, v). (ProviderLabelKey l, v)) L))"
proof -
  assume L: "distinct (map fst L)" "\<forall>k \<in> fst ` set L. ToLower k = k"
  have "map fst (map (\<lambda>(l, v). (ProviderLabelKey l, v)) L) = map ProviderLabelKey (map fst L)"
    by auto
  moreover have "inj_on ProviderLabelKey (set (map fst L))"
    using L(2) by (auto simp: inj_on_def)
  ultimately show ?thesis using L(1) by (simp only: distinct_map)
qed

definition effectiveMode :: "ProviderThresholds \<Rightarrow> string" where
  "effectiveMode p =
     (let m = ToLower (TrimSpace (Mode p)) in if m = [] then ProviderModeOff else m)"

lemma map_of_Merge:
  "map_of (Merge t p) =
     (let base = (if effectiveMode p = ProviderModeOverride then Map.empty
                  else map_of (putAll t []))
      in if effectiveMode p = ProviderModeOff then base
         else base ++ map_of (rev (map (\<lambda>(l, v). (ProviderLabelKey l, v)) (Labels p)))
               ++ map_of (rev (map (\<lambda>l. (ProviderLabelKey l, emptyThreshold)) (UnarmedLabels p))))"
  by (simp add: Merge_def effectiveMode_def Let_def map_of_putAll)

lemma Merge_label:
  assumes "effectiveMode p \<noteq> ProviderModeOff"
    and "distinct (map fst (Labels p))" and "\<forall>k \<in> fst ` set (Labels p). ToLower k = k"
    and "ToLower l \<notin> ToLower ` set (UnarmedLabels p)"
    and "map_of (Labels p) (ToLower l) = Some v"
  shows "map_of (Merge t p) (ProviderLabelKey l) = Some v"
proof -
  have "map_of (rev (map (\<lambda>(l, v). (ProviderLabelKey l, v)) (Labels p))) (ProviderLabelKey l) = Some v"
    using assms by (simp add: map_of_rev_distinct[OF distinct_label_entries] map_of_label_entries)
  moreover have "ProviderLabelKey l \<notin> ProviderLabelKey ` set (UnarmedLabels p)"
    using assms(4) by auto
  ultimately show ?thesis
    using assms(1) by (simp add: map_of_Merge Let_def map_add_def map_of_const_rev)
qed

lemma Merge_label_none:
  assumes "effectiveMode p = ProviderModeOverride"
    and "ToLower l \<notin> ToLower ` fst ` set (Labels p)" and "ToLower l \<notin> ToLower ` set (UnarmedLabels p)"
  shows "map_of (Merge t p) (ProviderLabelKey l) = None"
proof -
  have "map_of (rev (map (\<lambda>(l, v). (ProviderLabelKey l, v)) (Labels p))) (ProviderLabelKey l) = None"
    using assms(2) by (auto simp: map_of_eq_None_iff image_iff)
  moreover have "ProviderLabelKey l \<notin> ProviderLabelKey ` set (UnarmedLabels p)"
    using assms(3) by auto
  ultimately show ?thesis
    using assms(1) by (simp add: map_of_Merge Let_def map_add_def map_of_const_rev)
qed

lemma Merge_override_other:
  assumes "effectiveMode p = ProviderModeOverride" and "\<And>l. k \<noteq> ProviderLabelKey l"
  shows "map_of (Merge t p) k = None"
proof -
  have "map_of (rev (map (\<lambda>(l, v). (ProviderLabelKey l, v)) (Labels p))) k = None"
    using assms(2) by (force simp del: ProviderLabelKey_eq simp: map_of_eq_None_iff)
  moreover have "k \<notin> ProviderLabelKey ` set (UnarmedLabels p)"
    using assms(2) by auto
  ultimately show ?thesis
    using assms(1) by (simp add: map_of_Merge Let_def map_add_def map_of_const_rev)
qed

lemma ResolveFor_unarmed:
  assumes "map_of t (ProviderLabelKey l) = Some emptyThreshold" and "map_of t cat = None"
    and "map_of t ''default'' = None"
  shows "ResolveFor t cat l = emptyThreshold"
  using assms by (simp add: ResolveFor_def emptyThreshold_def)

lemma ResolveFor_empty:
  assumes "map_of t (ProviderLabelKey l) = None" and "map_of t cat = None"
    and "map_of t ''default'' = None"
  shows "ResolveFor t cat l = emptyThreshold"
  using assms by (simp add: ResolveFor_def emptyThreshold_def)

lemma withUnarmed_lookup:
  assumes "distinct (map fst (Labels p))"
  shows "map_of (withUnarmed p) k =
    (if k \<in> (\<lambda>n. ToLower (TrimSpace n)) ` set (UnarmedLabels p) then Some emptyThreshold
     else map_of (Labels p) k)"
  using assms
  by (simp add: withUnarmed_def map_of_putAll map_of_rev_distinct map_add_def map_of_const_rev)

lemma putAll_keys:
  "fst ` set (putAll src out) = fst ` set src \<union> fst ` set out"
proof -
  have "dom (map_of (putAll src out)) = dom (map_of src) \<union> dom (map_of out)"
    by (auto simp: map_of_putAll dom_map_of_conv_image_fst)
  then show ?thesis by (simp add: dom_map_of_conv_image_fst)
qed

lemma putAll_distinct:
  "distinct (map fst out) \<Longrightarrow> distinct (map fst (putAll src out))"
  by (induction src arbitrary: out) (auto simp: putAll_def distinct_update)

lemma withUnarmed_wf:
  "distinct (map fst (withUnarmed p))"
  "\<forall>k \<in> fst ` set (Labels p). ToLower k = k \<Longrightarrow> \<forall>k \<in> fst ` set (withUnarmed p). ToLower k = k"
  by (simp add: withUnarmed_def putAll_distinct) (auto simp: withUnarmed_def putAll_keys image_iff)

section \<open>Properties\<close>

text \<open>\<open>ResolveFor\<close> follows the chain provider label, then category, then \<open>default\<close>, field by
  field: each of flag_at and block_at is the first one set along the chain, so a label that sets only
  one field inherits the other. An empty provider label skips the label rung.\<close>

theorem resolve_precedence:
  "ResolveFor t cat l =
     \<lparr>FlagAt = orElse (if l = [] then None else fieldOf FlagAt t (ProviderLabelKey l))
        (orElse (fieldOf FlagAt t cat) (fieldOf FlagAt t ''default'')),
      BlockAt = orElse (if l = [] then None else fieldOf BlockAt t (ProviderLabelKey l))
        (orElse (fieldOf BlockAt t cat) (fieldOf BlockAt t ''default''))\<rparr>"
  by (rule CategoryThreshold.equality) (simp_all add: ResolveFor_fields)

text \<open>In override mode the merged map holds provider labels only: for a label with no entry, no
  category and no default threshold survives, so the resolution of any canonical category under that
  label has neither flag_at nor block_at, whatever the category map said.\<close>

theorem override_drops_categories:
  assumes "effectiveMode p = ProviderModeOverride"
    and "ToLower l \<notin> ToLower ` fst ` set (Labels p)" and "ToLower l \<notin> ToLower ` set (UnarmedLabels p)"
  shows "ResolveFor (Merge t p) (Canonicalize c) l = emptyThreshold"
proof (rule ResolveFor_empty)
  show "map_of (Merge t p) (ProviderLabelKey l) = None"
    using assms by (rule Merge_label_none)
  show "map_of (Merge t p) (Canonicalize c) = None"
    using assms(1) label_not_category[OF Canonicalize_in] by (rule Merge_override_other)
  show "map_of (Merge t p) ''default'' = None"
    using assms(1) label_not_default by (rule Merge_override_other)
qed

theorem override_drops_categories_witness:
  "ResolveFor
     (Merge [(''default'', \<lparr>FlagAt = Some (Fin (1/2)), BlockAt = Some (Fin (4/5))\<rparr>)]
       \<lparr>Mode = ''Override '', Labels = [(''dangerous_content'',
          \<lparr>FlagAt = Some (Fin (1/2)), BlockAt = None\<rparr>)], UnarmedLabels = []\<rparr>)
     (Canonicalize CategorySexual) ''sexually_explicit'' = emptyThreshold"
  by (rule override_drops_categories)
    (simp_all add: effectiveMode_def string_eval)

text \<open>Folding unarmed labels in at load time keeps every armed label armed, when the unarmed names
  carry no surrounding white space: a configuration that validation accepts, with keys lower-cased as
  the configuration reader delivers them, resolves every configured label to exactly the boundaries
  written for it.\<close>

theorem load_keeps_armed_labels:
  assumes "validateProviderThresholds p = None"
    and "distinct (map fst (Labels p))" and "\<forall>k \<in> fst ` set (Labels p). ToLower k = k"
    and "\<forall>n \<in> set (UnarmedLabels p). TrimSpace n = n"
    and "map_of (Labels p) (ToLower l) = Some v"
  shows "map_of (loadThresholds t p) (ProviderLabelKey l) = Some v"
proof -
  let ?q = "p\<lparr>Labels := withUnarmed p\<rparr>"
  have nonempty: "Labels p \<noteq> []" using assms(5) by auto
  have mode: "effectiveMode ?q \<noteq> ProviderModeOff"
    using assms(1) nonempty
    by (auto simp: validateProviderThresholds_def effectiveMode_def Let_def split: if_splits)
  have armed: "ToLower n \<noteq> ToLower l" if "n \<in> set (UnarmedLabels p)" for n
    using assms(1,5) that nonempty
    by (auto simp: validateProviderThresholds_def Let_def firstBad_def find_None_iff
        split: if_splits option.splits)
  have l: "ToLower l \<notin> ToLower ` set (UnarmedLabels p)"
    using armed by force
  have l': "ToLower l \<notin> (\<lambda>n. ToLower (TrimSpace n)) ` set (UnarmedLabels p)"
    using armed assms(4) by force
  have "map_of (Merge t ?q) (ProviderLabelKey l) = Some v"
  proof (rule Merge_label[OF mode])
    show "map_of (Labels ?q) (ToLower l) = Some v"
      using assms(2,5) l' by (simp add: withUnarmed_lookup)
    show "\<forall>k \<in> fst ` set (Labels ?q). ToLower k = k"
      using withUnarmed_wf(2)[OF assms(3)] by simp
  qed (simp_all add: l withUnarmed_wf(1))
  then show ?thesis by (simp add: loadThresholds_def)
qed

theorem load_keeps_armed_labels_witness:
  "map_of (loadThresholds []
     \<lparr>Mode = ''hybrid'', Labels = [(''yes_gun'', \<lparr>FlagAt = Some (Fin (1/2)), BlockAt = None\<rparr>)],
      UnarmedLabels = [''yes_pills'']\<rparr>) (ProviderLabelKey ''yes_GUN'')
   = Some \<lparr>FlagAt = Some (Fin (1/2)), BlockAt = None\<rparr>"
  by (rule load_keeps_armed_labels)
    (simp_all add: validateProviderThresholds_def firstBad_def outsideUnit_def string_eval)

text \<open>The duplicate check of \<open>validateProviderThresholds\<close> compares the unarmed name without trimming
  it, while \<open>withUnarmed\<close> trims: a name written with a leading space passes validation beside the same
  label armed with flag_at and block_at, and after load the label resolves to no boundary at all.\<close>

theorem padded_unarmed_label_disarms:
  "\<exists>p v. validateProviderThresholds p = None \<and> Mode p = ''override'' \<and>
     map_of (Labels p) ''yes_gun'' = Some v \<and> FlagAt v \<noteq> None \<and> BlockAt v \<noteq> None \<and>
     (\<forall>t c. ResolveFor (loadThresholds t p) (Canonicalize c) ''yes_gun'' = emptyThreshold)"
proof -
  let ?v = "\<lparr>FlagAt = Some (Fin (1/2)), BlockAt = Some (Fin (9/10))\<rparr>"
  let ?p = "\<lparr>Mode = ''override'', Labels = [(''yes_gun'', ?v)], UnarmedLabels = ['' yes_gun'']\<rparr>"
  let ?q = "?p\<lparr>Labels := withUnarmed ?p\<rparr>"
  have mode: "effectiveMode ?q = ProviderModeOverride"
    by (simp add: effectiveMode_def string_eval)
  have valid: "validateProviderThresholds ?p = None"
    by (simp add: validateProviderThresholds_def firstBad_def outsideUnit_def string_eval)
  have "map_of (loadThresholds t ?p) (ProviderLabelKey ''yes_gun'') = Some emptyThreshold" for t
    unfolding loadThresholds_def
  proof (rule Merge_label)
    show "map_of (Labels ?q) (ToLower ''yes_gun'') = Some emptyThreshold"
      by (simp add: withUnarmed_lookup string_eval)
    show "\<forall>k \<in> fst ` set (Labels ?q). ToLower k = k"
      using withUnarmed_wf(2)[of ?p] by (simp add: string_eval)
    show "ToLower ''yes_gun'' \<notin> ToLower ` set (UnarmedLabels ?q)"
      by (simp add: string_eval)
  qed (use mode withUnarmed_wf(1) in simp_all)
  moreover have "map_of (loadThresholds t ?p) (Canonicalize c) = None"
    "map_of (loadThresholds t ?p) ''default'' = None" for t c
    unfolding loadThresholds_def
    using Merge_override_other[OF mode label_not_category[OF Canonicalize_in]]
      Merge_override_other[OF mode label_not_default] by auto
  ultimately have "ResolveFor (loadThresholds t ?p) (Canonicalize c) ''yes_gun'' = emptyThreshold" for t c
    by (rule ResolveFor_unarmed)
  with valid show ?thesis by (intro exI[of _ ?p] exI[of _ ?v]) simp
qed

end
