(* ===== verification/Rollup.thy ===== *)
theory Rollup
  imports Thresholds
begin

text \<open>
  Thresholding and the asset-level rollup (\<open>internal/pipeline/rollup.go\<close>). \<open>rollupLoop\<close> is the body
  of the two nested loops with its six accumulators as a record; \<open>Rollup\<close> is the verdict switch after
  it. The lemmas read the accumulators off declaratively (\<open>any\<close> and \<open>max\<close> over the frames), which is
  what the verdict theorems rest on.
\<close>

section \<open>Definitions\<close>

definition reaches :: "float64 option \<Rightarrow> float64 option \<Rightarrow> bool" where
  "reaches s bound =
     (case (s, bound) of (Some x, Some b) \<Rightarrow> f64_le b x | _ \<Rightarrow> False)"

definition ApplyThresholds :: "CategoryResult list \<Rightarrow> Thresholds \<Rightarrow> CategoryResult list" where
  "ApplyThresholds cats th =
     map (\<lambda>c. let resolved = ResolveFor th (Canonicalize (crCategory c)) (ProviderLabel c)
              in c\<lparr>Threshold := FlagAt resolved, Flagged := reaches (Score c) (FlagAt resolved)\<rparr>)
       cats"

record rollupAcc =
  anyError :: bool
  okFrames :: nat
  anyFlagged :: bool
  block :: bool
  maxScore :: "float64 option"
  topCat :: "Category option"

definition acc0 :: rollupAcc where
  "acc0 = \<lparr>anyError = False, okFrames = 0, anyFlagged = False, block = False,
     maxScore = None, topCat = None\<rparr>"

definition newMax :: "float64 option \<Rightarrow> float64 \<Rightarrow> bool" where
  "newMax m s = (case m of None \<Rightarrow> True | Some x \<Rightarrow> f64_lt x s)"

definition rollupCat :: "Thresholds \<Rightarrow> rollupAcc \<Rightarrow> CategoryResult \<Rightarrow> rollupAcc" where
  "rollupCat th a c =
     (let a1 = (if Flagged c then a\<lparr>anyFlagged := True\<rparr> else a) in
      case Score c of
        None \<Rightarrow> a1
      | Some s \<Rightarrow>
          let a2 = (if newMax (maxScore a1) s
                    then a1\<lparr>maxScore := Some s, topCat := Some (crCategory c)\<rparr> else a1);
              resolved = ResolveFor th (Canonicalize (crCategory c)) (ProviderLabel c)
          in if reaches (Some s) (BlockAt resolved) then a2\<lparr>block := True\<rparr> else a2)"

definition rollupFrame :: "Thresholds \<Rightarrow> rollupAcc \<Rightarrow> FrameResult \<Rightarrow> rollupAcc" where
  "rollupFrame th a f =
     (if Status f \<noteq> FrameOK then a\<lparr>anyError := True\<rparr>
      else foldl (rollupCat th) (a\<lparr>okFrames := Suc (okFrames a)\<rparr>) (Categories f))"

definition rollupLoop :: "FrameResult list \<Rightarrow> Thresholds \<Rightarrow> rollupAcc" where
  "rollupLoop fs th = foldl (rollupFrame th) acc0 fs"

definition Rollup :: "FrameResult list \<Rightarrow> Thresholds \<Rightarrow> OverallVerdict" where
  "Rollup fs th =
     (let a = rollupLoop fs th;
          verdict = (if block a then VerdictBlock
                     else if anyError a \<or> okFrames a = 0 \<or> maxScore a = None then VerdictError
                     else if anyFlagged a then VerdictFlag
                     else VerdictAllow)
      in \<lparr>ovVerdict = verdict, ovFlagged = anyFlagged a, TopCategory = topCat a,
          MaxScore = maxScore a, Confidence = maxScore a\<rparr>)"

section \<open>Declarative reading of the accumulators\<close>

definition okFrame :: "FrameResult \<Rightarrow> bool" where
  "okFrame f \<longleftrightarrow> Status f = FrameOK"

text \<open>The categories the loop looks at, in order.\<close>

definition okCats :: "FrameResult list \<Rightarrow> CategoryResult list" where
  "okCats fs = concat (map Categories (filter okFrame fs))"

definition blocks :: "Thresholds \<Rightarrow> CategoryResult \<Rightarrow> bool" where
  "blocks th c \<longleftrightarrow>
     reaches (Score c) (BlockAt (ResolveFor th (Canonicalize (crCategory c)) (ProviderLabel c)))"

definition scored :: "CategoryResult \<Rightarrow> bool" where
  "scored c \<longleftrightarrow> Score c \<noteq> None"

definition numericScores :: "CategoryResult list \<Rightarrow> bool" where
  "numericScores cs \<longleftrightarrow> (\<forall>c \<in> set cs. Score c \<noteq> Some NaN)"

text \<open>A frame with one scored category, for the worked examples.\<close>

definition sampleFrame :: "string \<Rightarrow> rat \<Rightarrow> FrameResult" where
  "sampleFrame cat s = \<lparr>TimestampSec = None, Status = FrameOK, frError = [],
     Categories = [\<lparr>crCategory = cat, ProviderLabel = cat, Score = Some (Fin s),
       crScoreOrigin = OriginProbability, Threshold = None, Flagged = False\<rparr>]\<rparr>"

lemma reaches_None [simp]: "\<not> reaches None b" "\<not> reaches s None"
  by (auto simp: reaches_def split: option.splits)

lemma reaches_Some: "reaches s b \<longleftrightarrow> (\<exists>x y. s = Some x \<and> b = Some y \<and> f64_le y x)"
  by (auto simp: reaches_def split: option.splits)

lemma rollupCat_simps:
  "anyError (rollupCat th a c) = anyError a"
  "okFrames (rollupCat th a c) = okFrames a"
  "anyFlagged (rollupCat th a c) = (anyFlagged a \<or> Flagged c)"
  "block (rollupCat th a c) = (block a \<or> blocks th c)"
  "maxScore (rollupCat th a c) =
     (case Score c of None \<Rightarrow> maxScore a
      | Some s \<Rightarrow> if newMax (maxScore a) s then Some s else maxScore a)"
  "topCat (rollupCat th a c) =
     (case Score c of None \<Rightarrow> topCat a
      | Some s \<Rightarrow> if newMax (maxScore a) s then Some (crCategory c) else topCat a)"
  by (auto simp: rollupCat_def Let_def blocks_def split: option.splits)

lemma fold_cats_simps:
  "anyError (foldl (rollupCat th) a cs) = anyError a"
  "okFrames (foldl (rollupCat th) a cs) = okFrames a"
  "anyFlagged (foldl (rollupCat th) a cs) = (anyFlagged a \<or> list_ex Flagged cs)"
  "block (foldl (rollupCat th) a cs) = (block a \<or> list_ex (blocks th) cs)"
  by (induction cs arbitrary: a) (auto simp: rollupCat_simps)

lemma rollupFrame_max:
  "maxScore (rollupFrame th a f) =
     (if okFrame f then maxScore (foldl (rollupCat th) a (Categories f)) else maxScore a)"
  "topCat (rollupFrame th a f) =
     (if okFrame f then topCat (foldl (rollupCat th) a (Categories f)) else topCat a)"
proof -
  have "maxScore (foldl (rollupCat th) a cs) = maxScore (foldl (rollupCat th) b cs) \<and>
        topCat (foldl (rollupCat th) a cs) = topCat (foldl (rollupCat th) b cs)"
    if "maxScore a = maxScore b" "topCat a = topCat b" for a b cs
    using that
  proof (induction cs arbitrary: a b)
    case (Cons c cs)
    have "maxScore (rollupCat th a c) = maxScore (rollupCat th b c)"
      "topCat (rollupCat th a c) = topCat (rollupCat th b c)"
      using Cons.prems by (simp_all add: rollupCat_simps split: option.splits)
    from Cons.IH[OF this] show ?case by simp
  qed simp
  from this[of "a\<lparr>okFrames := Suc (okFrames a)\<rparr>" a "Categories f"]
  show "maxScore (rollupFrame th a f) =
     (if okFrame f then maxScore (foldl (rollupCat th) a (Categories f)) else maxScore a)"
    "topCat (rollupFrame th a f) =
     (if okFrame f then topCat (foldl (rollupCat th) a (Categories f)) else topCat a)"
    by (simp_all add: rollupFrame_def okFrame_def)
qed

text \<open>The running maximum alone, over a plain list of categories.\<close>

fun runMax :: "float64 option \<times> Category option \<Rightarrow> CategoryResult list \<Rightarrow>
    float64 option \<times> Category option" where
  "runMax m [] = m"
| "runMax m (c # cs) =
     runMax (case Score c of None \<Rightarrow> m
             | Some s \<Rightarrow> if newMax (fst m) s then (Some s, Some (crCategory c)) else m) cs"

lemma runMax_append: "runMax m (xs @ ys) = runMax (runMax m xs) ys"
  by (induction m xs rule: runMax.induct) auto

lemma fold_cats_runMax:
  "(maxScore (foldl (rollupCat th) a cs), topCat (foldl (rollupCat th) a cs)) =
     runMax (maxScore a, topCat a) cs"
proof (induction cs arbitrary: a)
  case (Cons c cs)
  have "(maxScore (rollupCat th a c), topCat (rollupCat th a c)) =
      (case Score c of None \<Rightarrow> (maxScore a, topCat a)
       | Some s \<Rightarrow> if newMax (maxScore a) s then (Some s, Some (crCategory c))
                   else (maxScore a, topCat a))"
    by (simp add: rollupCat_simps split: option.splits)
  then show ?case using Cons.IH[of "rollupCat th a c"] by (simp split: option.splits)
qed simp

lemma loop_runMax:
  "(maxScore (foldl (rollupFrame th) a fs), topCat (foldl (rollupFrame th) a fs)) =
     runMax (maxScore a, topCat a) (okCats fs)"
proof (induction fs arbitrary: a)
  case (Cons f fs)
  have step: "(maxScore (rollupFrame th a f), topCat (rollupFrame th a f)) =
      runMax (maxScore a, topCat a) (if okFrame f then Categories f else [])"
    by (cases "okFrame f") (simp_all add: rollupFrame_max fold_cats_runMax)
  show ?case
    using Cons.IH[of "rollupFrame th a f"] step by (simp add: okCats_def runMax_append)
qed (simp add: okCats_def)

lemma loop_flags:
  "anyError (foldl (rollupFrame th) a fs) = (anyError a \<or> \<not> list_all okFrame fs)"
  "okFrames (foldl (rollupFrame th) a fs) = okFrames a + length (filter okFrame fs)"
  "anyFlagged (foldl (rollupFrame th) a fs) = (anyFlagged a \<or> list_ex Flagged (okCats fs))"
  "block (foldl (rollupFrame th) a fs) = (block a \<or> list_ex (blocks th) (okCats fs))"
  by (induction fs arbitrary: a)
    (auto simp: rollupFrame_def fold_cats_simps okFrame_def okCats_def)

lemma rollupLoop_simps:
  "anyError (rollupLoop fs th) = (\<not> list_all okFrame fs)"
  "okFrames (rollupLoop fs th) = length (filter okFrame fs)"
  "anyFlagged (rollupLoop fs th) = list_ex Flagged (okCats fs)"
  "block (rollupLoop fs th) = list_ex (blocks th) (okCats fs)"
  "maxScore (rollupLoop fs th) = fst (runMax (None, None) (okCats fs))"
  "topCat (rollupLoop fs th) = snd (runMax (None, None) (okCats fs))"
  using loop_runMax[of th acc0 fs]
  by (auto simp: rollupLoop_def loop_flags acc0_def dest: arg_cong[of _ _ fst] arg_cong[of _ _ snd])

lemma runMax_None: "fst (runMax m cs) = None \<longleftrightarrow> fst m = None \<and> \<not> list_ex scored cs"
  by (induction m cs rule: runMax.induct) (auto simp: scored_def newMax_def split: option.splits)

section \<open>What the maximum is\<close>

lemma runMax_ge:
  assumes "numericScores cs" and "fst m \<noteq> Some NaN"
  shows "(\<forall>c \<in> set cs. \<forall>s. Score c = Some s \<longrightarrow> (\<exists>x. fst (runMax m cs) = Some x \<and> f64_le s x)) \<and>
    (\<forall>y. fst m = Some y \<longrightarrow> (\<exists>x. fst (runMax m cs) = Some x \<and> f64_le y x))"
  using assms
proof (induction m cs rule: runMax.induct)
  case (1 m)
  then show ?case by (cases "fst m") (auto simp: f64_le_refl)
next
  case (2 m c cs)
  let ?m = "case Score c of None \<Rightarrow> m
             | Some s \<Rightarrow> if newMax (fst m) s then (Some s, Some (crCategory c)) else m"
  have num: "numericScores cs" and c: "Score c \<noteq> Some NaN"
    using 2(2) by (auto simp: numericScores_def)
  have m: "fst ?m \<noteq> Some NaN"
    using c 2(3) by (auto split: option.splits)
  note IH = 2(1)[OF num m]
  have grow: "\<exists>x. fst ?m = Some x \<and> f64_le y x" if "fst m = Some y \<or> Score c = Some y" for y
    using that c 2(3)
    by (auto simp: newMax_def f64_le_refl f64_le_def f64_not_lt split: option.splits if_splits)
  show ?case
  proof (intro conjI ballI allI impI)
    fix d s assume d: "d \<in> set (c # cs)" and s: "Score d = Some s"
    show "\<exists>x. fst (runMax m (c # cs)) = Some x \<and> f64_le s x"
    proof (cases "d = c")
      case True
      with s grow obtain y where "fst ?m = Some y" "f64_le s y" by blast
      with IH show ?thesis by (auto intro: f64_le_trans)
    next
      case False
      with d s IH show ?thesis by auto
    qed
  next
    fix y assume "fst m = Some y"
    with grow obtain z where "fst ?m = Some z" "f64_le y z" by blast
    with IH show "\<exists>x. fst (runMax m (c # cs)) = Some x \<and> f64_le y x"
      by (auto intro: f64_le_trans)
  qed
qed

lemma runMax_attained:
  "runMax m cs = (Some x, t) \<Longrightarrow> runMax m cs \<noteq> m \<Longrightarrow>
   \<exists>c \<in> set cs. Score c = Some x \<and> t = Some (crCategory c)"
proof (induction m cs rule: runMax.induct)
  case (2 m c cs)
  let ?m = "case Score c of None \<Rightarrow> m
             | Some s \<Rightarrow> if newMax (fst m) s then (Some s, Some (crCategory c)) else m"
  show ?case
  proof (cases "runMax ?m cs = ?m")
    case True
    with 2(2,3) show ?thesis by (auto split: option.splits if_splits)
  next
    case False
    with 2 show ?thesis by auto
  qed
qed simp

lemma runMax_from_none:
  assumes "fst (runMax (None, None) cs) = Some x"
  shows "\<exists>c \<in> set cs. Score c = Some x \<and> snd (runMax (None, None) cs) = Some (crCategory c)"
  using assms runMax_attained[of "(None, None)" cs x "snd (runMax (None, None) cs)"]
  by (metis fst_conv option.distinct(1) prod.collapse)

lemma set_okCats: "c \<in> set (okCats fs) \<longleftrightarrow> (\<exists>f \<in> set fs. Status f = FrameOK \<and> c \<in> set (Categories f))"
  by (auto simp: okCats_def okFrame_def)

lemma Rollup_simps:
  "ovVerdict (Rollup fs th) =
     (if list_ex (blocks th) (okCats fs) then VerdictBlock
      else if \<not> list_all okFrame fs \<or> fs = [] \<or> \<not> list_ex scored (okCats fs) then VerdictError
      else if list_ex Flagged (okCats fs) then VerdictFlag else VerdictAllow)"
  "ovFlagged (Rollup fs th) = list_ex Flagged (okCats fs)"
  "MaxScore (Rollup fs th) = fst (runMax (None, None) (okCats fs))"
  "Confidence (Rollup fs th) = fst (runMax (None, None) (okCats fs))"
  "TopCategory (Rollup fs th) = snd (runMax (None, None) (okCats fs))"
  using runMax_None[of "(None, None)" "okCats fs"]
  by (auto simp: Rollup_def Let_def rollupLoop_simps filter_empty_conv list_all_iff)

lemma ApplyThresholds_simps:
  "length (ApplyThresholds cats th) = length cats"
  "map Score (ApplyThresholds cats th) = map Score cats"
  "map ProviderLabel (ApplyThresholds cats th) = map ProviderLabel cats"
  "map crCategory (ApplyThresholds cats th) = map crCategory cats"
  by (simp_all add: ApplyThresholds_def Let_def)

lemma ApplyThresholds_flagged:
  assumes "c \<in> set (ApplyThresholds cats th)"
  shows "Flagged c \<longleftrightarrow>
    reaches (Score c) (FlagAt (ResolveFor th (Canonicalize (crCategory c)) (ProviderLabel c)))"
  using assms by (auto simp: ApplyThresholds_def Let_def)

section \<open>Properties\<close>

text \<open>C3. The rollup's verdict is the strict precedence block, error, flag, allow: block when a
  category of an ok frame scores at or above its resolved block_at; otherwise error when some frame is
  not ok, when there is no frame at all, or when no ok frame carries a score; otherwise flag when a
  category of an ok frame is flagged; allow is what is left.\<close>

theorem rollup_verdict:
  "ovVerdict (Rollup fs th) =
     (if \<exists>f \<in> set fs. Status f = FrameOK \<and> (\<exists>c \<in> set (Categories f). blocks th c)
      then VerdictBlock
      else if (\<exists>f \<in> set fs. Status f \<noteq> FrameOK) \<or> fs = [] then VerdictError
      else if \<exists>f \<in> set fs. Status f = FrameOK \<and> (\<exists>c \<in> set (Categories f). Score c \<noteq> None)
      then (if \<exists>f \<in> set fs. Status f = FrameOK \<and> (\<exists>c \<in> set (Categories f). Flagged c)
        then VerdictFlag else VerdictAllow)
      else VerdictError)"
proof -
  have "list_ex P (okCats fs) \<longleftrightarrow>
      (\<exists>f \<in> set fs. Status f = FrameOK \<and> (\<exists>c \<in> set (Categories f). P c))" for P
    by (simp add: list_ex_iff set_okCats Bex_def) blast
  moreover have "list_all okFrame fs \<longleftrightarrow> \<not> (\<exists>f \<in> set fs. Status f \<noteq> FrameOK)"
    by (auto simp: list_all_iff okFrame_def)
  ultimately show ?thesis by (simp add: Rollup_simps scored_def)
qed

text \<open>C4. When no score is NaN, the reported maximum is the maximum: it is the score of a category of
  an ok frame whose category is the reported top category, no category of an ok frame scores higher,
  and the confidence repeats it; it is absent exactly when no ok frame carries a score (never zero).\<close>

theorem rollup_max_score:
  assumes "numericScores (okCats fs)"
  shows "case MaxScore (Rollup fs th) of
      None \<Rightarrow> (\<forall>c \<in> set (okCats fs). Score c = None) \<and> Confidence (Rollup fs th) = None
    | Some m \<Rightarrow> (\<exists>c \<in> set (okCats fs). Score c = Some m \<and>
          TopCategory (Rollup fs th) = Some (crCategory c)) \<and>
        (\<forall>c \<in> set (okCats fs). \<forall>s. Score c = Some s \<longrightarrow> f64_le s m) \<and>
        Confidence (Rollup fs th) = Some m"
proof (cases "MaxScore (Rollup fs th)")
  case None
  then show ?thesis
    using runMax_None[of "(None, None)" "okCats fs"]
    by (auto simp: Rollup_simps list_ex_iff scored_def)
next
  case (Some m)
  then show ?thesis
    using runMax_from_none[of "okCats fs" m] runMax_ge[OF assms, of "(None, None)"]
    by (auto simp: Rollup_simps)
qed

theorem rollup_max_score_witness:
  "MaxScore (Rollup [sampleFrame ''HATE'' (1/4), sampleFrame ''SEXUAL'' (3/4)] []) = Some (Fin (3/4)) \<and>
   (\<exists>c \<in> set (okCats [sampleFrame ''HATE'' (1/4), sampleFrame ''SEXUAL'' (3/4)]).
      Score c = Some (Fin (3/4)) \<and>
      TopCategory (Rollup [sampleFrame ''HATE'' (1/4), sampleFrame ''SEXUAL'' (3/4)] []) = Some (crCategory c)) \<and>
   Confidence (Rollup [sampleFrame ''HATE'' (1/4), sampleFrame ''SEXUAL'' (3/4)] []) = Some (Fin (3/4))"
proof -
  let ?fs = "[sampleFrame ''HATE'' (1/4), sampleFrame ''SEXUAL'' (3/4)]"
  have cats: "okCats ?fs = Categories (sampleFrame ''HATE'' (1/4)) @ Categories (sampleFrame ''SEXUAL'' (3/4))"
    by (simp add: okCats_def okFrame_def sampleFrame_def)
  have num: "numericScores (okCats ?fs)"
    unfolding cats by (simp add: numericScores_def sampleFrame_def)
  have m: "MaxScore (Rollup ?fs []) = Some (Fin (3/4))"
    "TopCategory (Rollup ?fs []) = Some ''SEXUAL''"
    unfolding Rollup_simps cats by (simp_all add: sampleFrame_def newMax_def)
  show ?thesis using rollup_max_score[OF num, of "[]"] m by simp
qed

end
