(* ===== verification/Fingerprint.thy ===== *)
theory Fingerprint
  imports Sinks Thresholds AuditLog
begin

text \<open>
  The hash of the verdict-affecting configuration (\<open>ConfigHash\<close> of \<open>internal/config/config.go\<close>), stamped
  into every envelope: the JSON text it hashes byte for byte, and the proof that the text determines the
  adapter, the model version and the threshold map.
\<close>

section \<open>The fingerprint of a configuration\<close>

text \<open>The argument \<open>fmt\<close> is the number form of \<open>encoding/json\<close>; an infinity or NaN has none and fails
  the encoding.\<close>

definition ptrText :: "(rat \<Rightarrow> string) \<Rightarrow> float64 option \<Rightarrow> string" where
  "ptrText fmt p = (case p of Some (Fin q) \<Rightarrow> fmt q | _ \<Rightarrow> ''null'')"

definition entryText :: "(rat \<Rightarrow> string) \<Rightarrow> CategoryThreshold \<Rightarrow> string" where
  "entryText fmt t =
     ''{'' @ AuditLog.member ''flag_at'' (ptrText fmt (FlagAt t)) @ '','' @ AuditLog.member ''block_at'' (ptrText fmt (BlockAt t)) @ ''}''"

definition sortedEntries :: "Thresholds \<Rightarrow> Thresholds" where
  "sortedEntries th = map (\<lambda>k. (k, case map_of th k of None \<Rightarrow> emptyThreshold | Some t \<Rightarrow> t)) (sort (map fst th))"

definition thresholdsFinite :: "Thresholds \<Rightarrow> bool" where
  "thresholdsFinite th \<longleftrightarrow> list_all (\<lambda>(k, t). finite64 (FlagAt t) \<and> finite64 (BlockAt t)) th"

definition configPayload :: "(rat \<Rightarrow> string) \<Rightarrow> string \<Rightarrow> string \<Rightarrow> Thresholds \<Rightarrow> string option" where
  "configPayload fmt adapterName modelVersion th =
     (if thresholdsFinite th then
        Some (''{'' @ AuditLog.member ''adapter'' (marshalString adapterName) @ '',''
          @ AuditLog.member ''model_version'' (marshalString modelVersion) @ '',''
          @ AuditLog.member ''thresholds'' (''{'' @ Join (map (\<lambda>(k, t). AuditLog.member k (entryText fmt t)) (sortedEntries th)) '','' @ ''}'') @ ''}'')
      else None)"

definition ConfigHashOf :: "(rat \<Rightarrow> string) \<Rightarrow> string \<Rightarrow> string \<Rightarrow> Thresholds \<Rightarrow> string" where
  "ConfigHashOf fmt adapterName modelVersion th =
     (case configPayload fmt adapterName modelVersion th of
        None \<Rightarrow> ''config-hash-error''
      | Some b \<Rightarrow> hex_encode (sha256 b))"

section \<open>Facts about the fingerprint\<close>

lemma html_id: "set t \<inter> {CHR ''<'', CHR ''>'', CHR ''&''} = {} \<Longrightarrow> concat (map htmlEscape t) = t"
  by (induction t) (auto simp: htmlEscape_def)

lemma hex4_html:
  "Option.bind (hex4 ''003c'') unicode_bytes = Some ''<''"
  "Option.bind (hex4 ''003e'') unicode_bytes = Some ''>''"
  "Option.bind (hex4 ''0026'') unicode_bytes = Some ''&''"
  by (simp_all add: hex4_def unicode_bytes_def hex_value_def char_of_def bit_0)

lemma html_chars_ascii: "c \<in> {CHR ''<'', CHR ''>'', CHR ''&''} \<Longrightarrow> (of_char c :: nat) < 0x80"
  by auto

lemma hex_digit_no_html: "n < 16 \<Longrightarrow> hex_digit n \<notin> {CHR ''<'', CHR ''>'', CHR ''&''}"
proof -
  assume "n < 16"
  then consider "n < 10" | "10 \<le> n" "n < 16" by linarith
  then have "(of_char (hex_digit n) :: nat) \<notin> {60, 62, 38}" by cases (auto simp: hex_digit_def)
  then show ?thesis by auto
qed

lemma unquote_html_ascii:
  assumes "(of_char b :: nat) < 0x80"
  shows "unquote (concat (map htmlEscape (escape_ascii b)) @ r) = consume [b] (unquote r)"
proof (cases "b \<in> {CHR ''<'', CHR ''>'', CHR ''&''}")
  case True
  then have "escape_ascii b = [b]" by (auto simp: escape_ascii_def Let_def)
  moreover have "unquote (htmlEscape b @ r) = consume [b] (unquote r)"
    using True unquote_u [OF hex4_html(1), of r] unquote_u [OF hex4_html(2), of r] unquote_u [OF hex4_html(3), of r]
    by (auto simp: htmlEscape_def simp del: unquote.simps)
  ultimately show ?thesis by simp
next
  case False
  have "set (escape_ascii b) \<inter> {CHR ''<'', CHR ''>'', CHR ''&''} = {}"
    using False hex_digit_no_html [of "of_char b div 16"] hex_digit_no_html [of "of_char b mod 16"] assms
    by (simp add: escape_ascii_def Let_def less_mult_imp_div_less eq_commute [of "CHR ''<''"] eq_commute [of "CHR ''>''"]
      eq_commute [of "CHR ''&''"])
  then show ?thesis by (simp add: html_id unquote_ascii [OF assms])
qed

lemma unquote_marshal:
  "valid_utf8 s \<Longrightarrow> unquote (concat (map htmlEscape (json_escape s)) @ quoteCh # r) = Some (s, r)"
proof (induction s rule: valid_utf8.induct)
  case (2 b s)
  show ?case
  proof (cases "(of_char b :: nat) < 0x80")
    case True
    then show ?thesis using 2 by (simp add: unquote_html_ascii)
  next
    case False
    let ?n = "rune_len (b # s)" let ?p = "take ?n (b # s)" let ?t = "concat (map htmlEscape (json_escape (drop (?n - 1) s)))"
    have n: "?n \<noteq> 0" and IH: "unquote (?t @ quoteCh # r) = Some (drop (?n - 1) s, r)" using 2 False by auto
    have s: "?p @ drop (?n - 1) s = b # s" using n by (metis append_take_drop_id drop_Cons')
    have high: "set ?p \<inter> {CHR ''<'', CHR ''>'', CHR ''&''} = {}"
      using rune_len_high [of "b # s"] html_chars_ascii by fastforce
    consider "?p = lineSep" | "?p = paraSep" | "?p \<noteq> lineSep" "?p \<noteq> paraSep" by blast
    then show ?thesis
    proof cases
      case 1
      then have "concat (map htmlEscape (json_escape (b # s))) = backslash # CHR ''u'' # ''2028'' @ ?t"
        using False n by (simp add: htmlEscape_def)
      then show ?thesis using unquote_u [OF hex4_separators(1)] IH s 1 by (simp del: unquote.simps json_escape.simps)
    next
      case 2
      then have "concat (map htmlEscape (json_escape (b # s))) = backslash # CHR ''u'' # ''2029'' @ ?t"
        using False n by (simp add: htmlEscape_def)
      then show ?thesis using unquote_u [OF hex4_separators(2)] IH s 2 by (simp del: unquote.simps json_escape.simps)
    next
      case 3
      then have "concat (map htmlEscape (json_escape (b # s))) = ?p @ ?t"
        using False n html_id [OF high] by simp
      then have "unquote (concat (map htmlEscape (json_escape (b # s))) @ quoteCh # r) = consume ?p (Some (drop (?n - 1) s, r))"
        by (simp only: append_assoc unquote_high [OF rune_len_high] IH)
      then show ?thesis using s by (simp del: unquote.simps json_escape.simps)
    qed
  qed
qed simp

lemma marshalString_cancel:
  assumes "valid_utf8 s" "valid_utf8 t" "marshalString s @ r = marshalString t @ r'"
  shows "s = t \<and> r = r'"
proof -
  have "concat (map htmlEscape (json_escape s)) @ quoteCh # r = concat (map htmlEscape (json_escape t)) @ quoteCh # r'"
    using assms(3) by (simp add: marshalString_def)
  then have "Some (s, r) = Some (t, r')"
    by (metis unquote_marshal [OF assms(1), of r] unquote_marshal [OF assms(2), of r'])
  then show ?thesis by simp
qed

text \<open>What \<open>encoding/json\<close> documents of a number: it is written with the characters of a JSON number, and
  so that reading it back gives the same value.\<close>

definition numberText :: "(rat \<Rightarrow> string) \<Rightarrow> bool" where
  "numberText fmt \<longleftrightarrow> inj fmt \<and> (\<forall>q. set (fmt q) \<subseteq> set ''0123456789+-.eE'')"

lemma member_cancel:
  "valid_utf8 k \<Longrightarrow> valid_utf8 k' \<Longrightarrow> AuditLog.member k v @ r = AuditLog.member k' v' @ r' \<Longrightarrow> k = k' \<and> v @ r = v' @ r'"
  using marshalString_cancel [of k k' "'':'' @ v @ r" "'':'' @ v' @ r'"] by (simp add: AuditLog.member_def)

lemma stop_cancel:
  assumes "x \<notin> set p" "x \<notin> set p'" "p @ x # r = p' @ x # r'"
  shows "p = p' \<and> r = r'"
proof -
  have "takeWhile (\<lambda>c. c \<noteq> x) (p @ x # r) = p" "takeWhile (\<lambda>c. c \<noteq> x) (p' @ x # r') = p'"
    using assms(1,2) by (auto simp: takeWhile_append)
  then show ?thesis using assms(3) by simp
qed

lemma ptrText_chars: "numberText fmt \<Longrightarrow> set (ptrText fmt p) \<subseteq> set ''0123456789+-.eEnul''"
proof -
  assume "numberText fmt"
  then have "set (fmt q) \<subseteq> set ''0123456789+-.eEnul''" for q unfolding numberText_def by fastforce
  then show ?thesis by (auto simp: ptrText_def split: option.splits float64.splits)
qed

lemma ptrText_inj:
  assumes "numberText fmt" "finite64 p" "finite64 p'" "ptrText fmt p = ptrText fmt p'"
  shows "p = p'"
proof -
  have "CHR ''n'' \<notin> set (fmt q)" for q using assms(1) unfolding numberText_def by fastforce
  then have n: "fmt q \<noteq> ''null''" for q by (metis list.set_intros(1))
  have i: "fmt q = fmt q' \<Longrightarrow> q = q'" for q q' using assms(1) by (auto simp: numberText_def dest: injD)
  show ?thesis using assms(2-4) n i
    by (auto simp: ptrText_def n [symmetric] split: option.splits float64.splits)
qed

lemma entryText_cancel:
  assumes "numberText fmt" "finite64 (FlagAt t)" "finite64 (BlockAt t)" "finite64 (FlagAt t')" "finite64 (BlockAt t')"
    and "entryText fmt t @ r = entryText fmt t' @ r'"
  shows "t = t' \<and> r = r'"
proof -
  let ?f = "\<lambda>t. ptrText fmt (FlagAt t)" and ?b = "\<lambda>t. ptrText fmt (BlockAt t)"
  have free: "CHR '','' \<notin> set (ptrText fmt p)" "CHR ''}'' \<notin> set (ptrText fmt p)" for p
    using ptrText_chars [OF assms(1), of p] by auto
  have "?f t @ CHR '','' # AuditLog.member ''block_at'' (?b t) @ ''}'' @ r
      = ?f t' @ CHR '','' # AuditLog.member ''block_at'' (?b t') @ ''}'' @ r'"
    using assms(6) by (simp add: entryText_def AuditLog.member_def)
  from stop_cancel [OF free(1) free(1) this]
  have f: "?f t = ?f t'" and "?b t @ CHR ''}'' # r = ?b t' @ CHR ''}'' # r'" by (auto simp: AuditLog.member_def)
  then have b: "?b t = ?b t'" "r = r'" using stop_cancel [OF free(2) free(2)] by blast+
  have "FlagAt t = FlagAt t'" by (rule ptrText_inj [OF assms(1,2,4) f])
  moreover have "BlockAt t = BlockAt t'" by (rule ptrText_inj [OF assms(1,3,5) b(1)])
  ultimately show ?thesis using b(2) by simp
qed

lemma Join_Cons: "Join (x # xs) sep = x @ (if xs = [] then [] else sep @ Join xs sep)"
  by (cases xs) simp_all

definition entriesOK :: "Thresholds \<Rightarrow> bool" where
  "entriesOK th \<longleftrightarrow> thresholdsFinite th \<and> list_all (\<lambda>(k, t). valid_utf8 k) th"

abbreviation entriesText :: "(rat \<Rightarrow> string) \<Rightarrow> Thresholds \<Rightarrow> string" where
  "entriesText fmt es \<equiv> Join (map (\<lambda>(k, t). AuditLog.member k (entryText fmt t)) es) '',''"

lemma entries_inj:
  assumes "numberText fmt"
  shows "entriesOK es \<Longrightarrow> entriesOK es' \<Longrightarrow> entriesText fmt es @ ''}'' @ r = entriesText fmt es' @ ''}'' @ r' \<Longrightarrow> es = es'"
proof (induction es arbitrary: es')
  case Nil
  then show ?case by (cases es') (auto simp: Join_Cons AuditLog.member_def marshalString_def)
next
  case (Cons e es)
  obtain k t where e: "e = (k, t)" by force
  from Cons.prems(3) obtain k' t' es'' where es': "es' = (k', t') # es''"
    by (cases es') (auto simp: e Join_Cons AuditLog.member_def marshalString_def)
  let ?r = "\<lambda>xs r. (if xs = [] then [] else '','' @ entriesText fmt xs) @ ''}'' @ r"
  have ok: "valid_utf8 k" "valid_utf8 k'" "entriesOK es" "entriesOK es''" "finite64 (FlagAt t)" "finite64 (BlockAt t)"
    "finite64 (FlagAt t')" "finite64 (BlockAt t')"
    using Cons.prems(1,2) by (auto simp: e es' entriesOK_def thresholdsFinite_def)
  have "AuditLog.member k (entryText fmt t) @ ?r es r = AuditLog.member k' (entryText fmt t') @ ?r es'' r'"
    using Cons.prems(3) by (simp add: e es' Join_Cons)
  then have k: "k = k'" and "entryText fmt t @ ?r es r = entryText fmt t' @ ?r es'' r'"
    using member_cancel [OF ok(1,2)] by blast+
  then have t: "t = t'" and "?r es r = ?r es'' r'" using entryText_cancel [OF assms ok(5-8)] by blast+
  then have "entriesText fmt es @ ''}'' @ r = entriesText fmt es'' @ ''}'' @ r'"
    by (cases "es = []"; cases "es'' = []") simp_all
  with Cons.IH [OF ok(3,4)] show ?case by (simp add: e es' k t)
qed

lemma sortedEntries_lookup: "map_of (sortedEntries th) = map_of th"
proof
  fix k
  have "map_of (sortedEntries th) k =
    (if k \<in> fst ` set th then Some (case map_of th k of None \<Rightarrow> emptyThreshold | Some t \<Rightarrow> t) else None)"
    by (simp add: sortedEntries_def map_of_map_restrict restrict_map_def)
  moreover have "k \<in> fst ` set th \<longleftrightarrow> map_of th k \<noteq> None" by (simp add: map_of_eq_None_iff)
  ultimately show "map_of (sortedEntries th) k = map_of th k" by (cases "map_of th k") auto
qed

lemma sortedEntries_ok:
  assumes "entriesOK th"
  shows "entriesOK (sortedEntries th)"
proof -
  have "valid_utf8 k \<and> finite64 (FlagAt t) \<and> finite64 (BlockAt t)" if "(k, t) \<in> set (sortedEntries th)" for k t
  proof -
    have "k \<in> fst ` set th" "t = (case map_of th k of None \<Rightarrow> emptyThreshold | Some t \<Rightarrow> t)"
      using that by (auto simp: sortedEntries_def)
    then obtain t0 where "map_of th k = Some t0" by (metis map_of_eq_None_iff option.exhaust)
    then have "(k, t) \<in> set th" using \<open>t = _\<close> by (simp add: map_of_SomeD)
    then show ?thesis using assms by (auto simp: entriesOK_def thresholdsFinite_def list_all_iff)
  qed
  then show ?thesis by (auto simp: entriesOK_def thresholdsFinite_def list_all_iff)
qed

lemma configPayload_determines:
  assumes "numberText fmt" "valid_utf8 a" "valid_utf8 a'" "valid_utf8 m" "valid_utf8 m'" "entriesOK th" "entriesOK th'"
    and "configPayload fmt a m th = Some p" "configPayload fmt a' m' th' = Some p"
  shows "a = a' \<and> m = m' \<and> map_of th = map_of th'"
proof -
  let ?rest = "\<lambda>th. AuditLog.member ''thresholds'' (''{'' @ entriesText fmt (sortedEntries th) @ ''}'') @ ''}''"
  let ?mid = "\<lambda>m th. AuditLog.member ''model_version'' (marshalString m) @ '','' @ ?rest th"
  have "configPayload fmt a m th = configPayload fmt a' m' th'" using assms(8,9) by simp
  then have "marshalString a @ '','' @ ?mid m th = marshalString a' @ '','' @ ?mid m' th'"
    using assms(6,7) by (simp add: configPayload_def entriesOK_def AuditLog.member_def)
  note e1 = marshalString_cancel [OF assms(2,3) this]
  have a: "a = a'" by (rule conjunct1 [OF e1])
  have "?mid m th = ?mid m' th'" using conjunct2 [OF e1] by (simp only: same_append_eq)
  then have "marshalString m @ '','' @ ?rest th = marshalString m' @ '','' @ ?rest th'" by (simp add: AuditLog.member_def)
  note e2 = marshalString_cancel [OF assms(4,5) this]
  have m: "m = m'" by (rule conjunct1 [OF e2])
  have "?rest th = ?rest th'" using conjunct2 [OF e2] by (simp only: same_append_eq)
  then have "entriesText fmt (sortedEntries th) @ ''}'' @ ''}'' = entriesText fmt (sortedEntries th') @ ''}'' @ ''}''"
    by (simp add: AuditLog.member_def)
  then have "sortedEntries th = sortedEntries th'"
    by (rule entries_inj [OF assms(1) sortedEntries_ok [OF assms(6)] sortedEntries_ok [OF assms(7)]])
  then show ?thesis using a m sortedEntries_lookup by metis
qed

section \<open>Properties\<close>

text \<open>
  C20. The configuration hash binds what decides verdicts: two configurations with the same hash have the same
  adapter, the same model version and the same threshold for every key, or their encodings are a SHA-256
  collision. The number form of \<open>encoding/json\<close> is the only assumption beyond valid UTF-8 and finite bounds.
\<close>

theorem config_hash_binds:
  assumes "numberText fmt" "valid_utf8 a" "valid_utf8 a'" "valid_utf8 m" "valid_utf8 m'" "entriesOK th" "entriesOK th'"
    and "ConfigHashOf fmt a m th = ConfigHashOf fmt a' m' th'"
  shows "a = a' \<and> m = m' \<and> map_of th = map_of th'
    \<or> (\<exists>p p'. configPayload fmt a m th = Some p \<and> configPayload fmt a' m' th' = Some p' \<and> p \<noteq> p' \<and> sha256 p = sha256 p')"
proof -
  obtain p p' where p: "configPayload fmt a m th = Some p" "configPayload fmt a' m' th' = Some p'"
    using assms(6,7) by (simp add: configPayload_def entriesOK_def)
  then have h: "sha256 p = sha256 p'" using assms(8) by (simp add: ConfigHashOf_def)
  show ?thesis
  proof (cases "p = p'")
    case True
    then show ?thesis using configPayload_determines [OF assms(1-7) p(1)] p(2) by simp
  qed (use p h in auto)
qed

definition unaryText :: "rat \<Rightarrow> string" where
  "unaryText q = (let (n, d) = quotient_of q in
     (if n < 0 then ''-'' else []) @ replicate (nat \<bar>n\<bar>) (CHR ''1'') @ CHR ''.'' # replicate (nat d) (CHR ''1''))"

lemma unaryText_number: "numberText unaryText"
proof -
  have "q = q'" if "unaryText q = unaryText q'" for q q'
  proof -
    obtain n d n' d' where qs: "quotient_of q = (n, d)" "quotient_of q' = (n', d')" by (metis surj_pair)
    let ?s = "\<lambda>n. (if n < 0 then ''-'' else []) @ replicate (nat \<bar>n\<bar>) (CHR ''1'')"
    have pos: "d > 0" "d' > 0" using qs by (metis quotient_of_denom_pos)+
    have free: "CHR ''.'' \<notin> set (?s k)" for k by auto
    have "?s n @ CHR ''.'' # replicate (nat d) (CHR ''1'') = ?s n' @ CHR ''.'' # replicate (nat d') (CHR ''1'')"
      using that qs by (simp add: unaryText_def)
    from stop_cancel [OF free free this]
    have sn: "?s n = ?s n'" and "replicate (nat d) (CHR ''1'') = replicate (nat d') (CHR ''1'')" by blast+
    then have "d = d'" using pos by (metis length_replicate eq_nat_nat_iff less_imp_le)
    moreover have "(n < 0) = (n' < 0)" using sn by (cases "nat \<bar>n\<bar>"; cases "nat \<bar>n'\<bar>") (auto split: if_splits)
    then have "n = n'" using sn by (auto split: if_splits dest: arg_cong [where f = length])
    ultimately show ?thesis using qs by (metis quotient_of_inject)
  qed
  then show ?thesis by (auto simp: numberText_def inj_def unaryText_def split: prod.splits if_splits)
qed

definition demoThresholds :: Thresholds where
  "demoThresholds = [(''default'', \<lparr>FlagAt = Some (Fin (1 / 2)), BlockAt = None\<rparr>), (''SEXUAL'', \<lparr>FlagAt = None, BlockAt = Some (Fin 1)\<rparr>)]"

theorem config_hash_binds_witness:
  "(''hive'' = ''hive'' \<and> ''1'' = ''1'' \<and> map_of demoThresholds = map_of (rev demoThresholds))
   \<or> (\<exists>p p'. configPayload unaryText ''hive'' ''1'' demoThresholds = Some p
        \<and> configPayload unaryText ''hive'' ''1'' (rev demoThresholds) = Some p' \<and> p \<noteq> p' \<and> sha256 p = sha256 p')"
proof (rule config_hash_binds [OF unaryText_number])
  have d: "distinct (map fst demoThresholds)" by (simp add: demoThresholds_def)
  have "sortedEntries (rev demoThresholds) = sortedEntries demoThresholds"
    unfolding sortedEntries_def map_of_rev_distinct [OF d] by (simp add: sort_key_def demoThresholds_def insort_key_left_comm)
  moreover have "thresholdsFinite demoThresholds" by (simp add: thresholdsFinite_def demoThresholds_def)
  ultimately show "ConfigHashOf unaryText ''hive'' ''1'' demoThresholds = ConfigHashOf unaryText ''hive'' ''1'' (rev demoThresholds)"
    by (simp add: ConfigHashOf_def configPayload_def thresholdsFinite_def)
qed (simp_all add: entriesOK_def thresholdsFinite_def demoThresholds_def)

end
