(* ===== verification/Config.thy ===== *)
theory Config
  imports Format Fetch Rollup Fingerprint
begin

text \<open>
  The configuration (\<open>internal/config/config.go\<close>): its sections, the built-in defaults, the boot-time
  validation and loading. Thresholds and provider labels are in \<open>Thresholds\<close>, the hash of a configuration in
  \<open>Fingerprint\<close>. The parsers of \<open>net/url\<close> and \<open>net/netip\<close> and the configuration reader are arguments. A map section iterates in the order of its list; the error reported among several
  is the first in that order.
\<close>

section \<open>Sections\<close>

record WorkflowConfig =
  wfDescription :: string
  wfArgs :: "string list"

record FFmpegConfig =
  FFmpegPath :: string
  FFprobePath :: string
  DefaultWorkflow :: string
  MaxFrames :: int
  MaxExtractFrames :: int
  MaxWidth :: int
  ffTimeout :: int
  Workflows :: "(string \<times> WorkflowConfig) list"

record DedupConfig =
  dcEnabled :: bool
  HammingThreshold :: int

record FramesConfig =
  Concurrency :: int
  fcDedup :: DedupConfig

record RedisConfig =
  redisAddr :: string
  redisPassword :: string
  redisDB :: int

record QueueSection =
  qsDriver :: string
  qsWorkers :: int
  qsBuffer :: int
  qsMaxRetries :: int
  qsRetryBackoff :: int
  qsDrainTimeout :: int
  qsJobTimeout :: int
  qsDeadLetterMax :: int
  qsRedis :: RedisConfig

record AdapterSection =
  asName :: string
  asOptions :: "(string \<times> string) list"

record AuditConfig =
  acEnabled :: bool
  acPath :: string

record UIConfig =
  uiEnabled :: bool
  uiAddr :: string
  uiAuth :: string

record ResultAPIConfig =
  raEnabled :: bool
  raAuth :: string
  raMaxEntries :: int
  raTTL :: int

abbreviation "AuthModeBasic \<equiv> ''basic''"
abbreviation "AuthModeNone \<equiv> ''none''"

record SinkConfig =
  scType :: string
  scPath :: string
  scURL :: string
  scTimeout :: int
  scMaxAttempts :: int
  scFormat :: string
  scPredicate :: Predicate
  scMetadataFields :: "string list"

record OutputConfig =
  ocSinks :: "SinkConfig list"
  AllowUnrouted :: bool

record BackpressureConfig =
  bpConsecutiveErrors :: int
  bpErrorRatePct :: float64
  bpWindow :: int
  bpRecoverySuccesses :: int

text \<open>\<open>source.url\<close> has the fields the fetcher is built with.\<close>

record Config =
  cAdapter :: AdapterSection
  cThresholds :: Thresholds
  cProviderThresholds :: ProviderThresholds
  cFFmpeg :: FFmpegConfig
  cFrames :: FramesConfig
  cSourceURL :: FetchConfig
  cQueue :: QueueSection
  cAudit :: AuditConfig
  cUI :: UIConfig
  cOutput :: OutputConfig
  cBackpressure :: BackpressureConfig
  cAllowEmptyVideoSkip :: bool
  cLogLevel :: string
  cMetricsAddr :: string
  cIntakeAddr :: string
  cResultAPI :: ResultAPIConfig

text \<open>A product of two 64-bit integers.\<close>

definition wrap64 :: "int \<Rightarrow> int" where
  "wrap64 x = (x + 2 ^ 63) mod 2 ^ 64 - 2 ^ 63"

definition ExtractBudget :: "FFmpegConfig \<Rightarrow> int" where
  "ExtractBudget f = (if MaxExtractFrames f > 0 then MaxExtractFrames f else wrap64 (MaxFrames f * 4))"

section \<open>Defaults\<close>

definition emptyPredicate :: Predicate where
  "emptyPredicate = \<lparr>pVerdicts = [], pCategories = [], pSourceKinds = []\<rparr>"

definition DefaultWorkflows :: "(string \<times> WorkflowConfig) list" where
  "DefaultWorkflows =
     [(''scene-detect'', \<lparr>wfDescription = ''Extract one frame per detected scene change (select='' @ [CHR 0x27] @ ''gt(scene,0.4)'' @ [CHR 0x27] @ '').'',
        wfArgs = [''-hide_banner'', ''-nostdin'', ''-y'', ''-i'', ''{{.Input}}'',
          ''-vf'', ''select='' @ [CHR 0x27] @ ''gt(scene,0.4)'' @ [CHR 0x27] @ '',scale={{.MaxWidth}}:-1,showinfo'',
          ''-vsync'', ''vfr'', ''-frames:v'', ''{{.MaxFrames}}'', ''{{.WorkDir}}/frame-%06d.png'']\<rparr>),
      (''keyframe'', \<lparr>wfDescription = ''Extract keyframes (I-frames) only.'',
        wfArgs = [''-hide_banner'', ''-nostdin'', ''-y'', ''-skip_frame'', ''nokey'', ''-i'', ''{{.Input}}'',
          ''-vf'', ''showinfo'', ''-vsync'', ''vfr'', ''-frames:v'', ''{{.MaxFrames}}'', ''{{.WorkDir}}/frame-%06d.png'']\<rparr>),
      (''interval'', \<lparr>wfDescription = ''Extract one frame every 2 seconds.'',
        wfArgs = [''-hide_banner'', ''-nostdin'', ''-y'', ''-i'', ''{{.Input}}'',
          ''-vf'', ''fps=1/2,scale={{.MaxWidth}}:-1,showinfo'', ''-frames:v'', ''{{.MaxFrames}}'', ''{{.WorkDir}}/frame-%06d.png'']\<rparr>)]"

definition stdoutSink :: SinkConfig where
  "stdoutSink = \<lparr>scType = ''stdout'', scPath = [], scURL = [], scTimeout = 0, scMaxAttempts = 0, scFormat = [],
     scPredicate = emptyPredicate, scMetadataFields = []\<rparr>"

definition Defaults :: Config where
  "Defaults =
     \<lparr>cAdapter = \<lparr>asName = [], asOptions = []\<rparr>,
      cThresholds = [(''default'', \<lparr>FlagAt = Some (Fin (1 / 2)), BlockAt = Some (Fin (8 / 10))\<rparr>),
                     (''sexual'', \<lparr>FlagAt = Some (Fin (4 / 10)), BlockAt = Some (Fin (7 / 10))\<rparr>)],
      cProviderThresholds = \<lparr>Mode = [], Labels = [], UnarmedLabels = []\<rparr>,
      cFFmpeg = \<lparr>FFmpegPath = ''ffmpeg'', FFprobePath = ''ffprobe'', DefaultWorkflow = ''scene-detect'', MaxFrames = 64,
        MaxExtractFrames = 0, MaxWidth = 1280, ffTimeout = 120 * Second, Workflows = DefaultWorkflows\<rparr>,
      cFrames = \<lparr>Concurrency = 4, fcDedup = \<lparr>dcEnabled = False, HammingThreshold = 8\<rparr>\<rparr>,
      cSourceURL = \<lparr>fAllowHosts = [], fAllowPrivateHosts = [], fMaxBytes = 268435456, fTimeout = 60 * Second, fMaxAttempts = 3,
        fAllowedMediaTypes = [''video/mp4'', ''video/webm'', ''video/quicktime'', ''image/jpeg'', ''image/png'', ''image/webp'']\<rparr>,
      cQueue = \<lparr>qsDriver = ''memory'', qsWorkers = 4, qsBuffer = 1024, qsMaxRetries = 3, qsRetryBackoff = 2 * Second,
        qsDrainTimeout = 30 * Second, qsJobTimeout = 5 * Minute, qsDeadLetterMax = 1000,
        qsRedis = \<lparr>redisAddr = ''localhost:6379'', redisPassword = [], redisDB = 0\<rparr>\<rparr>,
      cAudit = \<lparr>acEnabled = True, acPath = ''audit.log''\<rparr>,
      cUI = \<lparr>uiEnabled = False, uiAddr = ''127.0.0.1:8081'', uiAuth = AuthModeBasic\<rparr>,
      cOutput = \<lparr>ocSinks = [stdoutSink], AllowUnrouted = False\<rparr>,
      cBackpressure = \<lparr>bpConsecutiveErrors = 20, bpErrorRatePct = Fin 50, bpWindow = 60 * Second, bpRecoverySuccesses = 5\<rparr>,
      cAllowEmptyVideoSkip = False, cLogLevel = ''info'', cMetricsAddr = '':9090'', cIntakeAddr = ''127.0.0.1:8080'',
      cResultAPI = \<lparr>raEnabled = False, raAuth = AuthModeBasic, raMaxEntries = 1000, raTTL = Hour\<rparr>\<rparr>"

section \<open>Validation\<close>

datatype webhookURLError =
    URLMissing | URLUnparseable goerr | URLScheme string | URLUserinfo | URLNoHost | URLLinkLocal Addr | URLNeedsTLS string

datatype configError =
    MaxFramesNotPositive
  | ExtractBelowScan int int
  | ConcurrencyNotPositive
  | HammingOutOfRange int
  | BadDriver string
  | ThresholdOutOfRange string
  | ProviderSection thresholdError
  | NoSinks
  | SinkInvalid nat goerr
  | SinkNoPath nat
  | SinkURL nat webhookURLError
  | SinkAttempts nat int
  | SinkTimeout nat int
  | SinkType nat string
  | EverySinkPredicated
  | HostEmpty string nat
  | HostPattern string nat string
  | MaxBytesNegative int
  | TimeoutNegative int
  | MaxAttemptsNegative int
  | BadAuth string
  | MaxEntriesNotPositive int
  | TTLNotPositive int
  | CredentialInFile string
  | ReadFailed goerr
  | ParseFailed goerr

type_synonym addrParser = "string \<Rightarrow> Addr option"

definition isLocalHostname :: "string \<Rightarrow> bool" where
  "isLocalHostname host \<longleftrightarrow>
     (let h = ToLower (TrimSuffix host ''.'') in h = ''localhost'' \<or> HasSuffix h ''.localhost'')"

text \<open>The predicates of \<open>net/netip\<close> look through an IPv4-mapped address.\<close>

definition validateWebhookURL :: "urlParser \<Rightarrow> addrParser \<Rightarrow> string \<Rightarrow> webhookURLError option" where
  "validateWebhookURL parse parseAddr raw =
     (if TrimSpace raw = [] then Some URLMissing
      else case parse raw of
          Inl e \<Rightarrow> Some (URLUnparseable e)
        | Inr u \<Rightarrow>
            if uScheme u \<noteq> ''http'' \<and> uScheme u \<noteq> ''https'' then Some (URLScheme (uScheme u))
            else if uUser u \<noteq> None then Some URLUserinfo
            else if uHost u = [] then Some URLNoHost
            else (let host = uHostname u; ip = map_option Unmap (parseAddr host) in
              if (case ip of Some a \<Rightarrow> IsLinkLocalUnicast a | None \<Rightarrow> False) then Some (URLLinkLocal (the (parseAddr host)))
              else if uScheme u = ''https'' then None
              else if isLocalHostname host then None
              else if (case ip of Some a \<Rightarrow> IsLoopback a \<or> IsPrivate a | None \<Rightarrow> False) then None
              else Some (URLNeedsTLS host)))"

definition checkSinkType :: "urlParser \<Rightarrow> addrParser \<Rightarrow> nat \<Rightarrow> SinkConfig \<Rightarrow> configError option" where
  "checkSinkType parse parseAddr i s =
     (let ty = ToLower (TrimSpace (scType s)) in
      if ty = ''stdout'' then None
      else if ty = ''file'' then (if TrimSpace (scPath s) = [] then Some (SinkNoPath i) else None)
      else if ty = ''webhook'' then
        (case validateWebhookURL parse parseAddr (scURL s) of
           Some e \<Rightarrow> Some (SinkURL i e)
         | None \<Rightarrow>
             if scMaxAttempts s < 0 then Some (SinkAttempts i (scMaxAttempts s))
             else if scTimeout s < 0 then Some (SinkTimeout i (scTimeout s)) else None)
      else Some (SinkType i (scType s)))"

definition validateSink :: "urlParser \<Rightarrow> addrParser \<Rightarrow> nat \<Rightarrow> SinkConfig \<Rightarrow> configError + SinkConfig" where
  "validateSink parse parseAddr i s =
     (case FormatterFor (scFormat s) (scMetadataFields s) of
        Inl e \<Rightarrow> Inl (SinkInvalid i e)
      | Inr fmtr \<Rightarrow>
          (case NormalizePredicate (scPredicate s) of
             Inl e \<Rightarrow> Inl (SinkInvalid i e)
           | Inr p \<Rightarrow>
               (case checkSinkType parse parseAddr i s of
                  Some e \<Rightarrow> Inl e
                | None \<Rightarrow> Inr (s\<lparr>scPredicate := p\<rparr>))))"

fun validateSinks :: "urlParser \<Rightarrow> addrParser \<Rightarrow> nat \<Rightarrow> SinkConfig list \<Rightarrow> configError + SinkConfig list" where
  "validateSinks parse parseAddr i [] = Inr []"
| "validateSinks parse parseAddr i (s # ss) =
     (case validateSink parse parseAddr i s of
        Inl e \<Rightarrow> Inl e
      | Inr s' \<Rightarrow>
          (case validateSinks parse parseAddr (i + 1) ss of Inl e \<Rightarrow> Inl e | Inr ss' \<Rightarrow> Inr (s' # ss')))"

text \<open>\<open>validateOutput\<close> normalizes the predicates in place: what it leaves in the caller's slice is the result.\<close>

definition validateOutput :: "urlParser \<Rightarrow> addrParser \<Rightarrow> OutputConfig \<Rightarrow> configError + OutputConfig" where
  "validateOutput parse parseAddr oc =
     (if ocSinks oc = [] then Inl NoSinks
      else case validateSinks parse parseAddr 0 (ocSinks oc) of
          Inl e \<Rightarrow> Inl e
        | Inr ss \<Rightarrow>
            (let unconditional = length (filter (\<lambda>s. PredicateIsEmpty (scPredicate s)) ss) in
             if unconditional = 0 \<and> \<not> AllowUnrouted oc then Inl EverySinkPredicated
             else Inr (oc\<lparr>ocSinks := ss\<rparr>)))"

fun validateHosts :: "string \<Rightarrow> nat \<Rightarrow> string list \<Rightarrow> configError option" where
  "validateHosts key i [] = None"
| "validateHosts key i (h # hs) =
     (if TrimSpace h = [] then Some (HostEmpty key i)
      else if list_ex (\<lambda>c. c = CHR ''*'' \<or> c = CHR ''/'') h then Some (HostPattern key i h)
      else validateHosts key (i + 1) hs)"

definition validateURLSource :: "FetchConfig \<Rightarrow> configError option" where
  "validateURLSource u =
     (case validateHosts ''allow_hosts'' 0 (fAllowHosts u) of
        Some e \<Rightarrow> Some e
      | None \<Rightarrow>
          (case validateHosts ''allow_private_hosts'' 0 (fAllowPrivateHosts u) of
             Some e \<Rightarrow> Some e
           | None \<Rightarrow>
               if fMaxBytes u < 0 then Some (MaxBytesNegative (fMaxBytes u))
               else if fTimeout u < 0 then Some (TimeoutNegative (fTimeout u))
               else if fMaxAttempts u < 0 then Some (MaxAttemptsNegative (fMaxAttempts u))
               else None))"

definition validateResultAPI :: "ResultAPIConfig \<Rightarrow> configError option" where
  "validateResultAPI r =
     (if raAuth r \<notin> {AuthModeBasic, AuthModeNone} then Some (BadAuth (raAuth r))
      else if raMaxEntries r \<le> 0 then Some (MaxEntriesNotPositive (raMaxEntries r))
      else if raTTL r \<le> 0 then Some (TTLNotPositive (raTTL r))
      else None)"

definition validateLimits :: "Config \<Rightarrow> configError option" where
  "validateLimits cfg =
     (let ff = cFFmpeg cfg; dd = fcDedup (cFrames cfg) in
      if MaxFrames ff \<le> 0 then Some MaxFramesNotPositive
      else if MaxExtractFrames ff \<noteq> 0 \<and> MaxExtractFrames ff < MaxFrames ff
        then Some (ExtractBelowScan (MaxExtractFrames ff) (MaxFrames ff))
      else if Concurrency (cFrames cfg) \<le> 0 then Some ConcurrencyNotPositive
      else if dcEnabled dd \<and> (HammingThreshold dd < 0 \<or> HammingThreshold dd > 64)
        then Some (HammingOutOfRange (HammingThreshold dd))
      else if qsDriver (cQueue cfg) \<notin> {''memory'', ''redis''} then Some (BadDriver (qsDriver (cQueue cfg)))
      else firstBad (\<lambda>kv. outsideUnit (FlagAt (snd kv)) \<or> outsideUnit (BlockAt (snd kv)))
             (\<lambda>kv. ThresholdOutOfRange (fst kv)) (cThresholds cfg))"

definition Validate :: "urlParser \<Rightarrow> addrParser \<Rightarrow> Config \<Rightarrow> configError + Config" where
  "Validate parse parseAddr cfg =
     (case validateLimits cfg of
        Some e \<Rightarrow> Inl e
      | None \<Rightarrow>
          (case validateProviderThresholds (cProviderThresholds cfg) of
             Some e \<Rightarrow> Inl (ProviderSection e)
           | None \<Rightarrow>
               (case validateOutput parse parseAddr (cOutput cfg) of
                  Inl e \<Rightarrow> Inl e
                | Inr out \<Rightarrow>
                    (case validateURLSource (cSourceURL cfg) of
                       Some e \<Rightarrow> Inl e
                     | None \<Rightarrow>
                         (case validateResultAPI (cResultAPI cfg) of
                            Some e \<Rightarrow> Inl e
                          | None \<Rightarrow> Inr (cfg\<lparr>cOutput := out\<rparr>))))))"

section \<open>Loading\<close>

text \<open>What the configuration reader did: the outcome of reading the file, the keys the file sets, and the
  configuration the file and the environment leave over the defaults.\<close>

record Reader =
  rdReadErr :: "goerr option"
  rdInConfig :: "string \<Rightarrow> bool"
  rdUnmarshal :: "Config \<Rightarrow> Config res"

definition resultAPICredentialKeys :: "string list" where
  "resultAPICredentialKeys = [''intake.result_api.user'', ''intake.result_api.password'']"

definition refuseYAMLCredentials :: "Reader \<Rightarrow> configError option" where
  "refuseYAMLCredentials v = firstBad (rdInConfig v) CredentialInFile resultAPICredentialKeys"

definition Load :: "urlParser \<Rightarrow> addrParser \<Rightarrow> Reader \<Rightarrow> string \<Rightarrow> configError + Config" where
  "Load parse parseAddr v path =
     (case (if path = [] then None
            else case rdReadErr v of Some e \<Rightarrow> Some (ReadFailed e) | None \<Rightarrow> refuseYAMLCredentials v) of
        Some e \<Rightarrow> Inl e
      | None \<Rightarrow>
          (case rdUnmarshal v Defaults of
             Inl e \<Rightarrow> Inl (ParseFailed e)
           | Inr cfg0 \<Rightarrow>
               (case Validate parse parseAddr (cfg0\<lparr>cThresholds := normalized (cThresholds cfg0)\<rparr>) of
                  Inl e \<Rightarrow> Inl e
                | Inr cfg \<Rightarrow>
                    (let p = (cProviderThresholds cfg)\<lparr>Labels := withUnarmed (cProviderThresholds cfg)\<rparr> in
                     Inr (cfg\<lparr>cProviderThresholds := p, cThresholds := Merge (cThresholds cfg) p\<rparr>)))))"

definition EnvPrefix :: string where "EnvPrefix = ''VISMOD''"

definition Secret :: "(string \<Rightarrow> string) \<Rightarrow> string \<Rightarrow> string" where
  "Secret getenv key =
     getenv (EnvPrefix @ ''_'' @ ToUpper (map (\<lambda>c. if c = CHR ''.'' \<or> c = CHR ''-'' then CHR ''_'' else c) key))"

section \<open>Facts about normalization\<close>

lemma normVerdicts_ok:
  "normVerdicts vs = Inr ls \<longleftrightarrow> ls = map (\<lambda>v. ToLower (TrimSpace v)) vs \<and> set ls \<subseteq> range verdict_string"
proof (induction vs arbitrary: ls)
  case (Cons v vs)
  have "{VerdictAllow, VerdictFlag, VerdictBlock, VerdictError} = UNIV" using Verdict.exhaust by blast
  then have r: "verdict_string ` {VerdictAllow, VerdictFlag, VerdictBlock, VerdictError} = range verdict_string" by metis
  show ?case
  proof (cases "ToLower (TrimSpace v) \<in> range verdict_string")
    case True
    have "normVerdicts (v # vs) = Inr ls \<longleftrightarrow> (\<exists>b. normVerdicts vs = Inr b \<and> ls = ToLower (TrimSpace v) # b)"
      unfolding normVerdicts.simps r Let_def if_P [OF True] by (cases "normVerdicts vs") auto
    moreover
    have "(\<exists>b. (b = map f vs \<and> set b \<subseteq> R) \<and> ls = f v # b) \<longleftrightarrow> ls = map f (v # vs) \<and> set ls \<subseteq> R"
      if "f v \<in> R" for f and R :: "string set" using that by (auto simp: image_subset_iff)
    note this [of "\<lambda>v. ToLower (TrimSpace v)", OF True]
    ultimately show ?thesis unfolding Cons.IH by (rule trans)
  next
    case False
    then show ?thesis unfolding normVerdicts.simps r Let_def if_not_P [OF False] by auto
  qed
qed auto

lemma normKinds_ok:
  "normKinds ks = Inr ls \<longleftrightarrow> ls = map (\<lambda>v. ToLower (TrimSpace v)) ks \<and> list_all validSourceKind ls"
proof (induction ks arbitrary: ls)
  case (Cons k ks)
  show ?case
  proof (cases "validSourceKind (ToLower (TrimSpace k))")
    case True
    have "normKinds (k # ks) = Inr ls \<longleftrightarrow> (\<exists>b. normKinds ks = Inr b \<and> ls = ToLower (TrimSpace k) # b)"
      unfolding normKinds.simps Let_def if_P [OF True] by (cases "normKinds ks") auto
    then show ?thesis unfolding Cons.IH using True by auto
  next
    case False
    then show ?thesis unfolding normKinds.simps Let_def if_not_P [OF False] by auto
  qed
qed auto

definition categoryOK :: "string \<times> float64 \<Rightarrow> bool" where
  "categoryOK e \<longleftrightarrow> Canonicalize (fst e) = fst e \<and> \<not> (f64_lt (snd e) (Fin 0) \<or> f64_lt (Fin 1) (snd e))"

definition upperKey :: "string \<times> float64 \<Rightarrow> string \<times> float64" where
  "upperKey e = (ToUpper (TrimSpace (fst e)), snd e)"

lemma upperKey_simps [simp]: "fst (upperKey e) = ToUpper (TrimSpace (fst e))" "snd (upperKey e) = snd e" "upperKey (upperKey e) = upperKey e"
  by (simp_all add: upperKey_def)

lemma normCategories_ok:
  "normCategories kvs canon = Inr cs \<longleftrightarrow>
     cs = canon @ map upperKey kvs \<and> list_all (\<lambda>e. categoryOK (upperKey e)) kvs
       \<and> distinct (map (\<lambda>e. ToUpper (TrimSpace (fst e))) kvs) \<and> (\<forall>e \<in> set kvs. ToUpper (TrimSpace (fst e)) \<notin> fst ` set canon)"
proof (induction kvs arbitrary: canon)
  case Nil
  then show ?case by auto
next
  case (Cons kv kvs)
  obtain k mn where kv: "kv = (k, mn)" by force
  let ?u = "ToUpper (TrimSpace k)"
  show ?case
  proof (cases "categoryOK (upperKey kv) \<and> ?u \<notin> fst ` set canon")
    case True
    then have st: "normCategories (kv # kvs) canon = normCategories kvs (canon @ [upperKey kv])"
      by (simp add: kv Let_def categoryOK_def map_of_eq_None_iff update_append upperKey_def)
    have "distinct (map (\<lambda>e. ToUpper (TrimSpace (fst e))) (kv # kvs)) \<longleftrightarrow>
      (\<forall>e \<in> set kvs. ToUpper (TrimSpace (fst e)) \<noteq> ?u) \<and> distinct (map (\<lambda>e. ToUpper (TrimSpace (fst e))) kvs)"
      by (auto simp: kv image_iff)
    then show ?thesis using True unfolding st Cons.IH by (auto simp: kv)
  next
    case False
    then have "\<exists>e. normCategories (kv # kvs) canon = Inl e"
      by (auto simp: kv Let_def categoryOK_def map_of_eq_None_iff)
    then show ?thesis using False by (auto simp: kv)
  qed
qed

lemma NormalizePredicate_ok:
  assumes "NormalizePredicate p = Inr q"
  shows "NormalizePredicate q = Inr q" "PredicateIsEmpty q = PredicateIsEmpty p"
    "set (pVerdicts q) \<subseteq> range verdict_string" "list_all validSourceKind (pSourceKinds q)" "list_all categoryOK (pCategories q)"
proof -
  obtain vs ks cs where n: "normVerdicts (pVerdicts p) = Inr vs" "normKinds (pSourceKinds p) = Inr ks"
    "normCategories (pCategories p) [] = Inr cs" "q = \<lparr>pVerdicts = vs, pCategories = cs, pSourceKinds = ks\<rparr>"
    using assms by (auto simp: NormalizePredicate_def split: sum.splits)
  have "normVerdicts vs = Inr vs" using n(1) by (auto simp: normVerdicts_ok)
  moreover have "normKinds ks = Inr ks" using n(2) by (auto simp: normKinds_ok)
  moreover have "normCategories cs [] = Inr cs" using n(3) by (auto simp: normCategories_ok comp_def list_all_iff)
  ultimately show "NormalizePredicate q = Inr q" using n(4) by (simp add: NormalizePredicate_def)
  show "PredicateIsEmpty q = PredicateIsEmpty p" using n by (simp add: PredicateIsEmpty_def normVerdicts_ok normKinds_ok normCategories_ok)
  show "set (pVerdicts q) \<subseteq> range verdict_string" "list_all validSourceKind (pSourceKinds q)" "list_all categoryOK (pCategories q)"
    using n by (auto simp: normVerdicts_ok normKinds_ok normCategories_ok list_all_iff)
qed

section \<open>Facts about validation\<close>

text \<open>What an accepted sink entry guarantees, and an accepted configuration. A bound may still be NaN.\<close>

definition sinkWF :: "urlParser \<Rightarrow> addrParser \<Rightarrow> SinkConfig \<Rightarrow> bool" where
  "sinkWF parse parseAddr s \<longleftrightarrow>
     (\<exists>f. FormatterFor (scFormat s) (scMetadataFields s) = Inr f) \<and> NormalizePredicate (scPredicate s) = Inr (scPredicate s)
     \<and> checkSinkType parse parseAddr 0 s = None"

definition configWF :: "urlParser \<Rightarrow> addrParser \<Rightarrow> Config \<Rightarrow> bool" where
  "configWF parse parseAddr cfg \<longleftrightarrow>
     0 < MaxFrames (cFFmpeg cfg) \<and> 0 < Concurrency (cFrames cfg) \<and> qsDriver (cQueue cfg) \<in> {''memory'', ''redis''}
     \<and> (MaxExtractFrames (cFFmpeg cfg) = 0 \<or> MaxFrames (cFFmpeg cfg) \<le> MaxExtractFrames (cFFmpeg cfg))
     \<and> list_all (\<lambda>(k, t). \<not> outsideUnit (FlagAt t) \<and> \<not> outsideUnit (BlockAt t)) (cThresholds cfg)
     \<and> ocSinks (cOutput cfg) \<noteq> [] \<and> list_all (sinkWF parse parseAddr) (ocSinks (cOutput cfg))
     \<and> (AllowUnrouted (cOutput cfg) \<or> list_ex (\<lambda>s. PredicateIsEmpty (scPredicate s)) (ocSinks (cOutput cfg)))
     \<and> list_all (\<lambda>h. TrimSpace h \<noteq> [] \<and> CHR ''*'' \<notin> set h \<and> CHR ''/'' \<notin> set h)
         (fAllowHosts (cSourceURL cfg) @ fAllowPrivateHosts (cSourceURL cfg))
     \<and> raAuth (cResultAPI cfg) \<in> {AuthModeBasic, AuthModeNone} \<and> 0 < raMaxEntries (cResultAPI cfg) \<and> 0 < raTTL (cResultAPI cfg)"

lemma checkSinkType_index: "checkSinkType parse pa i s = None \<longleftrightarrow> checkSinkType parse pa j (s\<lparr>scPredicate := p\<rparr>) = None"
  by (simp add: checkSinkType_def Let_def split: option.splits)

lemma validateSink_ok:
  assumes "validateSink parse pa i s = Inr s'"
  shows "validateSink parse pa i s' = Inr s'" "sinkWF parse pa s'"
    "PredicateIsEmpty (scPredicate s') = PredicateIsEmpty (scPredicate s)"
proof -
  obtain f p where n: "FormatterFor (scFormat s) (scMetadataFields s) = Inr f" "NormalizePredicate (scPredicate s) = Inr p"
    "checkSinkType parse pa i s = None" "s' = s\<lparr>scPredicate := p\<rparr>"
    using assms by (auto simp: validateSink_def split: sum.splits option.splits)
  have c: "checkSinkType parse pa j s' = None" for j using n(3,4) checkSinkType_index [of parse pa i s j p] by simp
  show "validateSink parse pa i s' = Inr s'" using n c NormalizePredicate_ok(1) [OF n(2)] by (simp add: validateSink_def)
  show "sinkWF parse pa s'" using n c NormalizePredicate_ok(1) [OF n(2)] by (simp add: sinkWF_def)
  show "PredicateIsEmpty (scPredicate s') = PredicateIsEmpty (scPredicate s)" using NormalizePredicate_ok(2) [OF n(2)] n(4) by simp
qed

lemma validateSinks_ok:
  "validateSinks parse pa i ss = Inr ss' \<Longrightarrow>
     validateSinks parse pa i ss' = Inr ss' \<and> list_all (sinkWF parse pa) ss' \<and> length ss' = length ss"
proof (induction ss arbitrary: i ss')
  case (Cons s ss)
  then obtain s1 ss1 where "validateSink parse pa i s = Inr s1" "validateSinks parse pa (i + 1) ss = Inr ss1" "ss' = s1 # ss1"
    by (auto split: sum.splits)
  then show ?case using Cons.IH [of "i + 1" ss1] validateSink_ok [of parse pa i s s1] by simp
qed simp

lemma validateOutput_ok:
  assumes "validateOutput parse pa oc = Inr oc'"
  shows "validateOutput parse pa oc' = Inr oc'" "ocSinks oc' \<noteq> []" "list_all (sinkWF parse pa) (ocSinks oc')"
    "AllowUnrouted oc' \<or> list_ex (\<lambda>s. PredicateIsEmpty (scPredicate s)) (ocSinks oc')"
proof -
  obtain ss where n: "ocSinks oc \<noteq> []" "validateSinks parse pa 0 (ocSinks oc) = Inr ss" "oc' = oc\<lparr>ocSinks := ss\<rparr>"
    "\<not> (length (filter (\<lambda>s. PredicateIsEmpty (scPredicate s)) ss) = 0 \<and> \<not> AllowUnrouted oc)"
    using assms by (auto simp: validateOutput_def Let_def split: sum.splits if_splits)
  note v = validateSinks_ok [OF n(2)]
  have ne: "ss \<noteq> []" using v n(1) by auto
  show "validateOutput parse pa oc' = Inr oc'" using n v ne by (simp add: validateOutput_def Let_def)
  show "ocSinks oc' \<noteq> []" "list_all (sinkWF parse pa) (ocSinks oc')" using n(3) ne v by auto
  show "AllowUnrouted oc' \<or> list_ex (\<lambda>s. PredicateIsEmpty (scPredicate s)) (ocSinks oc')"
    using n(3,4) by (auto simp: list_ex_iff filter_empty_conv)
qed

lemma validateHosts_ok:
  "validateHosts key i hs = None \<longleftrightarrow> list_all (\<lambda>h. TrimSpace h \<noteq> [] \<and> CHR ''*'' \<notin> set h \<and> CHR ''/'' \<notin> set h) hs"
  by (induction hs arbitrary: i) (auto simp: list_ex_iff)

lemma firstBad_None: "firstBad P mk xs = None \<longleftrightarrow> list_all (\<lambda>x. \<not> P x) xs"
  by (auto simp: firstBad_def find_None_iff list_all_iff)

lemma Validate_parts:
  "Validate parse pa cfg = Inr cfg' \<longleftrightarrow>
     (\<exists>out. validateLimits cfg = None \<and> validateProviderThresholds (cProviderThresholds cfg) = None
       \<and> validateOutput parse pa (cOutput cfg) = Inr out \<and> validateURLSource (cSourceURL cfg) = None
       \<and> validateResultAPI (cResultAPI cfg) = None \<and> cfg' = cfg\<lparr>cOutput := out\<rparr>)"
  by (auto simp: Validate_def split: option.splits sum.splits)

lemma validateLimits_output [simp]: "validateLimits (cfg\<lparr>cOutput := out\<rparr>) = validateLimits cfg"
proof -
  have "cFFmpeg (cfg\<lparr>cOutput := out\<rparr>) = cFFmpeg cfg" "cFrames (cfg\<lparr>cOutput := out\<rparr>) = cFrames cfg"
    "cQueue (cfg\<lparr>cOutput := out\<rparr>) = cQueue cfg" "cThresholds (cfg\<lparr>cOutput := out\<rparr>) = cThresholds cfg" by simp_all
  then show ?thesis unfolding validateLimits_def by (simp only:)
qed

lemma ExtractBudget_covers:
  assumes "0 < MaxFrames f" "MaxFrames f < 2 ^ 61" "MaxExtractFrames f = 0 \<or> MaxFrames f \<le> MaxExtractFrames f"
  shows "MaxFrames f \<le> ExtractBudget f"
proof -
  have "wrap64 (MaxFrames f * 4) = MaxFrames f * 4" using assms(1,2) by (simp add: wrap64_def)
  then show ?thesis using assms by (auto simp: ExtractBudget_def)
qed

section \<open>Properties\<close>

text \<open>
  C21. A configuration that passes validation is well formed: caps are positive, thresholds lie in the unit
  interval, every sink can be built and routes by a canonical predicate, some sink is unconditional unless the
  operator waived it, hosts are exact names, and the read side is bounded. Validation changes nothing but the
  spelling of the predicates, and accepts what it returns without change.
\<close>

theorem validated_config_wf:
  assumes "Validate parse pa cfg = Inr cfg'"
  shows "configWF parse pa cfg' \<and> Validate parse pa cfg' = Inr cfg' \<and> cfg' = cfg\<lparr>cOutput := cOutput cfg'\<rparr>
    \<and> (MaxFrames (cFFmpeg cfg') < 2 ^ 61 \<longrightarrow> MaxFrames (cFFmpeg cfg') \<le> ExtractBudget (cFFmpeg cfg'))"
proof -
  obtain out where v: "validateLimits cfg = None" "validateProviderThresholds (cProviderThresholds cfg) = None"
    "validateOutput parse pa (cOutput cfg) = Inr out" "validateURLSource (cSourceURL cfg) = None"
    "validateResultAPI (cResultAPI cfg) = None" "cfg' = cfg\<lparr>cOutput := out\<rparr>"
    using assms by (auto simp: Validate_parts)
  note o = validateOutput_ok [OF v(3)]
  have lim: "0 < MaxFrames (cFFmpeg cfg)" "0 < Concurrency (cFrames cfg)" "qsDriver (cQueue cfg) \<in> {''memory'', ''redis''}"
    "MaxExtractFrames (cFFmpeg cfg) = 0 \<or> MaxFrames (cFFmpeg cfg) \<le> MaxExtractFrames (cFFmpeg cfg)"
    "list_all (\<lambda>(k, t). \<not> outsideUnit (FlagAt t) \<and> \<not> outsideUnit (BlockAt t)) (cThresholds cfg)"
    using v(1) by (auto simp: validateLimits_def Let_def firstBad_None list_all_iff split: if_splits)
  have "configWF parse pa cfg'"
    using lim o v(4,5,6)
    by (auto simp: configWF_def validateURLSource_def validateResultAPI_def validateHosts_ok split: if_splits option.splits)
  moreover have "validateLimits cfg' = None" using v(1) unfolding v(6) by simp
  then have "Validate parse pa cfg' = Inr cfg'" using v o(1) by (simp add: Validate_parts)
  moreover have "MaxFrames (cFFmpeg cfg') < 2 ^ 61 \<longrightarrow> MaxFrames (cFFmpeg cfg') \<le> ExtractBudget (cFFmpeg cfg')"
    using ExtractBudget_covers lim v(6) by simp
  ultimately show ?thesis using v(6) by simp
qed

text \<open>The defaults with a second, file sink routed on ``Block'': it is accepted with the verdict spelled ``block''.\<close>

definition blockSink :: "string \<Rightarrow> SinkConfig" where
  "blockSink v = stdoutSink\<lparr>scType := ''file'', scPath := ''blocks.jsonl'', scPredicate := emptyPredicate\<lparr>pVerdicts := [v]\<rparr>\<rparr>"

definition twoSinks :: "string \<Rightarrow> Config" where
  "twoSinks v = Defaults\<lparr>cOutput := \<lparr>ocSinks = [blockSink v, stdoutSink], AllowUnrouted = False\<rparr>\<rparr>"

lemma twoSinks_valid: "Validate (\<lambda>_. Inl (errorf [])) (\<lambda>_. None) (twoSinks '' Block'') = Inr (twoSinks ''block'')"
  by code_simp

theorem validated_config_wf_witness:
  "configWF (\<lambda>_. Inl (errorf [])) (\<lambda>_. None) (twoSinks ''block'') \<and> MaxFrames (cFFmpeg (twoSinks ''block'')) \<le> ExtractBudget (cFFmpeg (twoSinks ''block''))"
  using validated_config_wf [OF twoSinks_valid] by (simp add: twoSinks_def Defaults_def)

end
