(* ===== verification/Frames.thy ===== *)
theory Frames
  imports Moderation "HOL-Library.Sublist" "HOL-Library.Multiset"
begin

text \<open>
  Frame post-processing (\<open>internal/frames/dedup.go\<close>) and the scanner on ffmpeg's stderr
  (\<open>internal/frames/stderrscan.go\<close>). The difference hash is modelled from the cell averages on: the
  arithmetic that averages the pixels of a cell is an argument, because float64 rounding is not
  represented; which pixels are sampled is computed. Timestamps read from decimal text are kept exact.
\<close>

unbundle bit_operations_syntax

section \<open>Near-duplicate removal (dedup.go)\<close>

record Frame =
  fIndex :: nat
  fTimestampSec :: float64
  fPath :: string

definition OnesCount64 :: "64 word \<Rightarrow> nat" where
  "OnesCount64 w = length (filter (bit w) [0..<64])"

text \<open>The scan for a kept hash within the threshold.\<close>

definition isDup :: "int \<Rightarrow> 64 word list \<Rightarrow> 64 word \<Rightarrow> bool" where
  "isDup threshold keptHashes h = list_ex (\<lambda>k. int (OnesCount64 (h XOR k)) \<le> threshold) keptHashes"

text \<open>The first argument is what \<open>dhashFile\<close> returns for a path after the given files were removed. The
  loop returns the kept frames and the paths it removed.\<close>

fun dedupLoop ::
  "(string list \<Rightarrow> string \<Rightarrow> 64 word res) \<Rightarrow> int \<Rightarrow> Frame list \<Rightarrow> 64 word list \<Rightarrow> string list \<Rightarrow> Frame list \<times> string list" where
  "dedupLoop dhash threshold [] hs gone = ([], gone)"
| "dedupLoop dhash threshold (f # fs) hs gone =
     (case dhash gone (fPath f) of
        Inl e \<Rightarrow> (let (kept, g) = dedupLoop dhash threshold fs hs gone in (f # kept, g))
      | Inr h \<Rightarrow>
          if isDup threshold hs h then dedupLoop dhash threshold fs hs (gone @ [fPath f])
          else (let (kept, g) = dedupLoop dhash threshold fs (hs @ [h]) gone in (f # kept, g)))"

fun reindex :: "nat \<Rightarrow> Frame list \<Rightarrow> Frame list" where
  "reindex i [] = []"
| "reindex i (f # fs) = f\<lparr>fIndex := i\<rparr> # reindex (Suc i) fs"

definition Dedup ::
  "(string list \<Rightarrow> string \<Rightarrow> 64 word res) \<Rightarrow> Frame list \<Rightarrow> int \<Rightarrow> Frame list \<times> nat \<times> string list" where
  "Dedup dhash fs threshold =
     (if threshold < 0 \<or> length fs < 2 then (fs, 0, [])
      else (let (kept, gone) = dedupLoop dhash threshold fs [] [] in (reindex 0 kept, length gone, gone)))"

section \<open>The difference hash (dedup.go)\<close>

definition maxCellSamples :: int where "maxCellSamples = 8"

definition cellStep :: "int \<Rightarrow> int" where
  "cellStep n = (if n \<le> maxCellSamples then 1 else (n + maxCellSamples - 1) div maxCellSamples)"

text \<open>The pixel span of grid cell \<open>g\<close> of \<open>parts\<close> along an axis that starts at \<open>lo\<close> and has \<open>n\<close> pixels.\<close>

definition cellSpan :: "int \<Rightarrow> int \<Rightarrow> int \<Rightarrow> int \<Rightarrow> int \<times> int" where
  "cellSpan lo n parts g =
     (let a = lo + g * n div parts; b = lo + (g + 1) * n div parts in if b \<le> a then (a, a + 1) else (a, b))"

function sampleLoop :: "int \<Rightarrow> int \<Rightarrow> int \<Rightarrow> int list" where
  "sampleLoop y y1 st = (if y < y1 \<and> 0 < st then y # sampleLoop (y + st) y1 st else [])"
  by auto
termination by (relation "measure (\<lambda>(y, y1, st). nat (y1 - y))") auto

declare sampleLoop.simps [simp del]

definition cellSamples :: "int \<Rightarrow> int \<Rightarrow> int \<Rightarrow> int \<Rightarrow> int list" where
  "cellSamples lo n parts g = (let (a, b) = cellSpan lo n parts g in sampleLoop a b (cellStep (b - a)))"

record Bounds =
  minX :: int
  minY :: int
  width :: int
  height :: int

text \<open>\<open>mean xs ys\<close> is the average luma over the sampled columns and rows of one cell.\<close>

definition gridAt :: "(int list \<Rightarrow> int list \<Rightarrow> float64) \<Rightarrow> Bounds \<Rightarrow> nat \<Rightarrow> nat \<Rightarrow> float64" where
  "gridAt mean b gy gx =
     mean (cellSamples (minX b) (width b) 9 (int gx)) (cellSamples (minY b) (height b) 8 (int gy))"

definition gradients :: "(nat \<Rightarrow> nat \<Rightarrow> float64) \<Rightarrow> bool list" where
  "gradients grid = concat (map (\<lambda>gy. map (\<lambda>gx. f64_lt (grid gy gx) (grid gy (gx + 1))) [0..<8]) [0..<8])"

definition hashBits :: "bool list \<Rightarrow> 64 word" where
  "hashBits bs = foldl (\<lambda>hash b. push_bit 1 hash OR (if b then 1 else 0)) 0 bs"

text \<open>Opening and decoding the file gives its bounds and its sampler, or fails.\<close>

definition dhashFile :: "string \<Rightarrow> (Bounds \<times> (int list \<Rightarrow> int list \<Rightarrow> float64)) res \<Rightarrow> 64 word res" where
  "dhashFile path img =
     (case img of
        Inl e \<Rightarrow> Inl e
      | Inr (b, mean) \<Rightarrow>
          if width b = 0 \<or> height b = 0 then Inl (errorf (''empty image '' @ path))
          else Inr (hashBits (gradients (gridAt mean b))))"

section \<open>The stderr scanner (stderrscan.go)\<close>

definition stderrTailBytes :: nat where "stderrTailBytes = 8192"
definition stderrLineMax :: nat where "stderrLineMax = 65536"

record stderrScanner =
  timestamps :: "float64 list"
  stail :: string
  partial :: string

definition newScanner :: stderrScanner where
  "newScanner = \<lparr>timestamps = [], stail = [], partial = []\<rparr>"

definition digitChar :: "char \<Rightarrow> bool" where
  "digitChar c = (let n = of_char c :: nat in 48 \<le> n \<and> n \<le> 57)"

definition reSpace :: "char \<Rightarrow> bool" where
  "reSpace c = (let n = of_char c :: nat in n = 32 \<or> n = 9 \<or> n = 10 \<or> n = 12 \<or> n = 13)"

text \<open>The submatch of \<open>showinfoRe\<close> when the match starts here, split at the decimal point, and the leftmost
  match.\<close>

definition showinfoHere :: "string \<Rightarrow> (string \<times> string) option" where
  "showinfoHere s =
     (if HasPrefix s ''pts_time:'' then
        (let rest = dropWhile reSpace (drop 9 s);
             whole = takeWhile digitChar rest;
             after = dropWhile digitChar rest;
             decs = (case after of [] \<Rightarrow> [] | c # cs \<Rightarrow> if c = CHR ''.'' then takeWhile digitChar cs else [])
         in if whole = [] then None else Some (whole, decs))
      else None)"

fun showinfoRe :: "string \<Rightarrow> (string \<times> string) option" where
  "showinfoRe [] = showinfoHere []"
| "showinfoRe (c # s) = (case showinfoHere (c # s) of None \<Rightarrow> showinfoRe s | Some m \<Rightarrow> Some m)"

definition digitsValue :: "string \<Rightarrow> int" where
  "digitsValue s = foldl (\<lambda>n c. n * 10 + (int (of_char c) - 48)) 0 s"

text \<open>\<open>strconv.ParseFloat\<close> on digits with an optional fraction: out of range from the midpoint above the
  largest float64 on.\<close>

definition parseDecimal :: "string \<times> string \<Rightarrow> float64 option" where
  "parseDecimal m =
     (case m of (whole, decs) \<Rightarrow>
        let v = (of_int (digitsValue (whole @ decs)) / 10 ^ length decs :: rat)
        in if v \<ge> 2 ^ 1024 - 2 ^ 970 then None else Some (Fin v))"

definition lineTimestamps :: "string \<Rightarrow> float64 list" where
  "lineTimestamps line =
     (case showinfoRe line of None \<Rightarrow> [] | Some m \<Rightarrow> (case parseDecimal m of None \<Rightarrow> [] | Some v \<Rightarrow> [v]))"

definition scanLine :: "stderrScanner \<Rightarrow> string \<Rightarrow> stderrScanner" where
  "scanLine s line = s\<lparr>timestamps := timestamps s @ lineTimestamps line\<rparr>"

definition appendPartial :: "stderrScanner \<Rightarrow> string \<Rightarrow> stderrScanner" where
  "appendPartial s b =
     (if length (partial s) \<ge> stderrLineMax then s
      else (let room = stderrLineMax - length (partial s);
                b' = (if length b > room then take room b else b)
            in s\<lparr>partial := partial s @ b'\<rparr>))"

definition appendTail :: "stderrScanner \<Rightarrow> string \<Rightarrow> stderrScanner" where
  "appendTail s p =
     (if length p \<ge> stderrTailBytes then s\<lparr>stail := drop (length p - stderrTailBytes) p\<rparr>
      else (let over = int (length (stail s)) + int (length p) - int stderrTailBytes;
                t = (if over > 0 then drop (nat over) (stail s) else stail s)
            in s\<lparr>stail := t @ p\<rparr>))"

lemma IndexByte_less: "IndexByte s b = Some i \<Longrightarrow> i < length s"
  by (induction s arbitrary: i) (auto split: if_splits)

function writeLoop :: "stderrScanner \<Rightarrow> string \<Rightarrow> stderrScanner" where
  "writeLoop s p =
     (case IndexByte p (CHR 0x0A) of
        None \<Rightarrow> appendPartial s p
      | Some i \<Rightarrow>
          (let line = take i p;
               s1 = (if partial s \<noteq> [] then appendPartial s line else s);
               s2 = scanLine s1 (if partial s \<noteq> [] then partial s1 else line)
           in writeLoop (s2\<lparr>partial := []\<rparr>) (drop (i + 1) p)))"
  by auto
termination by (relation "measure (\<lambda>(s, p). length p)") (auto dest: IndexByte_less)

declare writeLoop.simps [simp del]

definition scannerWrite :: "stderrScanner \<Rightarrow> string \<Rightarrow> stderrScanner \<times> nat" where
  "scannerWrite s p = (writeLoop (appendTail s p) p, length p)"

definition Flush :: "stderrScanner \<Rightarrow> stderrScanner" where
  "Flush s = (if partial s \<noteq> [] then (scanLine s (partial s))\<lparr>partial := []\<rparr> else s)"

definition scanStderrText :: "string \<Rightarrow> stderrScanner" where
  "scanStderrText txt = Flush (fst (scannerWrite newScanner txt))"

text \<open>What the process writes, in the pieces it happens to write it.\<close>

definition scanChunks :: "string list \<Rightarrow> stderrScanner" where
  "scanChunks ps = Flush (foldl (\<lambda>s p. fst (scannerWrite s p)) newScanner ps)"

text \<open>Reference: every line of the text, in order.\<close>

definition textTimestamps :: "string \<Rightarrow> float64 list" where
  "textTimestamps txt = concat (map lineTimestamps (SplitByte txt (CHR 0x0A)))"

definition lastBytes :: "nat \<Rightarrow> string \<Rightarrow> string" where
  "lastBytes n s = drop (length s - n) s"

section \<open>Facts on de-duplication\<close>

lemma reindex_paths [simp]: "map fPath (reindex i fs) = map fPath fs"
  by (induction fs arbitrary: i) auto

lemma reindex_length [simp]: "length (reindex i fs) = length fs"
  by (induction fs arbitrary: i) auto

lemma reindex_index: "k < length fs \<Longrightarrow> fIndex (reindex i fs ! k) = i + k"
  by (induction fs arbitrary: i k) (auto simp: nth_Cons split: nat.splits)

text \<open>The hash of a path that was not removed, as a total function.\<close>

definition settledHash :: "(string list \<Rightarrow> string \<Rightarrow> 64 word res) \<Rightarrow> (string \<Rightarrow> 64 word res) \<Rightarrow> bool" where
  "settledHash dhash h \<longleftrightarrow> (\<forall>gone p. p \<notin> set gone \<longrightarrow> dhash gone p = h p)"

definition near :: "int \<Rightarrow> 64 word \<Rightarrow> 64 word \<Rightarrow> bool" where
  "near threshold a b \<longleftrightarrow> int (OnesCount64 (a XOR b)) \<le> threshold"

definition hashesOf :: "(string \<Rightarrow> 64 word res) \<Rightarrow> Frame list \<Rightarrow> 64 word list" where
  "hashesOf h fs = concat (map (\<lambda>f. case h (fPath f) of Inl e \<Rightarrow> [] | Inr x \<Rightarrow> [x]) fs)"

lemma isDup_near: "isDup t hs h \<longleftrightarrow> (\<exists>k \<in> set hs. near t h k)"
  by (simp add: isDup_def near_def list_ex_iff)

lemma dedupLoop_spec:
  assumes "settledHash dhash h" "distinct (map fPath fs)" "set gone \<inter> fPath ` set fs = {}"
    and "dedupLoop dhash t fs hs gone = (kept, g)"
  shows "subseq kept fs \<and> (\<exists>gs. g = gone @ gs \<and> mset (map fPath fs) = mset (map fPath kept) + mset gs) \<and>
    (\<forall>f \<in> set fs. f \<in> set kept \<or> (\<exists>x y. h (fPath f) = Inr x \<and> y \<in> set hs \<union> set (hashesOf h kept) \<and> near t x y)) \<and>
    sorted_wrt (\<lambda>k x. \<not> near t x k) (hashesOf h kept) \<and>
    (\<forall>k \<in> set hs. \<forall>x \<in> set (hashesOf h kept). \<not> near t x k)"
  using assms(2-4)
proof (induction fs arbitrary: hs gone kept g)
  case Nil
  then show ?case by (simp add: hashesOf_def)
next
  case (Cons f fs)
  have d: "dhash gone (fPath f) = h (fPath f)" using assms(1) Cons.prems(2) by (simp add: settledHash_def)
  have dist: "distinct (map fPath fs)" "set gone \<inter> fPath ` set fs = {}" "fPath f \<notin> fPath ` set fs"
    using Cons.prems by auto
  show ?case
  proof (cases "h (fPath f)")
    case (Inl e)
    obtain kept' where k: "dedupLoop dhash t fs hs gone = (kept', g)" "kept = f # kept'"
      using Cons.prems(3) d Inl by (auto split: prod.splits)
    from Cons.IH [OF dist(1,2) k(1)] show ?thesis using k(2) Inl by (auto simp: hashesOf_def)
  next
    case (Inr x)
    show ?thesis
    proof (cases "isDup t hs x")
      case True
      then have k: "dedupLoop dhash t fs hs (gone @ [fPath f]) = (kept, g)" using Cons.prems(3) d Inr by simp
      have "set (gone @ [fPath f]) \<inter> fPath ` set fs = {}" using dist by auto
      note ih = Cons.IH [OF dist(1) this k]
      then have "\<exists>gs. g = gone @ gs \<and> mset (map fPath (f # fs)) = mset (map fPath kept) + mset gs" by auto
      moreover have "subseq kept (f # fs)" using ih by blast
      moreover have "\<exists>x y. h (fPath f) = Inr x \<and> y \<in> set hs \<union> set (hashesOf h kept) \<and> near t x y"
        using True Inr by (auto simp: isDup_near)
      ultimately show ?thesis using ih by auto
    next
      case False
      then obtain kept' where k: "dedupLoop dhash t fs (hs @ [x]) gone = (kept', g)" "kept = f # kept'"
        using Cons.prems(3) d Inr by (auto split: prod.splits)
      note ih = Cons.IH [OF dist(1,2) k(1)]
      have hk: "hashesOf h kept = x # hashesOf h kept'" using k(2) Inr by (simp add: hashesOf_def)
      have "\<forall>k \<in> set hs. \<not> near t x k" using False by (simp add: isDup_near)
      then show ?thesis using ih hk k(2) by auto
    qed
  qed
qed

lemma dedupLoop_first:
  "dedupLoop dhash t (f # fs) [] gone = (kept, g) \<Longrightarrow> \<exists>ks. kept = f # ks"
  by (auto simp: isDup_def split: sum.splits prod.splits)

section \<open>Facts on the hash\<close>

lemma hashBits_snoc: "hashBits (bs @ [b]) = push_bit 1 (hashBits bs) OR (if b then 1 else 0)"
  by (simp add: hashBits_def)

lemma bit_hashBits: "length bs \<le> 64 \<Longrightarrow> bit (hashBits bs) n \<longleftrightarrow> n < length bs \<and> bs ! (length bs - 1 - n)"
proof (induction bs arbitrary: n rule: rev_induct)
  case (snoc b bs)
  show ?case
  proof (cases n)
    case 0
    then show ?thesis by (cases b) (simp_all add: hashBits_snoc even_or_iff bit_0)
  next
    case (Suc m)
    have ih: "bit (hashBits bs) m \<longleftrightarrow> m < length bs \<and> bs ! (length bs - 1 - m)" using snoc by simp
    have "bit (hashBits (bs @ [b])) (Suc m) \<longleftrightarrow> Suc m < 64 \<and> bit (hashBits bs) m"
      by (simp only: hashBits_snoc bit_or_iff bit_push_bit_iff) (simp add: bit_1_iff possible_bit_word)
    also have "\<dots> \<longleftrightarrow> m < length bs \<and> (bs @ [b]) ! (length bs - 1 - m)" using ih snoc.prems by (auto simp: nth_append)
    finally show ?thesis using Suc by simp
  qed
qed (simp add: hashBits_def)

lemma concat_rows_nth:
  "\<forall>r \<in> set rows. length r = n \<Longrightarrow> i < length rows \<Longrightarrow> j < n \<Longrightarrow> concat rows ! (i * n + j) = rows ! i ! j"
proof (induction rows arbitrary: i)
  case (Cons r rows)
  then show ?case by (cases i) (auto simp: nth_append algebra_simps)
qed simp

lemma gradients_length: "length (gradients grid) = 64"
  by (simp add: gradients_def length_concat comp_def sum_list_triv)

lemma gradients_nth: "gy < 8 \<Longrightarrow> gx < 8 \<Longrightarrow> gradients grid ! (gy * 8 + gx) = f64_lt (grid gy gx) (grid gy (gx + 1))"
  unfolding gradients_def by (subst concat_rows_nth [where n = 8]) auto

lemma sampleLoop_set: "0 < st \<Longrightarrow> z \<in> set (sampleLoop y y1 st) \<Longrightarrow> y \<le> z \<and> z < y1"
  by (induction y y1 st rule: sampleLoop.induct) (subst (asm) (2) sampleLoop.simps, auto split: if_splits)

lemma sampleLoop_length: "0 < st \<Longrightarrow> y1 \<le> y + st * int n \<Longrightarrow> length (sampleLoop y y1 st) \<le> n"
proof (induction n arbitrary: y)
  case 0
  then show ?case by (simp add: sampleLoop.simps)
next
  case (Suc n)
  have "y1 \<le> (y + st) + st * int n" using Suc.prems(2) by (simp add: algebra_simps)
  from Suc.IH [OF Suc.prems(1) this] show ?case by (subst sampleLoop.simps) auto
qed

lemma cellStep_pos: "0 < cellStep n"
  by (auto simp: cellStep_def maxCellSamples_def)

lemma cellStep_covers: "n \<le> cellStep n * 8"
  by (auto simp: cellStep_def maxCellSamples_def)

lemma cellSpan_inside:
  assumes "0 < n" "0 < parts" "0 \<le> g" "g < parts" "cellSpan lo n parts g = (a, b)"
  shows "lo \<le> a" "a < b" "b \<le> lo + n"
proof -
  have "g * n < n * parts" using assms by (simp add: mult.commute)
  moreover have "g * n div parts * parts + g * n mod parts = g * n" "0 \<le> g * n mod parts" using assms(2) by simp_all
  ultimately have "g * n div parts * parts < n * parts" by linarith
  then have 1: "g * n div parts < n" using assms(2) by simp
  have "(g + 1) * n \<le> n * parts" using assms(1,4) by (simp add: mult.commute)
  then have "(g + 1) * n div parts \<le> n * parts div parts" using assms(2) by (rule zdiv_mono1)
  then have 2: "(g + 1) * n div parts \<le> n" using assms(2) by simp
  have 3: "0 \<le> g * n div parts" using assms by (simp add: pos_imp_zdiv_nonneg_iff)
  show "lo \<le> a" "a < b" "b \<le> lo + n" using assms(5) 1 2 3 by (auto simp: cellSpan_def Let_def split: if_splits)
qed

lemma cellSamples_bounds:
  assumes "0 < n" "0 < parts" "0 \<le> g" "g < parts"
  shows "cellSamples lo n parts g \<noteq> []" "length (cellSamples lo n parts g) \<le> 8"
    "z \<in> set (cellSamples lo n parts g) \<Longrightarrow> lo \<le> z \<and> z < lo + n"
proof -
  obtain a b where ab: "cellSpan lo n parts g = (a, b)" by force
  note i = cellSpan_inside [OF assms ab]
  have c: "cellSamples lo n parts g = sampleLoop a b (cellStep (b - a))" by (simp add: cellSamples_def ab)
  show "cellSamples lo n parts g \<noteq> []" using c i(2) cellStep_pos by (subst (asm) sampleLoop.simps) simp
  have "b \<le> a + cellStep (b - a) * int 8" using cellStep_covers [of "b - a"] by simp
  from sampleLoop_length [OF cellStep_pos this] show "length (cellSamples lo n parts g) \<le> 8" using c by simp
  show "z \<in> set (cellSamples lo n parts g) \<Longrightarrow> lo \<le> z \<and> z < lo + n"
    using c sampleLoop_set [OF cellStep_pos, of z a b "b - a"] i by auto
qed

section \<open>Facts on the scanner\<close>

lemma SplitByte_ne [simp]: "SplitByte s b \<noteq> []"
  by (cases s) (auto split: list.splits)

lemma SplitByte_append:
  "SplitByte (u @ v) b = butlast (SplitByte u b) @ (last (SplitByte u b) @ hd (SplitByte v b)) # tl (SplitByte v b)"
proof (induction u)
  case (Cons c u)
  then show ?case by (auto split: list.splits simp: neq_Nil_conv)
qed simp

lemma SplitByte_none: "IndexByte s b = None \<Longrightarrow> SplitByte s b = [s]"
  by (induction s) (auto split: if_splits)

lemma IndexByte_split:
  "IndexByte s b = Some i \<Longrightarrow> s = take i s @ b # drop (Suc i) s \<and> IndexByte (take i s) b = None"
  by (induction s arbitrary: i) (auto split: if_splits)

definition shows_text :: "stderrScanner \<Rightarrow> string \<Rightarrow> bool" where
  "shows_text s t \<longleftrightarrow> timestamps s = concat (map lineTimestamps (butlast (SplitByte t (CHR 0x0A)))) \<and>
     partial s = last (SplitByte t (CHR 0x0A))"

definition shortLines :: "string \<Rightarrow> bool" where
  "shortLines t = list_all (\<lambda>l. length l \<le> stderrLineMax) (SplitByte t (CHR 0x0A))"

lemma appendPartial_short: "length (partial s @ b) \<le> stderrLineMax \<Longrightarrow> appendPartial s b = s\<lparr>partial := partial s @ b\<rparr>"
  by (cases b) (auto simp: appendPartial_def Let_def)

lemma shortLines_append: "shortLines (u @ v) \<Longrightarrow> length (last (SplitByte u (CHR 0x0A)) @ hd (SplitByte v (CHR 0x0A))) \<le> stderrLineMax"
  by (simp add: shortLines_def SplitByte_append)

lemma writeLoop_shows:
  "shows_text s t \<Longrightarrow> shortLines (t @ p) \<Longrightarrow> shows_text (writeLoop s p) (t @ p)"
proof (induction s p arbitrary: t rule: writeLoop.induct)
  case (1 s p)
  let ?L = "SplitByte t (CHR 0x0A)"
  show ?case
  proof (cases "IndexByte p (CHR 0x0A)")
    case None
    then have p: "SplitByte p (CHR 0x0A) = [p]" by (rule SplitByte_none)
    have "length (partial s @ p) \<le> stderrLineMax" using shortLines_append [OF "1.prems"(2)] "1.prems"(1) p by (simp add: shows_text_def)
    then show ?thesis using None "1.prems"(1) p
      by (simp add: writeLoop.simps shows_text_def SplitByte_append appendPartial_short)
  next
    case (Some i)
    let ?line = "take i p" and ?rest = "drop (i + 1) p"
    have p: "p = ?line @ CHR 0x0A # ?rest" "SplitByte ?line (CHR 0x0A) = [?line]"
      using IndexByte_split [OF Some] SplitByte_none by auto
    have tp: "t @ p = (t @ ?line @ [CHR 0x0A]) @ ?rest" using p(1) by simp
    have l: "SplitByte (t @ ?line @ [CHR 0x0A]) (CHR 0x0A) = butlast ?L @ [last ?L @ ?line, []]"
      using p(2) by (simp add: SplitByte_append)
    have "hd (SplitByte p (CHR 0x0A)) = ?line"
      using arg_cong [OF p(1), of "\<lambda>x. hd (SplitByte x (CHR 0x0A))"] p(2) by (simp add: SplitByte_append del: append_take_drop_id)
    then have len: "length (partial s @ ?line) \<le> stderrLineMax"
      using shortLines_append [OF "1.prems"(2)] "1.prems"(1) by (simp add: shows_text_def)
    define s1 where "s1 = (if partial s \<noteq> [] then appendPartial s ?line else s)"
    define s2 where "s2 = (scanLine s1 (if partial s \<noteq> [] then partial s1 else ?line))\<lparr>partial := []\<rparr>"
    have w: "writeLoop s p = writeLoop s2 ?rest" using Some by (subst writeLoop.simps) (simp add: s2_def s1_def Let_def)
    have "timestamps s2 = timestamps s @ lineTimestamps (partial s @ ?line)" "partial s2 = []"
      using appendPartial_short [OF len] by (auto simp: s2_def s1_def scanLine_def)
    then have "shows_text s2 (t @ ?line @ [CHR 0x0A])"
      using "1.prems"(1) by (simp add: shows_text_def l butlast_append)
    then have "shows_text (writeLoop s2 ?rest) ((t @ ?line @ [CHR 0x0A]) @ ?rest)"
      using "1.IH" [OF Some refl refl refl] "1.prems"(2) tp unfolding s2_def s1_def by metis
    then show ?thesis using tp w by simp
  qed
qed

lemma writeLoop_stail: "stail (writeLoop s p) = stail s"
proof (induction s p rule: writeLoop.induct)
  case (1 s p)
  show ?case
  proof (cases "IndexByte p (CHR 0x0A)")
    case None
    then show ?thesis by (subst writeLoop.simps) (simp add: appendPartial_def Let_def)
  next
    case (Some i)
    then show ?thesis using "1.IH" [OF Some refl refl refl]
      by (subst writeLoop.simps) (simp add: appendPartial_def scanLine_def Let_def)
  qed
qed

lemma writeLoop_partial: "length (partial s) \<le> stderrLineMax \<Longrightarrow> length (partial (writeLoop s p)) \<le> stderrLineMax"
proof (induction s p rule: writeLoop.induct)
  case (1 s p)
  show ?case
  proof (cases "IndexByte p (CHR 0x0A)")
    case None
    then show ?thesis using "1.prems" by (subst writeLoop.simps) (auto simp: appendPartial_def Let_def)
  next
    case (Some i)
    then show ?thesis using "1.IH" [OF Some refl refl refl] by (subst writeLoop.simps) (simp add: Let_def)
  qed
qed

lemma appendTail_last: "stail s = lastBytes stderrTailBytes t \<Longrightarrow> stail (appendTail s p) = lastBytes stderrTailBytes (t @ p)"
proof (cases "stderrTailBytes \<le> length p")
  case True
  assume "stail s = lastBytes stderrTailBytes t"
  show ?thesis using True by (simp add: appendTail_def lastBytes_def)
next
  case False
  assume a: "stail s = lastBytes stderrTailBytes t"
  let ?a = "length t - (length t - stderrTailBytes)"
  have n: "nat (int ?a + int (length p) - int stderrTailBytes) = ?a + length p - stderrTailBytes"
    "0 < int ?a + int (length p) - int stderrTailBytes \<longleftrightarrow> stderrTailBytes < ?a + length p" by linarith+
  have "stail (appendTail s p) = drop (?a + length p - stderrTailBytes) (drop (length t - stderrTailBytes) t) @ p"
    using a False n by (simp add: appendTail_def lastBytes_def Let_def del: of_nat_diff)
  also have "\<dots> = lastBytes stderrTailBytes (t @ p)"
    using False by (cases "length t \<le> stderrTailBytes") (simp_all add: lastBytes_def drop_drop add.commute)
  finally show ?thesis .
qed

lemma chunks_tail:
  "stail s = lastBytes stderrTailBytes t \<Longrightarrow>
     stail (foldl (\<lambda>s p. fst (scannerWrite s p)) s ps) = lastBytes stderrTailBytes (t @ concat ps)"
proof (induction ps arbitrary: s t)
  case (Cons p ps)
  have "stail (writeLoop (appendTail s p) p) = lastBytes stderrTailBytes (t @ p)"
    using appendTail_last [OF Cons.prems] by (simp add: writeLoop_stail)
  from Cons.IH [OF this] show ?case by (simp add: scannerWrite_def)
qed simp

lemma chunks_partial:
  "length (partial s) \<le> stderrLineMax \<Longrightarrow> length (partial (foldl (\<lambda>s p. fst (scannerWrite s p)) s ps)) \<le> stderrLineMax"
proof (induction ps arbitrary: s)
  case (Cons p ps)
  have "length (partial (appendTail s p)) \<le> stderrLineMax" using Cons.prems by (simp add: appendTail_def Let_def)
  from Cons.IH [OF writeLoop_partial [OF this, of p]] show ?case by (simp add: scannerWrite_def)
qed simp

lemma shortLines_prefix: "shortLines (u @ v) \<Longrightarrow> shortLines u"
proof -
  assume a: "shortLines (u @ v)"
  have "list_all (\<lambda>l. length l \<le> stderrLineMax) (butlast (SplitByte u (CHR 0x0A)))" "length (last (SplitByte u (CHR 0x0A))) \<le> stderrLineMax"
    using a by (auto simp: shortLines_def SplitByte_append)
  then show ?thesis unfolding shortLines_def
    by (metis SplitByte_ne append_butlast_last_id list_all_append list.pred_inject(2) list.pred_inject(1))
qed

lemma chunks_show:
  "shows_text s t \<Longrightarrow> shortLines (t @ concat ps) \<Longrightarrow>
     shows_text (foldl (\<lambda>s p. fst (scannerWrite s p)) s ps) (t @ concat ps)"
proof (induction ps arbitrary: s t)
  case (Cons p ps)
  have sh: "shortLines (t @ p)" using shortLines_prefix [of "t @ p" "concat ps"] Cons.prems(2) by simp
  have "shows_text (appendTail s p) t" using Cons.prems(1) by (simp add: shows_text_def appendTail_def Let_def)
  from Cons.IH [OF writeLoop_shows [OF this sh]] Cons.prems(2) show ?case by (simp add: scannerWrite_def)
qed simp

lemma lineTimestamps_Nil [simp]: "lineTimestamps [] = []"
  by (simp add: lineTimestamps_def showinfoHere_def HasPrefix_def)

lemma Flush_shows: "shows_text s t \<Longrightarrow> timestamps (Flush s) = textTimestamps t"
proof -
  assume a: "shows_text s t"
  let ?L = "SplitByte t (CHR 0x0A)"
  have "textTimestamps t = concat (map lineTimestamps (butlast ?L)) @ lineTimestamps (last ?L)"
    unfolding textTimestamps_def
    by (subst append_butlast_last_id [OF SplitByte_ne, symmetric]) (simp del: append_butlast_last_id)
  then show ?thesis using a by (auto simp: Flush_def scanLine_def shows_text_def)
qed

definition demoFrame :: "string \<Rightarrow> Frame" where
  "demoFrame p = \<lparr>fIndex = 0, fTimestampSec = Fin 0, fPath = p\<rparr>"

section \<open>Properties\<close>

text \<open>
  De-duplication keeps evidence: over distinct files, the kept frames are a subsequence of the input that
  starts with its first frame, renumbered from zero; a dropped frame was hashed and lies within the threshold
  of a kept one; no two kept hashes lie within it; exactly the dropped frames' files are removed.
\<close>

theorem dedup_keeps_evidence:
  assumes "settledHash dhash h" "distinct (map fPath fs)" "Dedup dhash fs threshold = (kept, removed, gone)"
  shows "subseq (map fPath kept) (map fPath fs) \<and> take 1 (map fPath kept) = take 1 (map fPath fs) \<and>
    mset (map fPath fs) = mset (map fPath kept) + mset gone \<and> removed = length gone \<and>
    (0 \<le> threshold \<and> 2 \<le> length fs \<longrightarrow>
      map fIndex kept = [0..<length kept] \<and> sorted_wrt (\<lambda>k x. \<not> near threshold x k) (hashesOf h kept) \<and>
      (\<forall>f \<in> set fs. fPath f \<in> fPath ` set kept \<or>
         (\<exists>x. h (fPath f) = Inr x \<and> (\<exists>y \<in> set (hashesOf h kept). near threshold x y))))"
proof (cases "threshold < 0 \<or> length fs < 2")
  case True
  then show ?thesis using assms(3) by (auto simp: Dedup_def)
next
  case False
  then obtain k where k: "dedupLoop dhash threshold fs [] [] = (k, gone)" "kept = reindex 0 k" "removed = length gone"
    using assms(3) by (auto simp: Dedup_def split: prod.splits)
  note sp = dedupLoop_spec [OF assms(1,2) _ k(1), simplified]
  obtain f fs' where f: "fs = f # fs'" using False by (cases fs) auto
  obtain ks where ks: "k = f # ks" using dedupLoop_first k(1) f by blast
  have pk: "fPath ` set kept = fPath ` set k" using k(2) by (metis list.set_map reindex_paths)
  have hk: "hashesOf h kept = hashesOf h k"
  proof -
    have "hashesOf h xs = concat (map (\<lambda>p. case h p of Inl e \<Rightarrow> [] | Inr x \<Rightarrow> [x]) (map fPath xs))" for xs
      by (simp add: hashesOf_def comp_def)
    then show ?thesis using k(2) by (metis reindex_paths)
  qed
  have ix: "map fIndex kept = [0..<length kept]" using k(2) by (auto intro!: nth_equalityI simp: reindex_index)
  have "subseq (map fPath kept) (map fPath fs)" using sp k(2) by (simp add: subseq_map)
  moreover have "take 1 (map fPath kept) = take 1 (map fPath fs)" using k(2) ks f by simp
  moreover have "mset (map fPath fs) = mset (map fPath kept) + mset gone" using sp k(2) by simp
  ultimately show ?thesis using sp k(3) ix hk pk by auto
qed

theorem dedup_keeps_evidence_witness:
  "\<exists>kept gone. Dedup (\<lambda>_ _. Inr 0) [demoFrame ''a'', demoFrame ''b''] 0 = (kept, 1, gone) \<and>
     subseq (map fPath kept) [''a'', ''b''] \<and> mset [''a'', ''b''] = mset (map fPath kept) + mset gone"
proof -
  have h: "settledHash (\<lambda>_ _. Inr 0) (\<lambda>_. Inr 0)" by (simp add: settledHash_def)
  have d: "Dedup (\<lambda>_ _. Inr 0) [demoFrame ''a'', demoFrame ''b''] 0 = ([demoFrame ''a''], 1, [''b''])"
    by (simp add: Dedup_def demoFrame_def isDup_def OnesCount64_def)
  show ?thesis using dedup_keeps_evidence [OF h _ d] d by (simp add: demoFrame_def)
qed

text \<open>
  Every bit of the hash is the sign of one horizontal gradient: row \<open>gy\<close> and column \<open>gx\<close> of the 8 by 8
  comparisons is bit \<open>63 - (8 gy + gx)\<close>. Each cell samples at least one and at most eight rows and columns,
  all inside the image, so the averages are never taken over nothing.
\<close>

theorem dhash_bits:
  assumes "0 < width b" "0 < height b" "gy < 8" "gx < 9"
  shows "(gx < 8 \<longrightarrow> (\<exists>w. dhashFile path (Inr (b, mean)) = Inr w \<and>
      bit w (63 - (gy * 8 + gx)) = f64_lt (gridAt mean b gy gx) (gridAt mean b gy (gx + 1)))) \<and>
    (let xs = cellSamples (minX b) (width b) 9 (int gx); ys = cellSamples (minY b) (height b) 8 (int gy)
     in xs \<noteq> [] \<and> ys \<noteq> [] \<and> length xs \<le> 8 \<and> length ys \<le> 8 \<and>
        list_all (\<lambda>x. minX b \<le> x \<and> x < minX b + width b) xs \<and> list_all (\<lambda>y. minY b \<le> y \<and> y < minY b + height b) ys)"
proof -
  have "bit (hashBits (gradients grid)) (63 - (gy * 8 + gx)) = f64_lt (grid gy gx) (grid gy (gx + 1))" if "gx < 8" for grid
  proof -
    have "63 - (63 - (gy * 8 + gx)) = gy * 8 + gx" "63 - (gy * 8 + gx) < 64" using assms(3) that by simp_all
    then show ?thesis using assms(3) that gradients_nth [of gy gx grid] by (simp add: bit_hashBits gradients_length)
  qed
  moreover note cellSamples_bounds [of "width b" 9 "int gx"] cellSamples_bounds [of "height b" 8 "int gy"]
  ultimately show ?thesis using assms by (simp add: dhashFile_def Let_def list_all_iff)
qed

theorem dhash_bits_witness:
  "\<exists>w. dhashFile ''a'' (Inr (\<lparr>minX = 0, minY = 0, width = 9, height = 8\<rparr>, \<lambda>xs ys. Fin (of_int (hd xs)))) = Inr w \<and>
     bit w 63 = f64_lt (gridAt (\<lambda>xs ys. Fin (of_int (hd xs))) \<lparr>minX = 0, minY = 0, width = 9, height = 8\<rparr> 0 0)
       (gridAt (\<lambda>xs ys. Fin (of_int (hd xs))) \<lparr>minX = 0, minY = 0, width = 9, height = 8\<rparr> 0 1)"
  using dhash_bits [of "\<lparr>minX = 0, minY = 0, width = 9, height = 8\<rparr>" 0 0] by simp

text \<open>
  C18. However the process splits its output into writes, the scanner holds at most 8 KiB of tail and 64 KiB of
  partial line, the tail is the end of everything written, and when no line exceeds the limit the timestamps
  are those of all lines in order, as if the whole text had been kept.
\<close>

theorem stderr_scan_streams:
  "length (stail (scanChunks ps)) \<le> stderrTailBytes \<and> length (partial (scanChunks ps)) \<le> stderrLineMax \<and>
   stail (scanChunks ps) = lastBytes stderrTailBytes (concat ps) \<and>
   (shortLines (concat ps) \<longrightarrow> timestamps (scanChunks ps) = textTimestamps (concat ps) \<and>
      timestamps (scanStderrText (concat ps)) = textTimestamps (concat ps))"
proof -
  let ?s = "\<lambda>qs. foldl (\<lambda>s p. fst (scannerWrite s p)) newScanner qs"
  have ft: "stail (Flush s) = stail s" for s by (simp add: Flush_def scanLine_def)
  have t: "stail (?s ps) = lastBytes stderrTailBytes (concat ps)"
    using chunks_tail [of newScanner "[]" ps] by (simp add: newScanner_def lastBytes_def)
  have fp: "length (partial (Flush (?s ps))) \<le> stderrLineMax"
    using chunks_partial [of newScanner ps] by (simp add: Flush_def newScanner_def)
  have sh: "shortLines (concat qs) \<Longrightarrow> timestamps (Flush (?s qs)) = textTimestamps (concat qs)" for qs
    using Flush_shows [OF chunks_show [of newScanner "[]" qs]] by (simp add: shows_text_def newScanner_def)
  have l: "length (lastBytes n x) \<le> n" for n x by (simp add: lastBytes_def)
  have "scanStderrText (concat ps) = Flush (?s [concat ps])" by (simp add: scanStderrText_def)
  then show ?thesis using t fp sh [of ps] sh [of "[concat ps]"] l by (simp add: scanChunks_def ft)
qed

theorem stderr_scan_streams_witness:
  "timestamps (scanChunks [''pts_ti'', ''me:1'' @ [CHR 0x0A]]) = textTimestamps (''pts_time:1'' @ [CHR 0x0A])"
  using stderr_scan_streams [of "[''pts_ti'', ''me:1'' @ [CHR 0x0A]]"] by (simp add: shortLines_def stderrLineMax_def)

end
