(* ===== verification/Pipeline.thy ===== *)
theory Pipeline
  imports Rollup AuditLog Sinks Frames Fetch Memq
begin

text \<open>
  The per-job flow of \<open>internal/pipeline/pipeline.go\<close>: resolve the source, evaluate its frames, threshold, roll
  up, deliver, audit, and map the outcome to a queue disposition. Everything the job meets outside the
  package is an argument: the adapter, the frame source, the fetcher, the file system, the clock, and the
  answers of the sink, the audit log and the event log. The frame tasks run in any completion order, which
  is an argument too. Logging, metrics and the removal of temporary directories are left out. Frame
  timestamps are numbers (the frame source never produces a NaN).
\<close>

section \<open>Collaborators\<close>

text \<open>An adapter call may panic. \<open>AnalyzeImage\<close> gets the index of the frame, so that a call may answer
  differently for equal images.\<close>

record Moderator =
  mName :: string
  mCaps :: Caps
  mAnalyzeImage :: "nat \<Rightarrow> Image \<Rightarrow> NormalizedResult res call"
  mAnalyzeVideo :: "(Source \<Rightarrow> NormalizedResult res call) option"

record Pipeline =
  pModerator :: Moderator
  pThresholds :: Thresholds
  pConcurrency :: int
  pModelID :: ModelIdentity
  pAllowEmptyVideoSkip :: bool
  pDedup :: bool
  pDedupThreshold :: int
  pMaxScanFrames :: int

text \<open>\<open>None\<close> for the fetcher, the frame source, the audit log or the event log is a nil interface. Reading and
  hashing a file depend on the files removed so far.\<close>

record JobWorld =
  wParse :: urlParser
  wMkdir :: "string res"
  wFetch :: "(string \<Rightarrow> string \<Rightarrow> string res) option"
  wFrames :: "(string \<Rightarrow> string list \<Rightarrow> Frame list res) option"
  wDhash :: "string list \<Rightarrow> string \<Rightarrow> 64 word res"
  wReadFile :: "string list \<Rightarrow> string \<Rightarrow> string res"
  wSniff :: "string \<Rightarrow> string"
  wOrder :: "nat \<Rightarrow> nat list"
  wStarted :: int
  wFinished :: int
  wSink :: "ResultEnvelope \<Rightarrow> goerr option"
  wAudit :: "(ResultEnvelope \<Rightarrow> goerr option) option"
  wEvents :: "(string \<Rightarrow> (string \<times> string) list \<Rightarrow> goerr option) option"

definition errEmptyVideoSkipped :: goerr where
  "errEmptyVideoSkipped = sentinelErr ErrEmptyVideoSkipped ''empty video skipped by operator override''"

definition concurrency :: "Pipeline \<Rightarrow> int" where
  "concurrency p = (if pConcurrency p > 0 then pConcurrency p else 4)"

definition sniffMIME :: "JobWorld \<Rightarrow> string \<Rightarrow> string" where
  "sniffMIME w b = wSniff w (if length b > 512 then take 512 b else b)"

section \<open>One frame\<close>

definition evaluateFrame ::
  "Pipeline \<Rightarrow> JobWorld \<Rightarrow> string list \<Rightarrow> nat \<Rightarrow> string \<Rightarrow> float64 option \<Rightarrow> (FrameResult \<times> string) res call" where
  "evaluateFrame p w gone i path ts =
     (case wReadFile w gone path of
        Inl e \<Rightarrow> Ret (Inl (wrapf (''read '' @ path @ '': '') e))
      | Inr b \<Rightarrow>
          (let m = pModerator p; img = \<lparr>Bytes = b, MIME = sniffMIME w b\<rparr> in
           if MaxImageBytes (mCaps m) > 0 \<and> int (length b) > MaxImageBytes (mCaps m) then
             Ret (Inl (errorf (''image is '' @ show_nat (length b) @ '' bytes, adapter '' @ mName m @ '' max is ''
               @ show_int (MaxImageBytes (mCaps m)) @ '' (terminal)'')))
           else case mAnalyzeImage m i img of
               Panicked msg \<Rightarrow> Panicked msg
             | Ret (Inl e) \<Rightarrow> Ret (Inl (wrapf ''analyze: '' e))
             | Ret (Inr res) \<Rightarrow>
                 (case nrFrames res of
                    [] \<Rightarrow> Ret (Inl (errorf (''adapter '' @ mName m @ '' returned no frame result'')))
                  | fr # _ \<Rightarrow>
                      Ret (Inr (fr\<lparr>TimestampSec := ts, Status := FrameOK,
                                   Categories := ApplyThresholds (Categories fr) (pThresholds p)\<rparr>, Raw res)))))"

definition errorFrame :: "float64 option \<Rightarrow> string \<Rightarrow> FrameResult" where
  "errorFrame ts msg = \<lparr>TimestampSec = ts, Status = FrameError, frError = msg, Categories = []\<rparr>"

record frameOutcome =
  foRes :: FrameResult
  foRaw :: string

text \<open>The task of one frame: an error or a panic becomes an error frame with no provider response.\<close>

definition frameTask :: "Pipeline \<Rightarrow> JobWorld \<Rightarrow> string list \<Rightarrow> nat \<Rightarrow> Frame \<Rightarrow> frameOutcome" where
  "frameTask p w gone i f =
     (let ts = Some (fTimestampSec f) in
      case evaluateFrame p w gone i (fPath f) ts of
        Panicked m \<Rightarrow> \<lparr>foRes = errorFrame ts (''frame task panic: '' @ m), foRaw = []\<rparr>
      | Ret (Inl e) \<Rightarrow> \<lparr>foRes = errorFrame ts (emsg e), foRaw = []\<rparr>
      | Ret (Inr (fr, raw)) \<Rightarrow> \<lparr>foRes = fr, foRaw = raw\<rparr>)"

text \<open>The fan-out: each task writes its own slot when it completes.\<close>

definition zeroOutcome :: frameOutcome where
  "zeroOutcome = \<lparr>foRes = zeroFrame, foRaw = []\<rparr>"

definition fanOut :: "Pipeline \<Rightarrow> JobWorld \<Rightarrow> string list \<Rightarrow> Frame list \<Rightarrow> frameOutcome list" where
  "fanOut p w gone fs =
     foldl (\<lambda>outcomes i. outcomes[i := frameTask p w gone i (fs ! i)]) (replicate (length fs) zeroOutcome) (wOrder w (length fs))"

section \<open>Ordering and evidence\<close>

definition outcomeLess :: "frameOutcome \<Rightarrow> frameOutcome \<Rightarrow> bool" where
  "outcomeLess a b =
     (case (TimestampSec (foRes a), TimestampSec (foRes b)) of
        (Some x, Some y) \<Rightarrow> f64_lt x y
      | (ta, _) \<Rightarrow> ta \<noteq> None)"

fun insertOutcome :: "frameOutcome \<Rightarrow> frameOutcome list \<Rightarrow> frameOutcome list" where
  "insertOutcome x [] = [x]"
| "insertOutcome x (y # ys) = (if outcomeLess x y then x # y # ys else y # insertOutcome x ys)"

definition sortOutcomes :: "frameOutcome list \<Rightarrow> frameOutcome list" where
  "sortOutcomes xs = foldl (\<lambda>acc x. insertOutcome x acc) [] xs"

text \<open>\<open>json.Marshal\<close> of a raw message: compacted, with the HTML-sensitive characters escaped; nil is \<open>null\<close>.\<close>

fun escapeHTML :: "string \<Rightarrow> string" where
  "escapeHTML (c # d # e # s) =
     (if c = CHR ''<'' then CHR 0x5C # ''u003c'' @ escapeHTML (d # e # s)
      else if c = CHR ''>'' then CHR 0x5C # ''u003e'' @ escapeHTML (d # e # s)
      else if c = CHR ''&'' then CHR 0x5C # ''u0026'' @ escapeHTML (d # e # s)
      else if c = CHR 0xE2 \<and> d = CHR 0x80 \<and> (e = CHR 0xA8 \<or> e = CHR 0xA9)
        then CHR 0x5C # ''u202'' @ (if e = CHR 0xA8 then ''8'' else ''9'') @ escapeHTML s
      else c # escapeHTML (d # e # s))"
| "escapeHTML (c # s) =
     (if c = CHR ''<'' then CHR 0x5C # ''u003c'' @ escapeHTML s
      else if c = CHR ''>'' then CHR 0x5C # ''u003e'' @ escapeHTML s
      else if c = CHR ''&'' then CHR 0x5C # ''u0026'' @ escapeHTML s
      else c # escapeHTML s)"
| "escapeHTML [] = []"

definition marshalRaw :: "string \<Rightarrow> string option" where
  "marshalRaw raw = (if raw = [] then Some ''null'' else map_option escapeHTML (Compact raw))"

definition buildRawEvidence :: "frameOutcome list \<Rightarrow> string res" where
  "buildRawEvidence outcomes =
     (if list_all (\<lambda>x. foRaw x = []) outcomes then Inr []
      else case those (map (\<lambda>x. marshalRaw (foRaw x)) outcomes) of
          None \<Rightarrow> Inl (errorf ''json: error calling MarshalJSON for type json.RawMessage'')
        | Some parts \<Rightarrow> Inr (''['' @ Join parts '','' @ '']''))"

definition rawDigest :: "string \<Rightarrow> string" where
  "rawDigest raw = (if raw = [] then [] else hex_encode (sha256 raw))"

section \<open>The source\<close>

record resolved =
  rsLocal :: Source
  rsEnv :: Source

definition resolveSource :: "JobWorld \<Rightarrow> Job \<Rightarrow> resolved \<times> goerr option" where
  "resolveSource w j =
     (let src = jSource j in
      if Kind src \<noteq> ''url'' then (\<lparr>rsLocal = src, rsEnv = src\<rparr>, None)
      else
        (let (r, digest) = Redact (wParse w) (Ref src);
             envSrc = \<lparr>Kind = ''url'', Ref = r, RefDigest = digest, srcMediaType = srcMediaType src\<rparr>;
             failed = (\<lambda>e. (\<lparr>rsLocal = envSrc, rsEnv = envSrc\<rparr>, Some e))
         in case wFetch w of
             None \<Rightarrow> failed (errorf ''no url fetcher is wired into this pipeline'')
           | Some fetch \<Rightarrow>
               (case wMkdir w of
                  Inl e \<Rightarrow> failed (wrapf ''fetch workdir: '' e)
                | Inr dir \<Rightarrow>
                    (case fetch (Ref src) dir of
                       Inl e \<Rightarrow> failed e
                     | Inr path \<Rightarrow>
                         (\<lparr>rsLocal = \<lparr>Kind = ''file'', Ref = path, RefDigest = [], srcMediaType = srcMediaType src\<rparr>,
                           rsEnv = envSrc\<rparr>, None)))))"

section \<open>Images and videos\<close>

text \<open>A result and the raw evidence behind it.\<close>

definition processImage :: "Pipeline \<Rightarrow> JobWorld \<Rightarrow> Job \<Rightarrow> (NormalizedResult \<times> string) res call" where
  "processImage p w j =
     (case evaluateFrame p w [] 0 (Ref (jSource j)) None of
        Panicked m \<Rightarrow> Panicked m
      | Ret (Inl e) \<Rightarrow> Ret (Inl e)
      | Ret (Inr (fr, raw)) \<Rightarrow>
          Ret (Inr (zeroResult\<lparr>Provider := mName (pModerator p), nrModelVersion := miModelVersion (pModelID p),
            nrMediaType := ''image'', nrFrames := [fr]\<rparr>, raw)))"

text \<open>Whether and how tightly near-duplicates are dropped: a job may tighten or disable, never loosen.\<close>

definition dedupSetting :: "Pipeline \<Rightarrow> Job \<Rightarrow> bool \<times> int" where
  "dedupSetting p j =
     (case DedupThreshold j of
        None \<Rightarrow> (pDedup p, pDedupThreshold p)
      | Some t \<Rightarrow> (t \<ge> 0, if t > pDedupThreshold p then pDedupThreshold p else t))"

definition scanFrames :: "Pipeline \<Rightarrow> JobWorld \<Rightarrow> Job \<Rightarrow> Frame list \<Rightarrow> Frame list \<times> string list" where
  "scanFrames p w j fs0 =
     (let (enabled, threshold) = dedupSetting p j;
          (fs1, gone) = (if enabled then (let (kept, removed, g) = Dedup (wDhash w) fs0 threshold in (kept, g)) else (fs0, []));
          fs2 = (if pMaxScanFrames p > 0 \<and> int (length fs1) > pMaxScanFrames p then take (nat (pMaxScanFrames p)) fs1 else fs1)
      in (fs2, gone))"

definition videoOutcomes :: "Pipeline \<Rightarrow> JobWorld \<Rightarrow> Job \<Rightarrow> Frame list \<Rightarrow> frameOutcome list" where
  "videoOutcomes p w j fs = (let (fs', gone) = scanFrames p w j fs in sortOutcomes (fanOut p w gone fs'))"

definition processVideo :: "Pipeline \<Rightarrow> JobWorld \<Rightarrow> Job \<Rightarrow> (NormalizedResult \<times> string) res call" where
  "processVideo p w j =
     (let m = pModerator p in
      case (if SupportsVideo (mCaps m) then mAnalyzeVideo m else None) of
        Some analyze \<Rightarrow>
          (case analyze (jSource j) of
             Panicked msg \<Rightarrow> Panicked msg
           | Ret (Inl e) \<Rightarrow> Ret (Inl (wrapf ''video-native analyze: '' e))
           | Ret (Inr res) \<Rightarrow>
               Ret (Inr (res\<lparr>nrFrames := map (\<lambda>f. f\<lparr>Categories := ApplyThresholds (Categories f) (pThresholds p)\<rparr>) (nrFrames res),
                             Raw := []\<rparr>, Raw res)))
      | None \<Rightarrow>
          (case wFrames w of
             None \<Rightarrow> Ret (Inl (errorf ''no frame source configured for video input''))
           | Some frames \<Rightarrow>
               (case frames (Ref (jSource j)) (Workflows j) of
                  Inl e \<Rightarrow> Ret (Inl (wrapf ''frame extraction: '' e))
                | Inr fs \<Rightarrow>
                    if fs = [] then
                      (if pAllowEmptyVideoSkip p then Ret (Inl errEmptyVideoSkipped)
                       else Ret (Inl (errorf ''frame extraction produced zero frames'')))
                    else
                      (let outcomes = videoOutcomes p w j fs;
                           raw = (case buildRawEvidence outcomes of Inl e \<Rightarrow> [] | Inr r \<Rightarrow> r)
                       in Ret (Inr (zeroResult\<lparr>Provider := mName m, nrModelVersion := miModelVersion (pModelID p),
                            nrMediaType := ''video'', nrFrames := map foRes outcomes\<rparr>, raw))))))"

section \<open>The job\<close>

definition errorResult :: "Pipeline \<Rightarrow> Job \<Rightarrow> goerr \<Rightarrow> NormalizedResult" where
  "errorResult p j cause =
     zeroResult\<lparr>Provider := mName (pModerator p), nrModelVersion := miModelVersion (pModelID p),
       nrMediaType := srcMediaType (jSource j), nrFrames := [errorFrame None (emsg cause)]\<rparr>"

definition frameErrors :: "FrameResult list \<Rightarrow> goerr option \<Rightarrow> string" where
  "frameErrors frs procErr =
     (case procErr of
        Some e \<Rightarrow> emsg e
      | None \<Rightarrow>
          (let msgs = map frError (filter (\<lambda>f. Status f = FrameError \<and> frError f \<noteq> []) frs) in
           if msgs = [] then ''could not evaluate (no scorable signal)'' else Join msgs ''; ''))"

text \<open>What \<open>ProcessJob\<close> returns, and what it handed to the sink, the audit log and the event log.\<close>

record JobOutcome =
  oEnv :: "ResultEnvelope option"
  oDisp :: Disposition
  oErr :: "goerr option"
  oSent :: "ResultEnvelope option"
  oAudited :: "ResultEnvelope option"
  oEvent :: "(string \<times> (string \<times> string) list) option"

definition skipEnvelope :: "Pipeline \<Rightarrow> JobWorld \<Rightarrow> Job \<Rightarrow> Source \<Rightarrow> string \<Rightarrow> ResultEnvelope" where
  "skipEnvelope p w j src meta =
     \<lparr>eJobID = jID j, eSource = src, ModelID = pModelID p, eResult = None, eError = [], eMetadata = meta, RawSHA256 = [],
      StartedAt = wStarted w, FinishedAt = wFinished w\<rparr>"

definition skipJob :: "Pipeline \<Rightarrow> JobWorld \<Rightarrow> Job \<Rightarrow> Source \<Rightarrow> string \<Rightarrow> JobOutcome" where
  "skipJob p w j src meta =
     (let flds = [(''job_id'', jID j), (''asset_id'', Ref src), (''adapter'', Adapter (pModelID p)), (''config_hash'', ConfigHash (pModelID p))];
          done = \<lparr>oEnv = Some (skipEnvelope p w j src meta), oDisp = Ack, oErr = None, oSent = None, oAudited = None, oEvent = None\<rparr>
      in case wEvents w of
          None \<Rightarrow> done
        | Some emit \<Rightarrow>
            (case emit ''empty_video_skip_override'' flds of
               Some e \<Rightarrow> \<lparr>oEnv = None, oDisp = DeadLetter, oErr = Some (wrapf ''override audit event failed: '' e), oSent = None,
                 oAudited = None, oEvent = Some (''empty_video_skip_override'', flds)\<rparr>
             | None \<Rightarrow> done\<lparr>oEvent := Some (''empty_video_skip_override'', flds)\<rparr>))"

definition stampResult :: "Pipeline \<Rightarrow> Job \<Rightarrow> Source \<Rightarrow> NormalizedResult \<Rightarrow> NormalizedResult" where
  "stampResult p j src res =
     res\<lparr>nrSchemaVersion := SchemaVersion,
         AssetID := (if Ref src = [] then jID j else Ref src),
         nrMediaType := (if nrMediaType res = [] then srcMediaType src else nrMediaType res),
         Overall := Rollup (nrFrames res) (pThresholds p)\<rparr>"

text \<open>Everything from the stamping on, given the result, its evidence and the processing error.\<close>

definition finishJob ::
  "Pipeline \<Rightarrow> JobWorld \<Rightarrow> Job \<Rightarrow> Source \<Rightarrow> string \<Rightarrow> NormalizedResult \<Rightarrow> string \<Rightarrow> goerr option \<Rightarrow> JobOutcome" where
  "finishJob p w j src meta res0 rawEvidence procErr =
     (let res = stampResult p j src res0;
          isErr = (ovVerdict (Overall res) = VerdictError);
          env = \<lparr>eJobID = jID j, eSource = src, ModelID = pModelID p, eResult = Some res,
                 eError = (if isErr then frameErrors (nrFrames res) procErr else []), eMetadata = meta,
                 RawSHA256 = rawDigest rawEvidence, StartedAt = wStarted w, FinishedAt = wFinished w\<rparr>;
          out = \<lparr>oEnv = Some env, oDisp = Ack, oErr = None, oSent = Some env, oAudited = None, oEvent = None\<rparr>
      in case wSink w env of
          Some e \<Rightarrow> out\<lparr>oDisp := Retry, oErr := Some (wrapf ''sink write: '' e)\<rparr>
        | None \<Rightarrow>
            (let out' = (case wAudit w of None \<Rightarrow> out | Some _ \<Rightarrow> out\<lparr>oAudited := Some env\<rparr>) in
             case (case wAudit w of None \<Rightarrow> None | Some rec \<Rightarrow> rec env) of
               Some e \<Rightarrow> out'\<lparr>oDisp := DeadLetter, oErr := Some (wrapf ''audit append: '' e)\<rparr>
             | None \<Rightarrow>
                 if isErr then out'\<lparr>oDisp := DeadLetter, oErr := Some (errorf (''verdict=error: '' @ eError env))\<rparr>
                 else out'))"

definition evaluateJob :: "Pipeline \<Rightarrow> JobWorld \<Rightarrow> Job \<Rightarrow> resolved \<Rightarrow> goerr option \<Rightarrow> goerr option \<Rightarrow> (NormalizedResult \<times> string) res call" where
  "evaluateJob p w j rs metaErr resolveErr =
     (case metaErr of
        Some e \<Rightarrow> Ret (Inl (wrapf ''invalid metadata: '' e))
      | None \<Rightarrow>
          (case resolveErr of
             Some e \<Rightarrow> Ret (Inl e)
           | None \<Rightarrow> if srcMediaType (rsEnv rs) = ''video'' then processVideo p w j else processImage p w j))"

definition ProcessJob :: "Pipeline \<Rightarrow> JobWorld \<Rightarrow> Job \<Rightarrow> JobOutcome call" where
  "ProcessJob p w j0 =
     (let v = ValidateMetadata (jMetadata j0);
          meta = (case v of Inl e \<Rightarrow> [] | Inr m \<Rightarrow> m);
          metaErr = (case v of Inl e \<Rightarrow> Some e | Inr m \<Rightarrow> None);
          (rs, resolveErr) = resolveSource w j0;
          j = j0\<lparr>jSource := rsLocal rs\<rparr>
      in case evaluateJob p w j rs metaErr resolveErr of
          Panicked m \<Rightarrow> Panicked m
        | Ret (Inl e) \<Rightarrow>
            if errorsIs e ErrEmptyVideoSkipped then Ret (skipJob p w j (rsEnv rs) meta)
            else Ret (finishJob p w j (rsEnv rs) meta (errorResult p j e) [] (Some e))
        | Ret (Inr (res, raw)) \<Rightarrow> Ret (finishJob p w j (rsEnv rs) meta res raw None))"

definition Process :: "Pipeline \<Rightarrow> JobWorld \<Rightarrow> Job \<Rightarrow> (Disposition \<times> goerr option) call" where
  "Process p w j = (case ProcessJob p w j of Panicked m \<Rightarrow> Panicked m | Ret out \<Rightarrow> Ret (oDisp out, oErr out))"

section \<open>Facts on the fan-out\<close>

lemma foldl_slots:
  "length (foldl (\<lambda>xs i. xs[i := g i]) ys is) = length ys"
  "k < length ys \<Longrightarrow> foldl (\<lambda>xs i. xs[i := g i]) ys is ! k = (if k \<in> set is then g k else ys ! k)"
  by (induction "is" arbitrary: ys) (auto simp: nth_list_update)

text \<open>Every task completes once or more, in any order.\<close>

definition completes :: "JobWorld \<Rightarrow> bool" where
  "completes w \<longleftrightarrow> (\<forall>n. set (wOrder w n) = {..<n})"

definition frameTasks :: "Pipeline \<Rightarrow> JobWorld \<Rightarrow> string list \<Rightarrow> Frame list \<Rightarrow> frameOutcome list" where
  "frameTasks p w gone fs = map (\<lambda>i. frameTask p w gone i (fs ! i)) [0..<length fs]"

lemma fanOut_tasks: "completes w \<Longrightarrow> fanOut p w gone fs = frameTasks p w gone fs"
  by (rule nth_equalityI) (simp_all add: fanOut_def frameTasks_def foldl_slots completes_def)

lemma mset_insertOutcome [simp]: "mset (insertOutcome x ys) = add_mset x (mset ys)"
  by (induction ys) auto

lemma foldl_insert_mset: "mset (foldl (\<lambda>acc x. insertOutcome x acc) acc xs) = mset acc + mset xs"
  by (induction xs arbitrary: acc) auto

lemma mset_sortOutcomes: "mset (sortOutcomes xs) = mset xs"
  by (simp add: sortOutcomes_def foldl_insert_mset)

lemma sortOutcomes_length [simp]: "length (sortOutcomes xs) = length xs"
  by (metis mset_sortOutcomes size_mset)

text \<open>The order on outcomes with numeric timestamps.\<close>

definition timed :: "frameOutcome \<Rightarrow> bool" where
  "timed x \<longleftrightarrow> (\<exists>t. TimestampSec (foRes x) = Some t \<and> t \<noteq> NaN)"

lemma outcomeLess_timed:
  "timed x \<Longrightarrow> timed y \<Longrightarrow> outcomeLess x y \<Longrightarrow> \<not> outcomeLess y x"
  "timed x \<Longrightarrow> timed y \<Longrightarrow> timed z \<Longrightarrow> \<not> outcomeLess y x \<Longrightarrow> \<not> outcomeLess z y \<Longrightarrow> \<not> outcomeLess z x"
proof -
  show "\<not> outcomeLess y x" if xy: "timed x" "timed y" and l: "outcomeLess x y"
  proof
    obtain a b where t: "TimestampSec (foRes x) = Some a" "TimestampSec (foRes y) = Some b" using xy by (auto simp: timed_def)
    assume "outcomeLess y x"
    then have "f64_lt a a" using l t f64_lt_trans [of a b a] by (simp add: outcomeLess_def)
    then show False by simp
  qed
  show "\<not> outcomeLess z x" if xyz: "timed x" "timed y" "timed z" and n: "\<not> outcomeLess y x" "\<not> outcomeLess z y"
  proof -
    obtain a b c where t: "TimestampSec (foRes x) = Some a" "TimestampSec (foRes y) = Some b" "TimestampSec (foRes z) = Some c"
      "a \<noteq> NaN" "b \<noteq> NaN" "c \<noteq> NaN" using xyz by (auto simp: timed_def)
    have "f64_le a b" "f64_le b c" using n t f64_not_lt by (auto simp: outcomeLess_def)
    then have "f64_le a c" by (rule f64_le_trans)
    then show ?thesis using t f64_not_lt by (auto simp: outcomeLess_def)
  qed
qed

lemma sorted_insertOutcome:
  "list_all timed (x # ys) \<Longrightarrow> sorted_wrt (\<lambda>a b. \<not> outcomeLess b a) ys \<Longrightarrow>
     sorted_wrt (\<lambda>a b. \<not> outcomeLess b a) (insertOutcome x ys)"
proof (induction ys)
  case (Cons y ys)
  show ?case
  proof (cases "outcomeLess x y")
    case True
    then have "\<not> outcomeLess y x" using Cons.prems(1) outcomeLess_timed(1) by simp
    moreover have "\<not> outcomeLess z x" if "z \<in> set ys" for z
      using outcomeLess_timed(2) [of x y z] Cons.prems that calculation by (auto simp: list_all_iff)
    ultimately show ?thesis using True Cons.prems(2) by simp
  next
    case False
    have "set (insertOutcome x ys) = insert x (set ys)" by (metis mset_insertOutcome set_mset_add_mset_insert set_mset_mset)
    then show ?thesis using False Cons by simp
  qed
qed simp

lemma sorted_sortOutcomes:
  "list_all timed xs \<Longrightarrow> sorted_wrt (\<lambda>a b. \<not> outcomeLess b a) (sortOutcomes xs)"
proof (induction xs rule: rev_induct)
  case (snoc x xs)
  have "list_all timed (x # sortOutcomes xs)"
    using snoc.prems by (simp add: list_all_iff mset_sortOutcomes flip: set_mset_mset)
  then show ?case using snoc sorted_insertOutcome by (simp add: sortOutcomes_def)
qed (simp add: sortOutcomes_def)

lemma frameTask_timed: "TimestampSec (foRes (frameTask p w gone i f)) = Some (fTimestampSec f)"
  by (auto simp: frameTask_def Let_def evaluateFrame_def errorFrame_def split: sum.splits call.splits list.splits prod.splits if_splits)

lemma frameTask_raw: "foRaw (frameTask p w gone i f) \<noteq> [] \<Longrightarrow> Status (foRes (frameTask p w gone i f)) = FrameOK"
  by (auto simp: frameTask_def Let_def evaluateFrame_def split: sum.splits call.splits list.splits prod.splits if_splits)

section \<open>Facts on evaluation\<close>

text \<open>The flags of a frame are those of the thresholds.\<close>

definition thresholded :: "Thresholds \<Rightarrow> FrameResult \<Rightarrow> bool" where
  "thresholded th f \<longleftrightarrow> (\<forall>c \<in> set (Categories f).
     Flagged c = reaches (Score c) (FlagAt (ResolveFor th (Canonicalize (crCategory c)) (ProviderLabel c))))"

lemma thresholded_Apply: "Categories f = ApplyThresholds cs th \<Longrightarrow> thresholded th f"
  using ApplyThresholds_flagged by (auto simp: thresholded_def)

lemma evaluateFrame_thresholded:
  "evaluateFrame p w gone i path ts = Ret (Inr (fr, raw)) \<Longrightarrow> thresholded (pThresholds p) fr"
  by (auto simp: evaluateFrame_def Let_def split: sum.splits call.splits list.splits if_splits intro!: thresholded_Apply)

lemma frameTask_thresholded: "thresholded (pThresholds p) (foRes (frameTask p w gone i f))"
  using evaluateFrame_thresholded [of p w gone i "fPath f" "Some (fTimestampSec f)"]
  by (auto simp: frameTask_def Let_def errorFrame_def thresholded_def split: sum.splits call.splits prod.splits)

lemma set_sortOutcomes: "set (sortOutcomes xs) = set xs"
  by (metis mset_sortOutcomes set_mset_mset)

lemma videoOutcomes_thresholded:
  "completes w \<Longrightarrow> x \<in> set (videoOutcomes p w j fs) \<Longrightarrow> thresholded (pThresholds p) (foRes x)"
  by (auto simp: videoOutcomes_def Let_def set_sortOutcomes fanOut_tasks frameTasks_def frameTask_thresholded split: prod.splits)

lemma evaluateJob_result:
  assumes "completes w" "evaluateJob p w j rs me re = Ret (Inr (res, raw))"
  shows "Raw res = [] \<and> list_all (thresholded (pThresholds p)) (nrFrames res)"
proof -
  consider "processVideo p w j = Ret (Inr (res, raw))" | "processImage p w j = Ret (Inr (res, raw))"
    using assms(2) by (auto simp: evaluateJob_def split: option.splits if_splits)
  then show ?thesis
  proof cases
    case 1
    then show ?thesis using assms(1) videoOutcomes_thresholded
      by (auto simp: processVideo_def Let_def zeroResult_def list_all_iff thresholded_Apply
          split: option.splits sum.splits call.splits if_splits)
  next
    case 2
    then show ?thesis using evaluateFrame_thresholded
      by (auto simp: processImage_def zeroResult_def split: sum.splits call.splits)
  qed
qed

lemma Rollup_allow:
  "ovVerdict (Rollup fs th) = VerdictAllow \<Longrightarrow>
     fs \<noteq> [] \<and> list_all okFrame fs \<and> list_ex scored (okCats fs) \<and> \<not> list_ex Flagged (okCats fs) \<and> \<not> list_ex (blocks th) (okCats fs)"
  by (auto simp: Rollup_simps split: if_splits)

lemma Rollup_error_frame: "Rollup [errorFrame ts m] th = (Rollup [errorFrame ts m] th)\<lparr>ovVerdict := VerdictError\<rparr>"
proof -
  have "ovVerdict (Rollup [errorFrame ts m] th) = VerdictError"
    by (simp add: Rollup_simps okCats_def okFrame_def errorFrame_def)
  then show ?thesis by simp
qed

lemma stampResult_simps:
  "nrFrames (stampResult p j src res) = nrFrames res" "Raw (stampResult p j src res) = Raw res"
  "Overall (stampResult p j src res) = Rollup (nrFrames res) (pThresholds p)"
  by (simp_all add: stampResult_def)

lemma finishJob_facts:
  fixes p w j src meta res raw pe
  defines "out \<equiv> finishJob p w j src meta res raw pe"
  obtains env where "oEnv out = Some env" "oSent out = Some env" "eResult env = Some (stampResult p j src res)"
    "eSource env = src" "eMetadata env = meta" "RawSHA256 env = rawDigest raw" "eJobID env = jID j" "oEvent out = None"
    "eError env = (if ovVerdict (Rollup (nrFrames res) (pThresholds p)) = VerdictError then frameErrors (nrFrames res) pe else [])"
    "oAudited out = (if wSink w env = None \<and> wAudit w \<noteq> None then Some env else None)"
    "oDisp out = (if wSink w env \<noteq> None then Retry
       else if (\<exists>rec. wAudit w = Some rec \<and> rec env \<noteq> None) then DeadLetter
       else if ovVerdict (Rollup (nrFrames res) (pThresholds p)) = VerdictError then DeadLetter else Ack)"
    "oErr out = None \<longleftrightarrow> oDisp out = Ack"
proof (rule that)
  let ?env = "\<lparr>eJobID = jID j, eSource = src, ModelID = pModelID p, eResult = Some (stampResult p j src res),
     eError = (if ovVerdict (Rollup (nrFrames res) (pThresholds p)) = VerdictError then frameErrors (nrFrames res) pe else []), eMetadata = meta,
     RawSHA256 = rawDigest raw, StartedAt = wStarted w, FinishedAt = wFinished w\<rparr>"
  show "oEnv out = Some ?env" "oSent out = Some ?env" "eResult ?env = Some (stampResult p j src res)"
    "eSource ?env = src" "eMetadata ?env = meta" "RawSHA256 ?env = rawDigest raw" "eJobID ?env = jID j" "oEvent out = None"
    "eError ?env = (if ovVerdict (Rollup (nrFrames res) (pThresholds p)) = VerdictError then frameErrors (nrFrames res) pe else [])"
    "oAudited out = (if wSink w ?env = None \<and> wAudit w \<noteq> None then Some ?env else None)"
    "oDisp out = (if wSink w ?env \<noteq> None then Retry
       else if (\<exists>rec. wAudit w = Some rec \<and> rec ?env \<noteq> None) then DeadLetter
       else if ovVerdict (Rollup (nrFrames res) (pThresholds p)) = VerdictError then DeadLetter else Ack)"
    "oErr out = None \<longleftrightarrow> oDisp out = Ack"
    by (auto simp: out_def finishJob_def Let_def stampResult_simps split: option.splits)
qed

lemma processVideo_skip:
  assumes "processVideo p w j = Ret (Inl e)" "errorsIs e ErrEmptyVideoSkipped"
    and "\<forall>s e'. (\<exists>a. mAnalyzeVideo (pModerator p) = Some a \<and> a s = Ret (Inl e')) \<longrightarrow> \<not> errorsIs e' ErrEmptyVideoSkipped"
    and "\<forall>r ws e'. (\<exists>f. wFrames w = Some f \<and> f r ws = Inl e') \<longrightarrow> \<not> errorsIs e' ErrEmptyVideoSkipped"
  shows "pAllowEmptyVideoSkip p \<and> (\<exists>f. wFrames w = Some f \<and> f (Ref (jSource j)) (Workflows j) = Inr [])"
  using assms by (auto simp: processVideo_def Let_def split: option.splits sum.splits call.splits if_splits)

lemma Dedup_ne: "fs \<noteq> [] \<Longrightarrow> Dedup dhash fs t = (kept, n, gone) \<Longrightarrow> kept \<noteq> []"
proof -
  assume ne: "fs \<noteq> []" and d: "Dedup dhash fs t = (kept, n, gone)"
  obtain f fs' where f: "fs = f # fs'" using ne by (cases fs) auto
  obtain k g where k: "dedupLoop dhash t (f # fs') [] [] = (k, g)" by force
  obtain ks where "k = f # ks" using dedupLoop_first [OF k] by blast
  then show ?thesis using d f k by (auto simp: Dedup_def split: if_splits)
qed

lemma scanFrames_ne: "fs \<noteq> [] \<Longrightarrow> fst (scanFrames p w j fs) \<noteq> []"
  using Dedup_ne [of fs "wDhash w" _ "[]"] by (auto simp: scanFrames_def Let_def split: prod.splits)

section \<open>Properties\<close>

text \<open>The sentinel of the skip override is private to the pipeline: no collaborator returns it.\<close>

definition sentinelPrivate :: "Pipeline \<Rightarrow> JobWorld \<Rightarrow> bool" where
  "sentinelPrivate p w \<longleftrightarrow>
     (\<forall>s e. (\<exists>a. mAnalyzeVideo (pModerator p) = Some a \<and> a s = Ret (Inl e)) \<longrightarrow> \<not> errorsIs e ErrEmptyVideoSkipped) \<and>
     (\<forall>i img e. mAnalyzeImage (pModerator p) i img = Ret (Inl e) \<longrightarrow> \<not> errorsIs e ErrEmptyVideoSkipped) \<and>
     (\<forall>r ws e. (\<exists>f. wFrames w = Some f \<and> f r ws = Inl e) \<longrightarrow> \<not> errorsIs e ErrEmptyVideoSkipped) \<and>
     (\<forall>gone path e. wReadFile w gone path = Inl e \<longrightarrow> \<not> errorsIs e ErrEmptyVideoSkipped) \<and>
     (\<forall>e. wMkdir w = Inl e \<longrightarrow> \<not> errorsIs e ErrEmptyVideoSkipped) \<and>
     (\<forall>url dir e. (\<exists>f. wFetch w = Some f \<and> f url dir = Inl e) \<longrightarrow> \<not> errorsIs e ErrEmptyVideoSkipped)"

lemma ValidateMetadata_plain: "ValidateMetadata m = Inl e \<Longrightarrow> \<not> errorsIs e s"
  by (auto simp: ValidateMetadata_def split: if_splits option.splits)

lemma resolveSource_plain: "sentinelPrivate p w \<Longrightarrow> snd (resolveSource w j) = Some e \<Longrightarrow> \<not> errorsIs e ErrEmptyVideoSkipped"
  by (auto simp: resolveSource_def Let_def sentinelPrivate_def split: if_splits prod.splits option.splits sum.splits)

lemma processImage_plain: "sentinelPrivate p w \<Longrightarrow> processImage p w j = Ret (Inl e) \<Longrightarrow> \<not> errorsIs e ErrEmptyVideoSkipped"
  by (auto simp: processImage_def evaluateFrame_def Let_def sentinelPrivate_def split: if_splits prod.splits call.splits sum.splits list.splits)

text \<open>The three ways a job ends: skipped, failed before any evidence, or evaluated.\<close>

definition localJob :: "JobWorld \<Rightarrow> Job \<Rightarrow> Job" where
  "localJob w j = j\<lparr>jSource := rsLocal (fst (resolveSource w j))\<rparr>"

definition envSource :: "JobWorld \<Rightarrow> Job \<Rightarrow> Source" where
  "envSource w j = rsEnv (fst (resolveSource w j))"

definition jobMeta :: "Job \<Rightarrow> string" where
  "jobMeta j = (case ValidateMetadata (jMetadata j) of Inl e \<Rightarrow> [] | Inr m \<Rightarrow> m)"

definition jobEvaluation :: "Pipeline \<Rightarrow> JobWorld \<Rightarrow> Job \<Rightarrow> (NormalizedResult \<times> string) res call" where
  "jobEvaluation p w j =
     evaluateJob p w (localJob w j) (fst (resolveSource w j))
       (case ValidateMetadata (jMetadata j) of Inl e \<Rightarrow> Some e | Inr m \<Rightarrow> None) (snd (resolveSource w j))"

lemma ProcessJob_eval:
  "ProcessJob p w j = (case jobEvaluation p w j of
      Panicked m \<Rightarrow> Panicked m
    | Ret (Inl e) \<Rightarrow> if errorsIs e ErrEmptyVideoSkipped then Ret (skipJob p w (localJob w j) (envSource w j) (jobMeta j))
        else Ret (finishJob p w (localJob w j) (envSource w j) (jobMeta j) (errorResult p (localJob w j) e) [] (Some e))
    | Ret (Inr (res, raw)) \<Rightarrow> Ret (finishJob p w (localJob w j) (envSource w j) (jobMeta j) res raw None))"
proof -
  obtain rs re where r: "resolveSource w j = (rs, re)" by force
  show ?thesis unfolding ProcessJob_def Let_def localJob_def envSource_def jobMeta_def jobEvaluation_def r fst_conv snd_conv by simp
qed

lemma ProcessJob_cases:
  assumes "ProcessJob p w j = Ret out"
  obtains (skipped) e where "jobEvaluation p w j = Ret (Inl e)" "errorsIs e ErrEmptyVideoSkipped"
      "out = skipJob p w (localJob w j) (envSource w j) (jobMeta j)"
  | (failed) e where "jobEvaluation p w j = Ret (Inl e)" "\<not> errorsIs e ErrEmptyVideoSkipped"
      "out = finishJob p w (localJob w j) (envSource w j) (jobMeta j) (errorResult p (localJob w j) e) [] (Some e)"
  | (evaluated) res raw where "jobEvaluation p w j = Ret (Inr (res, raw))"
      "out = finishJob p w (localJob w j) (envSource w j) (jobMeta j) res raw None"
  using assms unfolding ProcessJob_eval by (auto split: call.splits sum.splits if_splits)

lemma errorResult_verdict: "ovVerdict (Rollup (nrFrames (errorResult p j e)) th) = VerdictError"
  by (simp add: errorResult_def zeroResult_def Rollup_simps okCats_def okFrame_def errorFrame_def)

lemma envSource_media: "srcMediaType (envSource w j) = srcMediaType (jSource j)"
  by (auto simp: envSource_def resolveSource_def Let_def split: prod.splits option.splits sum.splits)

lemma skip_cause:
  assumes "sentinelPrivate p w" "jobEvaluation p w j = Ret (Inl e)" "errorsIs e ErrEmptyVideoSkipped"
  shows "pAllowEmptyVideoSkip p" "srcMediaType (jSource j) = ''video''" "\<exists>f r. wFrames w = Some f \<and> f r (Workflows j) = Inr []"
proof -
  have me: "(case ValidateMetadata (jMetadata j) of Inl e \<Rightarrow> Some e | Inr m \<Rightarrow> None) = None"
  proof (rule ccontr)
    assume "(case ValidateMetadata (jMetadata j) of Inl e \<Rightarrow> Some e | Inr m \<Rightarrow> None) \<noteq> None"
    then obtain x where "ValidateMetadata (jMetadata j) = Inl x" by (auto split: sum.splits)
    then show False using assms(2,3) ValidateMetadata_plain by (auto simp: jobEvaluation_def evaluateJob_def)
  qed
  have re: "snd (resolveSource w j) = None"
  proof (rule ccontr)
    assume "snd (resolveSource w j) \<noteq> None"
    then obtain x where "snd (resolveSource w j) = Some x" by auto
    then show False using assms(2,3) me resolveSource_plain [OF assms(1)] by (auto simp: jobEvaluation_def evaluateJob_def)
  qed
  have v: "srcMediaType (envSource w j) = ''video''" "processVideo p w (localJob w j) = Ret (Inl e)"
    using assms(2,3) me re processImage_plain [OF assms(1), of "localJob w j" e]
    by (auto simp: jobEvaluation_def evaluateJob_def envSource_def split: if_splits)
  then show "srcMediaType (jSource j) = ''video''" by (simp add: envSource_media)
  have "pAllowEmptyVideoSkip p \<and> (\<exists>f. wFrames w = Some f \<and> f (Ref (jSource (localJob w j))) (Workflows (localJob w j)) = Inr [])"
    using processVideo_skip [OF v(2) assms(3)] assms(1) unfolding sentinelPrivate_def by blast
  then show "pAllowEmptyVideoSkip p" "\<exists>f r. wFrames w = Some f \<and> f r (Workflows j) = Inr []" by (auto simp: localJob_def)
qed

text \<open>What an allow of the rollup means once the flags are those of the thresholds.\<close>

definition cleanFrames :: "Thresholds \<Rightarrow> FrameResult list \<Rightarrow> bool" where
  "cleanFrames th fs \<longleftrightarrow> fs \<noteq> [] \<and> list_all okFrame fs \<and> list_ex scored (okCats fs) \<and>
     list_all (\<lambda>c. \<not> blocks th c \<and> \<not> reaches (Score c) (FlagAt (ResolveFor th (Canonicalize (crCategory c)) (ProviderLabel c)))) (okCats fs)"

lemma allow_clean:
  assumes "list_all (thresholded th) fs" "ovVerdict (Rollup fs th) = VerdictAllow"
  shows "cleanFrames th fs"
proof -
  have "Flagged c = reaches (Score c) (FlagAt (ResolveFor th (Canonicalize (crCategory c)) (ProviderLabel c)))"
    if "c \<in> set (okCats fs)" for c
    using that assms(1) by (auto simp: set_okCats list_all_iff thresholded_def)
  then show ?thesis using Rollup_allow [OF assms(2)] by (simp add: cleanFrames_def list_all_iff list_ex_iff)
qed

text \<open>A pipeline and its surroundings for the worked examples: an adapter that scores every image 1/10, and a
  video that extracts to two frames.\<close>

definition demoModerator :: Moderator where
  "demoModerator = \<lparr>mName = ''demo'', mCaps = \<lparr>SupportsVideo = False, MaxImageBytes = 0, capCategories = []\<rparr>,
     mAnalyzeImage = (\<lambda>i img. Ret (Inr (zeroResult\<lparr>nrFrames := [sampleFrame ''HATE'' (1/10)]\<rparr>))), mAnalyzeVideo = None\<rparr>"

definition demoPipeline :: Pipeline where
  "demoPipeline = \<lparr>pModerator = demoModerator, pThresholds = [], pConcurrency = 2,
     pModelID = \<lparr>Adapter = ''demo'', miModelVersion = [], ConfigHash = []\<rparr>, pAllowEmptyVideoSkip = False, pDedup = False,
     pDedupThreshold = 0, pMaxScanFrames = 0\<rparr>"

definition demoWorld :: JobWorld where
  "demoWorld = \<lparr>wParse = (\<lambda>_. Inl (errorf [])), wMkdir = Inr ''/tmp/d'', wFetch = None,
     wFrames = Some (\<lambda>_ _. Inr [demoFrame ''a'', demoFrame ''b'']), wDhash = (\<lambda>_ _. Inr 0), wReadFile = (\<lambda>_ _. Inr ''x''),
     wSniff = (\<lambda>_. ''image/png''), wOrder = (\<lambda>n. [0..<n]), wStarted = 0, wFinished = 0, wSink = (\<lambda>_. None), wAudit = None, wEvents = None\<rparr>"

lemma demo_completes: "completes demoWorld" "completes (demoWorld\<lparr>wOrder := (\<lambda>n. rev [0..<n])\<rparr>)"
  by (auto simp: completes_def demoWorld_def)

lemma demo_private: "sentinelPrivate demoPipeline demoWorld"
  by (simp add: sentinelPrivate_def demoPipeline_def demoModerator_def demoWorld_def)

lemma demo_evaluation:
  "jobEvaluation demoPipeline demoWorld (demoJob ''j'') =
     Ret (Inr (zeroResult\<lparr>Provider := ''demo'', nrMediaType := ''image'', nrFrames := [sampleFrame ''HATE'' (1/10)]\<rparr>, []))"
  by (simp add: jobEvaluation_def evaluateJob_def localJob_def resolveSource_def demoJob_def ValidateMetadata_def
      demoPipeline_def demoModerator_def demoWorld_def processImage_def evaluateFrame_def sniffMIME_def sampleFrame_def
      ApplyThresholds_def ResolveFor_def emptyThreshold_def zeroResult_def Let_def)

lemma demo_processed:
  "\<exists>out env. ProcessJob demoPipeline demoWorld (demoJob ''j'') = Ret out \<and> oDisp out = Ack \<and> oSent out = Some env"
proof -
  have "ovVerdict (Rollup [sampleFrame ''HATE'' (1/10)] []) = VerdictAllow"
    by (simp add: Rollup_simps okCats_def okFrame_def sampleFrame_def blocks_def scored_def ResolveFor_def emptyThreshold_def)
  then show ?thesis
    by (simp add: ProcessJob_eval demo_evaluation finishJob_def Let_def stampResult_def) (simp add: demoWorld_def demoPipeline_def zeroResult_def)
qed



text \<open>
  C2. What cannot be evaluated fails safe: rejected metadata, a source that cannot be resolved, an unreadable or
  refused image, a failed or empty extraction without the override. The envelope sent carries verdict error
  and the cause, has no evidence digest, and the job is never acknowledged: it is retried when the sink
  refused the envelope and dead-lettered otherwise.
\<close>

theorem unevaluable_fails_safe:
  assumes "jobEvaluation p w j = Ret (Inl e)" "\<not> errorsIs e ErrEmptyVideoSkipped"
  shows "\<exists>out env res. ProcessJob p w j = Ret out \<and> oSent out = Some env \<and> eResult env = Some res \<and>
    ovVerdict (Overall res) = VerdictError \<and> eError env = emsg e \<and> RawSHA256 env = [] \<and>
    oDisp out = (if wSink w env = None then DeadLetter else Retry) \<and> oErr out \<noteq> None"
proof -
  let ?out = "finishJob p w (localJob w j) (envSource w j) (jobMeta j) (errorResult p (localJob w j) e) [] (Some e)"
  have out: "ProcessJob p w j = Ret ?out" using assms by (simp add: ProcessJob_eval)
  have "\<exists>env res. oSent ?out = Some env \<and> eResult env = Some res \<and>
    ovVerdict (Overall res) = VerdictError \<and> eError env = emsg e \<and> RawSHA256 env = [] \<and>
    oDisp ?out = (if wSink w env = None then DeadLetter else Retry) \<and> oErr ?out \<noteq> None"
    by (rule finishJob_facts [of p w "localJob w j" "envSource w j" "jobMeta j" "errorResult p (localJob w j) e" "[]" "Some e"])
      (auto simp: errorResult_verdict stampResult_simps rawDigest_def frameErrors_def)
  then show ?thesis using out by blast
qed

theorem unevaluable_fails_safe_witness:
  "\<exists>out env. ProcessJob demoPipeline demoWorld (demoJob ''j''\<lparr>jMetadata := ''[''\<rparr>) = Ret out \<and> oSent out = Some env \<and> oDisp out = DeadLetter"
proof -
  have "Compact ''['' = None" by code_simp
  then have "ValidateMetadata ''['' = Inl (errorf ''metadata is not valid JSON: syntax error'')" by (simp add: ValidateMetadata_def)
  then have e: "jobEvaluation demoPipeline demoWorld (demoJob ''j''\<lparr>jMetadata := ''[''\<rparr>) =
      Ret (Inl (wrapf ''invalid metadata: '' (errorf ''metadata is not valid JSON: syntax error'')))"
    by (simp add: jobEvaluation_def evaluateJob_def)
  show ?thesis using unevaluable_fails_safe [OF e] by (auto simp: demoWorld_def)
qed

text \<open>
  C13. The order in which the frame tasks of a video complete does not matter: any two schedules that complete
  every task give the same envelope, disposition and effects.
\<close>

theorem fanout_order_irrelevant:
  assumes "completes w" "completes (w\<lparr>wOrder := ord\<rparr>)"
  shows "ProcessJob p (w\<lparr>wOrder := ord\<rparr>) j = ProcessJob p w j"
proof -
  let ?v = "w\<lparr>wOrder := ord\<rparr>"
  have v: "wParse ?v = wParse w" "wMkdir ?v = wMkdir w" "wFetch ?v = wFetch w" "wFrames ?v = wFrames w" "wDhash ?v = wDhash w"
    "wReadFile ?v = wReadFile w" "wSniff ?v = wSniff w" "wStarted ?v = wStarted w" "wFinished ?v = wFinished w" "wSink ?v = wSink w"
    "wAudit ?v = wAudit w" "wEvents ?v = wEvents w" by simp_all
  have e: "evaluateFrame p ?v = evaluateFrame p w" by (intro ext) (simp only: evaluateFrame_def sniffMIME_def v)
  then have "frameTasks p ?v = frameTasks p w" by (intro ext) (simp only: frameTasks_def frameTask_def)
  then have "videoOutcomes p ?v = videoOutcomes p w"
    using fanOut_tasks [OF assms(1)] fanOut_tasks [OF assms(2)] by (intro ext) (simp only: videoOutcomes_def scanFrames_def v)
  then have "processVideo p ?v = processVideo p w" by (intro ext) (simp only: processVideo_def v)
  moreover have "processImage p ?v = processImage p w" by (intro ext) (simp only: processImage_def e)
  moreover have "resolveSource ?v = resolveSource w" by (intro ext) (simp only: resolveSource_def v)
  ultimately have "jobEvaluation p ?v j = jobEvaluation p w j" "localJob ?v j = localJob w j" "envSource ?v j = envSource w j"
    by (simp_all only: jobEvaluation_def evaluateJob_def localJob_def envSource_def)
  moreover have "finishJob p ?v = finishJob p w" "skipJob p ?v = skipJob p w"
    by (intro ext; simp only: finishJob_def skipJob_def skipEnvelope_def v)+
  ultimately show ?thesis by (simp only: ProcessJob_eval)
qed

theorem fanout_order_irrelevant_witness:
  "ProcessJob demoPipeline (demoWorld\<lparr>wOrder := (\<lambda>n. rev [0..<n])\<rparr>) (demoJob ''j''\<lparr>jSource := \<lparr>Kind = ''file'', Ref = ''v'', RefDigest = [], srcMediaType = ''video''\<rparr>\<rparr>)
     = ProcessJob demoPipeline demoWorld (demoJob ''j''\<lparr>jSource := \<lparr>Kind = ''file'', Ref = ''v'', RefDigest = [], srcMediaType = ''video''\<rparr>\<rparr>)"
  by (rule fanout_order_irrelevant [OF demo_completes])



text \<open>
  C15. For a video whose frames are scanned as images, the frames reported are one outcome per scanned frame, in
  timestamp order; the raw evidence is a JSON array with one entry per reported frame at the same position,
  null where no response stands behind the frame; the scan is capped and never empty, and a job cannot loosen
  the operator's de-duplication threshold.
\<close>

theorem video_outcomes_aligned:
  assumes "completes w" "fs \<noteq> []" "list_all (\<lambda>f. fTimestampSec f \<noteq> NaN) (fst (scanFrames p w j fs))"
  shows "mset (videoOutcomes p w j fs) = mset (frameTasks p w (snd (scanFrames p w j fs)) (fst (scanFrames p w j fs))) \<and>
    sorted_wrt (\<lambda>a b. \<not> outcomeLess b a) (videoOutcomes p w j fs) \<and>
    list_all (\<lambda>x. foRaw x = [] \<or> Status (foRes x) = FrameOK) (videoOutcomes p w j fs) \<and>
    (\<forall>parts. those (map (\<lambda>x. marshalRaw (foRaw x)) (videoOutcomes p w j fs)) = Some parts \<longrightarrow>
       length parts = length (map foRes (videoOutcomes p w j fs)) \<and>
       buildRawEvidence (videoOutcomes p w j fs) \<in> {Inr [], Inr (''['' @ Join parts '','' @ '']'')}) \<and>
    fst (scanFrames p w j fs) \<noteq> [] \<and>
    (pMaxScanFrames p > 0 \<longrightarrow> int (length (videoOutcomes p w j fs)) \<le> pMaxScanFrames p) \<and>
    snd (dedupSetting p j) \<le> pDedupThreshold p"
proof -
  obtain fs' gone where sc: "scanFrames p w j fs = (fs', gone)" by force
  have vo: "videoOutcomes p w j fs = sortOutcomes (frameTasks p w gone fs')"
    using fanOut_tasks [OF assms(1)] by (simp add: videoOutcomes_def sc)
  have tm: "list_all timed (frameTasks p w gone fs')"
    using assms(3) sc by (simp add: frameTasks_def timed_def list_all_iff frameTask_timed)
  have "list_all (\<lambda>x. foRaw x = [] \<or> Status (foRes x) = FrameOK) (videoOutcomes p w j fs)"
    by (auto simp: vo set_sortOutcomes frameTasks_def list_all_iff intro: ccontr dest: frameTask_raw)
  moreover have "length parts = length xs" if "those (map g xs) = Some parts" for g :: "frameOutcome \<Rightarrow> string option" and xs parts
    using that by (induction xs arbitrary: parts) (auto split: option.splits)
  moreover have "int (length fs') \<le> pMaxScanFrames p" if "pMaxScanFrames p > 0"
    using sc that by (auto simp: scanFrames_def Let_def min_def split: prod.splits if_splits)
  moreover have "snd (dedupSetting p j) \<le> pDedupThreshold p" by (simp add: dedupSetting_def split: option.splits)
  moreover note scanFrames_ne [OF assms(2), of p w j] sorted_sortOutcomes [OF tm] mset_sortOutcomes
  ultimately show ?thesis by (auto simp: sc vo buildRawEvidence_def frameTasks_def)
qed

theorem video_outcomes_aligned_witness:
  "mset (videoOutcomes demoPipeline demoWorld (demoJob ''j'') [demoFrame ''a'', demoFrame ''b'']) =
     mset (frameTasks demoPipeline demoWorld [] [demoFrame ''a'', demoFrame ''b''])"
proof -
  have "scanFrames demoPipeline demoWorld (demoJob ''j'') [demoFrame ''a'', demoFrame ''b''] = ([demoFrame ''a'', demoFrame ''b''], [])"
    by (simp add: scanFrames_def dedupSetting_def demoJob_def demoPipeline_def)
  then show ?thesis using video_outcomes_aligned [OF demo_completes(1), of "[demoFrame ''a'', demoFrame ''b'']" demoPipeline "demoJob ''j''"]
    by (simp add: demoFrame_def)
qed

text \<open>
  The error text of an envelope is not redacted: when every attempt to fetch a URL source fails in the
  transport, the envelope sent to the sinks carries the complete URL in its error field, query string
  included, although its source reference is the redacted one.
\<close>

theorem transport_failure_exposes_url:
  assumes "Kind (jSource j) = ''url''" "wFetch w = Some (\<lambda>url dir. snd (FetchURL (wParse w) pm f fw url dir))" "wMkdir w = Inr dir"
    and "ValidateMetadata (jMetadata j) = Inr m"
    and "validateURL (wParse w) (Ref (jSource j)) (fhosts f) (allowScheme f) = Inr u" "1 \<le> fMaxAttempts (fcfg f)"
    and "\<forall>n. awRequestErr (fw n) = None \<and> (\<exists>cause. awDo (fw n) = NetErr cause) \<and> awCtxErr (fw n) = None \<and> awBackoff (fw n) = None"
    and "\<forall>e. snd (FetchURL (wParse w) pm f fw (Ref (jSource j)) dir) = Inl e \<longrightarrow> \<not> errorsIs e ErrEmptyVideoSkipped"
  shows "\<exists>out env. ProcessJob p w j = Ret out \<and> oSent out = Some env \<and> Contains (eError env) (URL_String u) \<and>
    Ref (eSource env) = fst (Redact (wParse w) (Ref (jSource j)))"
proof -
  obtain e where e: "snd (FetchURL (wParse w) pm f fw (Ref (jSource j)) dir) = Inl e" "Contains (emsg e) (URL_String u)"
    using transport_error_carries_url [OF assms(5-7)] by (metis snd_conv)
  have rs: "snd (resolveSource w j) = Some e" "Ref (envSource w j) = fst (Redact (wParse w) (Ref (jSource j)))"
    using assms(1-3) e(1) by (simp_all add: resolveSource_def envSource_def Let_def split: prod.splits)
  have ev: "jobEvaluation p w j = Ret (Inl e)" using rs(1) assms(4) by (simp add: jobEvaluation_def evaluateJob_def)
  let ?out = "finishJob p w (localJob w j) (envSource w j) (jobMeta j) (errorResult p (localJob w j) e) [] (Some e)"
  have out: "ProcessJob p w j = Ret ?out" using ev e(1) assms(8) by (simp add: ProcessJob_eval)
  have "\<exists>env. oSent ?out = Some env \<and> Contains (eError env) (URL_String u) \<and> eSource env = envSource w j"
    by (rule finishJob_facts [of p w "localJob w j" "envSource w j" "jobMeta j" "errorResult p (localJob w j) e" "[]" "Some e"])
      (auto simp: errorResult_verdict frameErrors_def e(2))
  then show ?thesis using out rs(2) by metis
qed

definition leakWorld :: JobWorld where
  "leakWorld = demoWorld\<lparr>wParse := (\<lambda>_. Inr (demoURL ''sig=secret'')),
     wFetch := Some (\<lambda>url dir. snd (FetchURL (\<lambda>_. Inr (demoURL ''sig=secret'')) (\<lambda>_. Inr []) demoFetcher (\<lambda>_. timeoutWorld) url dir))\<rparr>"

definition leakJob :: Job where
  "leakJob = demoJob ''j''\<lparr>jSource := \<lparr>Kind = ''url'', Ref = ''https://h/a.png?sig=secret'', RefDigest = [], srcMediaType = ''image''\<rparr>\<rparr>"

theorem transport_failure_exposes_url_witness:
  "\<exists>out env. ProcessJob demoPipeline leakWorld leakJob = Ret out \<and> oSent out = Some env \<and>
     Contains (eError env) ''https://h/a.png?sig=secret'' \<and> Ref (eSource env) = ''https://h/a.png''"
proof -
  let ?f = "FetchURL (\<lambda>_. Inr (demoURL ''sig=secret'')) (\<lambda>_. Inr []) demoFetcher (\<lambda>_. timeoutWorld) (Ref (jSource leakJob)) ''/tmp/d''"
  have plain: "\<not> errorsIs e ErrEmptyVideoSkipped" if "snd ?f = Inl e" for e
  proof -
    have "fcfg demoFetcher = \<lparr>fAllowHosts = [], fAllowPrivateHosts = [], fMaxBytes = 268435456, fTimeout = 60 * Second, fMaxAttempts = 1, fAllowedMediaTypes = []\<rparr>"
      by (simp add: demoFetcher_def NewFetcher_def Let_def)
    then have "snd ?f = Inl x \<Longrightarrow> set (etree x) \<subseteq> {TerminalErr, ErrRetryable}" for x
      unfolding FetchURL_def demo_valid
      by (subst (asm) fetchLoop.simps, simp add: attemptFetch_def timeoutWorld_def Let_def split: if_splits,
          auto simp: terminalErr_def urlError_def wrapf_def errorf_def fetchLoop.simps markRetryable_def wrap2_def sentinelErr_def errorsIs_def)
    then show ?thesis using that by (auto simp: errorsIs_def)
  qed
  have "Ref (jSource leakJob) = ''https://h/a.png?sig=secret''" "Kind (jSource leakJob) = ''url''" "ValidateMetadata (jMetadata leakJob) = Inr []"
    by (simp_all add: leakJob_def demoJob_def ValidateMetadata_def)
  moreover have "fst (Redact (\<lambda>_. Inr (demoURL ''sig=secret'')) raw) = ''https://h/a.png''" for raw
    by (simp add: Redact_def Let_def demoURL_def URL_String_def)
  moreover have "1 \<le> fMaxAttempts (fcfg demoFetcher)" by (simp add: demoFetcher_def NewFetcher_def Let_def)
  ultimately show ?thesis
    using transport_failure_exposes_url [of leakJob leakWorld "\<lambda>_. Inr []" demoFetcher "\<lambda>_. timeoutWorld" "''/tmp/d''" "[]"
      "demoURL ''sig=secret''" demoPipeline] demo_valid plain demo_url [of "''sig=secret''"]
    by (auto simp: leakWorld_def demoWorld_def timeoutWorld_def)
qed

end
