(* ===== verification/Wiring.thy ===== *)
theory Wiring
  imports Config Pipeline
begin

text \<open>
  The composition root: \<open>internal/cli/sinks.go\<close> (the configured destinations), \<open>internal/cli/wire.go\<close> and
  \<open>internal/cli/boot.go\<close> (the moderator, its checks and the pipeline built around it) and
  \<open>internal/observe/instrument.go\<close> (the metrics wrapper). A method an adapter may or may not have beyond the
  interface is an optional field, which is what a type assertion sees. Metrics and logging are left out.
\<close>

section \<open>Sinks (sinks.go)\<close>

text \<open>The files open at the moment, by the position of their sink, beside what the code keeps.\<close>

record buildState =
  bsSinks :: "SinkState list"
  bsNames :: "string list"
  bsClosers :: "nat list"
  bsOpen :: "nat list"
  bsUnconditional :: nat

definition closeAll :: "buildState \<Rightarrow> nat list" where
  "closeAll b = filter (\<lambda>f. f \<notin> set (bsClosers b)) (bsOpen b)"

definition sinkErr :: "nat \<Rightarrow> goerr \<Rightarrow> goerr" where
  "sinkErr i e = wrapf (''output.sinks['' @ show_nat i @ '']: '') e"

definition renderErr :: "Decoders \<Rightarrow> Formatter \<Rightarrow> ResultEnvelope \<Rightarrow> goerr option" where
  "renderErr dec f env = (case Format dec f env of Inl e \<Rightarrow> Some e | Inr _ \<Rightarrow> None)"

definition webhookOf :: "Decoders \<Rightarrow> nat \<Rightarrow> SinkConfig \<Rightarrow> Formatter \<Rightarrow> WebhookSink" where
  "webhookOf dec i sc f =
     NewWebhookSink \<lparr>woTimeout = scTimeout sc, woMaxAttempts = scMaxAttempts sc, woBackoff = 0,
       woFormatter = Some (renderErr dec f), woName = ''webhook['' @ show_nat i @ '']''\<rparr>"

text \<open>The transport of one entry, and whether it left a file open.\<close>

definition buildTransport :: "Decoders \<Rightarrow> (nat \<Rightarrow> goerr option) \<Rightarrow> nat \<Rightarrow> SinkConfig \<Rightarrow> Formatter \<Rightarrow> (SinkState \<times> bool) res" where
  "buildTransport dec openErr i sc f =
     (let name = ToLower (TrimSpace (scType sc)) in
      if name = ''stdout'' then Inr (SJsonl emptyLineSink, False)
      else if name = ''file'' then
        (case NewFileSink (openErr i) (scPath sc) of Inl e \<Rightarrow> Inl (sinkErr i e) | Inr fs \<Rightarrow> Inr (SFile fs, True))
      else if name = ''webhook'' then Inr (SWebhook (webhookOf dec i sc f), False)
      else Inl (sinkErr i (errorf (''unknown sink type '' @ quoted (scType sc)))))"

definition addSink :: "nat \<Rightarrow> SinkConfig \<Rightarrow> Formatter \<Rightarrow> SinkState \<times> bool \<Rightarrow> buildState \<Rightarrow> buildState" where
  "addSink i sc f sb b =
     (let p = scPredicate sc; (s, opened) = sb; name = ToLower (TrimSpace (scType sc)) in
      b\<lparr>bsSinks := bsSinks b @ [if PredicateIsEmpty p then s else SRouted p s],
        bsNames := bsNames b @ [if PredicateIsEmpty p then name else name @ ''/'' @ FormatterName f],
        bsClosers := (if opened then bsClosers b @ [i] else bsClosers b),
        bsOpen := (if opened then bsOpen b @ [i] else bsOpen b),
        bsUnconditional := (if PredicateIsEmpty p then bsUnconditional b + 1 else bsUnconditional b)\<rparr>)"

text \<open>The loop: the error and the files it leaves open, or the state at the end.\<close>

fun buildLoop :: "Decoders \<Rightarrow> (nat \<Rightarrow> goerr option) \<Rightarrow> nat \<Rightarrow> SinkConfig list \<Rightarrow> buildState \<Rightarrow> goerr \<times> nat list + buildState" where
  "buildLoop dec openErr i [] b = Inr b"
| "buildLoop dec openErr i (sc # scs) b =
     (case FormatterFor (scFormat sc) (scMetadataFields sc) of
        Inl e \<Rightarrow> Inl (sinkErr i e, closeAll b)
      | Inr f \<Rightarrow>
          (case buildTransport dec openErr i sc f of
             Inl e \<Rightarrow> Inl (e, closeAll b)
           | Inr sb \<Rightarrow> buildLoop dec openErr (i + 1) scs (addSink i sc f sb b)))"

text \<open>What \<open>buildSinks\<close> returns: the fan-out and the files its close function closes. The first component is
  the files still open.\<close>

definition buildSinks ::
  "Decoders \<Rightarrow> (nat \<Rightarrow> goerr option) \<Rightarrow> OutputConfig \<Rightarrow> nat list \<times> ((SinkState \<times> string) list \<times> nat list) res" where
  "buildSinks dec openErr oc =
     (case buildLoop dec openErr 0 (ocSinks oc) \<lparr>bsSinks = [], bsNames = [], bsClosers = [], bsOpen = [], bsUnconditional = 0\<rparr> of
        Inl (e, left) \<Rightarrow> (left, Inl e)
      | Inr b \<Rightarrow>
          if bsSinks b = [] then (closeAll b, Inl (errorf ''output.sinks produced no sinks; results would go nowhere''))
          else if bsUnconditional b = 0 \<and> \<not> AllowUnrouted oc then
            (closeAll b, Inl (errorf (''output.sinks: every sink carries a predicate, so an unmatched result would be emitted nowhere; ''
              @ ''give one sink no predicate, or set output.allow_unrouted'')))
          else case NewMultiSink (bsSinks b) (bsNames b) of
              Inl e \<Rightarrow> (closeAll b, Inl e)
            | Inr m \<Rightarrow> (bsOpen b, Inr (m, bsClosers b)))"

section \<open>The moderator (wire.go, boot.go, instrument.go)\<close>

record WiredModerator = Moderator +
  mModelVersion :: "string option"
  mProviderLabels :: "string list option"

definition unversionedModel :: string where "unversionedModel = ''unversioned''"

definition modelVersion :: "WiredModerator \<Rightarrow> string" where
  "modelVersion m = (case mModelVersion m of Some v \<Rightarrow> v | None \<Rightarrow> unversionedModel)"

record AdapterConfig =
  acOptions :: "(string \<times> string) list"
  acSecret :: "string \<Rightarrow> string"
  acProviderThresholdMode :: string

definition fakeCategory :: "Category \<Rightarrow> string \<Rightarrow> rat \<Rightarrow> CategoryResult" where
  "fakeCategory cat label v =
     \<lparr>crCategory = cat, ProviderLabel = label, Score = Some (Fin v), crScoreOrigin = OriginProbability, Threshold = None, Flagged = False\<rparr>"

definition devFakeModerator :: WiredModerator where
  "devFakeModerator =
     \<lparr>mName = ''dev-fake'',
      mCaps = \<lparr>SupportsVideo = False, MaxImageBytes = 33554432,
        capCategories = [CategorySexual, CategoryViolence, CategoryHate, CategorySelfHarm]\<rparr>,
      mAnalyzeImage = (\<lambda>i img. Ret (Inr (zeroResult\<lparr>Provider := ''dev-fake'',
        nrFrames := [zeroFrame\<lparr>Status := FrameOK, Categories :=
          [fakeCategory CategorySexual ''fake/sexual'' (1 / 100), fakeCategory CategoryViolence ''fake/violence'' (2 / 100),
           fakeCategory CategoryHate ''fake/hate'' 0, fakeCategory CategorySelfHarm ''fake/self_harm'' 0]\<rparr>]\<rparr>))),
      mAnalyzeVideo = None, mModelVersion = Some ''m0-skeleton'', mProviderLabels = None\<rparr>"

definition buildModerator ::
  "(string \<Rightarrow> AdapterConfig \<Rightarrow> WiredModerator res) registry \<Rightarrow> (string \<Rightarrow> string) \<Rightarrow> Config \<Rightarrow> WiredModerator res" where
  "buildModerator factories getenv cfg =
     (if asName (cAdapter cfg) = [] \<and> length (Registered factories) = 0 then Inr devFakeModerator
      else NewAdapter factories (asName (cAdapter cfg))
        \<lparr>acOptions = asOptions (cAdapter cfg), acSecret = Secret getenv, acProviderThresholdMode = Mode (cProviderThresholds cfg)\<rparr>)"

definition configuredLabels :: "ProviderThresholds \<Rightarrow> string set" where
  "configuredLabels p =
     (\<lambda>kv. ToLower (fst kv)) ` set (Labels p) \<union> (\<lambda>k. ToLower (TrimSpace k)) ` set (UnarmedLabels p)"

definition validateProviderLabelBoot :: "Config \<Rightarrow> WiredModerator \<Rightarrow> goerr option" where
  "validateProviderLabelBoot cfg m =
     (case mProviderLabels m of
        None \<Rightarrow> None
      | Some labels \<Rightarrow>
          (let missing = filter (\<lambda>l. ToLower l \<notin> configuredLabels (cProviderThresholds cfg)) labels in
           if missing = [] then None
           else Some (errorf (''adapter '' @ quoted (mName m) @ '' can emit provider label(s) ['' @ Join (sort missing) '' ''
             @ ''] with no entry under provider_thresholds.labels: in override mode such a label has no flag_at and no block_at, ''
             @ ''so it can never flag or block. Add a key per label (an entry with no fields set is a valid ''
             @ quoted ''deliberately unarmed'' @ '')''))))"

text \<open>A hook may be nil and may return nil, whether untyped or as a nil pointer.\<close>

definition applyModeratorDecorator ::
  "WiredModerator \<Rightarrow> (WiredModerator \<Rightarrow> WiredModerator option) option \<Rightarrow> WiredModerator res" where
  "applyModeratorDecorator m fn =
     (case fn of
        None \<Rightarrow> Inl (errorf ''moderator decorator: the hook is nil'')
      | Some f \<Rightarrow>
          (case f m of
             None \<Rightarrow> Inl (errorf (''moderator decorator: the hook returned nil, leaving nothing to score the jobs this worker would accept''))
           | Some wrapped \<Rightarrow>
               if mModelVersion m \<noteq> None \<and> mModelVersion wrapped = None then
                 Inl (errorf (''moderator decorator: the hook dropped ModelVersion(); every envelope and audit record would stamp model_version ''
                   @ quoted unversionedModel @ '' and hash the config over that string''))
               else if mAnalyzeVideo m \<noteq> None \<and> mAnalyzeVideo wrapped = None then
                 Inl (errorf (''moderator decorator: the hook dropped AnalyzeVideo(); video jobs would fall back to frame extraction ''
                   @ ''against a provider that analyzes video natively''))
               else Inr wrapped))"

text \<open>The wrapper has a type per combination of optional methods; none has \<open>ProviderLabels\<close>.\<close>

definition instrumented :: "WiredModerator \<Rightarrow> WiredModerator" where
  "instrumented m = \<lparr>mName = mName m, mCaps = mCaps m, mAnalyzeImage = mAnalyzeImage m, mAnalyzeVideo = None,
     mModelVersion = None, mProviderLabels = None\<rparr>"

definition InstrumentModerator :: "WiredModerator \<Rightarrow> WiredModerator" where
  "InstrumentModerator m =
     (let base = instrumented m in
      case (mAnalyzeVideo m, mModelVersion m) of
        (Some v, Some ver) \<Rightarrow> base\<lparr>mAnalyzeVideo := Some v, mModelVersion := Some ver\<rparr>
      | (Some v, None) \<Rightarrow> base\<lparr>mAnalyzeVideo := Some v\<rparr>
      | (None, Some ver) \<Rightarrow> base\<lparr>mModelVersion := Some ver\<rparr>
      | (None, None) \<Rightarrow> base)"

definition errCode :: "goerr \<Rightarrow> string" where
  "errCode e =
     (case find (\<lambda>s. case s of HTTPErr _ _ \<Rightarrow> True | _ \<Rightarrow> False) (etree e) of
        Some (HTTPErr st code) \<Rightarrow> show_int st
      | _ \<Rightarrow> if IsRetryable (Some e) then ''retryable'' else ''terminal'')"

section \<open>The pipeline (wire.go)\<close>

text \<open>The argument \<open>num\<close> is the number form of \<open>encoding/json\<close>, as in \<open>ConfigHashOf\<close>.\<close>

definition moderatorOf :: "WiredModerator \<Rightarrow> Moderator" where
  "moderatorOf m = \<lparr>mName = mName m, mCaps = mCaps m, mAnalyzeImage = mAnalyzeImage m, mAnalyzeVideo = mAnalyzeVideo m\<rparr>"

definition buildPipeline :: "(rat \<Rightarrow> string) \<Rightarrow> Config \<Rightarrow> WiredModerator \<Rightarrow> Pipeline" where
  "buildPipeline num cfg m =
     \<lparr>pModerator = moderatorOf m, pThresholds = cThresholds cfg, pConcurrency = Concurrency (cFrames cfg),
      pModelID = \<lparr>Adapter = mName m, miModelVersion = modelVersion m,
        ConfigHash = ConfigHashOf num (mName m) (modelVersion m) (cThresholds cfg)\<rparr>,
      pAllowEmptyVideoSkip = cAllowEmptyVideoSkip cfg, pDedup = dcEnabled (fcDedup (cFrames cfg)),
      pDedupThreshold = HammingThreshold (fcDedup (cFrames cfg)), pMaxScanFrames = MaxFrames (cFFmpeg cfg)\<rparr>"

definition validateDedupThreshold :: "int option \<Rightarrow> int \<Rightarrow> goerr option" where
  "validateDedupThreshold v mx =
     (case v of
        None \<Rightarrow> None
      | Some t \<Rightarrow>
          if t < -1 \<or> t > mx then
            Some (errorf (''dedup_threshold must be -1 (disable) or 0..'' @ show_int mx
              @ '' (frames.dedup.hamming_threshold), got '' @ show_int t))
          else None)"

definition validateWorkflowSelection :: "Config \<Rightarrow> string list \<Rightarrow> goerr option" where
  "validateWorkflowSelection cfg names =
     firstBad (\<lambda>n. n \<notin> fst ` set (FFmpegConfig.Workflows (cFFmpeg cfg)))
       (\<lambda>n. errorf (''unknown workflow '' @ quoted n @ '' (configured: [''
          @ Join (sort (map fst (FFmpegConfig.Workflows (cFFmpeg cfg)))) '' '' @ ''])'')) names"

definition openAudit :: "Disk \<Rightarrow> goerr option \<Rightarrow> Config \<Rightarrow> Log option res" where
  "openAudit d openErr cfg =
     (if \<not> acEnabled (cAudit cfg) then Inr None
      else case Open d openErr of Inl e \<Rightarrow> Inl (wrapf ''audit log: '' e) | Inr l \<Rightarrow> Inr (Some l))"

definition newFetcher :: "Config \<Rightarrow> Fetcher" where
  "newFetcher cfg = NewFetcher (cSourceURL cfg)"

section \<open>Facts about building sinks\<close>

lemma Match_empty: "PredicateIsEmpty p \<Longrightarrow> Match p env"
  by (simp add: PredicateIsEmpty_def Match_def)

text \<open>What a sink built for an entry is: empty, consistent, and routed as the entry says.\<close>

definition builtFor :: "SinkConfig \<Rightarrow> SinkState \<Rightarrow> bool" where
  "builtFor sc s \<longleftrightarrow> sinkInv s \<and> sinkOut s = [] \<and> (\<forall>env. sinkWants s env = Match (scPredicate sc) env)"

lemma buildTransport_new:
  "buildTransport dec op i sc f = Inr (s, b) \<Longrightarrow> sinkInv s \<and> sinkOut s = [] \<and> (\<forall>env. sinkWants s env)"
  by (auto simp: buildTransport_def Let_def NewFileSink_def emptyLineSink_def newDedupe_def webhookOf_def NewWebhookSink_def
      sinkInv_def claimed_def split: if_splits sum.splits option.splits)

lemma addSink_fields:
  "bsUnconditional (addSink i sc f (s, o1) b) = bsUnconditional b + (if PredicateIsEmpty (scPredicate sc) then 1 else 0)"
  "bsSinks (addSink i sc f (s, o1) b) = bsSinks b @ [if PredicateIsEmpty (scPredicate sc) then s else SRouted (scPredicate sc) s]"
  "length (bsNames (addSink i sc f (s, o1) b)) = length (bsNames b) + 1"
  "bsClosers b = bsOpen b \<Longrightarrow> bsClosers (addSink i sc f (s, o1) b) = bsOpen (addSink i sc f (s, o1) b)"
  by (simp_all add: addSink_def Let_def)

lemma buildLoop_ok:
  "buildLoop dec op i scs b = Inr b' \<Longrightarrow> length (bsNames b) = length (bsSinks b) \<Longrightarrow>
     (\<exists>ss. bsSinks b' = bsSinks b @ ss \<and> length (bsNames b') = length (bsSinks b') \<and> list_all2 builtFor scs ss
       \<and> bsUnconditional b' = bsUnconditional b + length (filter (\<lambda>sc. PredicateIsEmpty (scPredicate sc)) scs))"
proof (induction scs arbitrary: i b)
  case (Cons sc scs)
  from Cons.prems(1) obtain f s o1 where f: "FormatterFor (scFormat sc) (scMetadataFields sc) = Inr f"
    and t: "buildTransport dec op i sc f = Inr (s, o1)"
    and r: "buildLoop dec op (i + 1) scs (addSink i sc f (s, o1) b) = Inr b'"
    by (auto split: sum.splits)
  let ?s = "if PredicateIsEmpty (scPredicate sc) then s else SRouted (scPredicate sc) s"
  have "length (bsNames (addSink i sc f (s, o1) b)) = length (bsSinks (addSink i sc f (s, o1) b))"
    using Cons.prems(2) by (simp add: addSink_fields)
  from Cons.IH [OF r this] obtain ss where ss: "bsSinks b' = bsSinks (addSink i sc f (s, o1) b) @ ss"
    "length (bsNames b') = length (bsSinks b')" "list_all2 builtFor scs ss"
    "bsUnconditional b' = bsUnconditional (addSink i sc f (s, o1) b) + length (filter (\<lambda>sc. PredicateIsEmpty (scPredicate sc)) scs)"
    by blast
  have "builtFor sc ?s" using buildTransport_new [OF t] by (auto simp: builtFor_def sinkInv_def Match_empty)
  then show ?case using ss by (intro exI [of _ "?s # ss"]) (simp add: addSink_fields)
qed simp

lemma closeAll_all: "bsClosers b = bsOpen b \<Longrightarrow> closeAll b = []"
  by (simp add: closeAll_def)

lemma buildLoop_open:
  "bsClosers b = bsOpen b \<Longrightarrow> (case buildLoop dec op i scs b of Inl (e, left) \<Rightarrow> left = [] | Inr b' \<Rightarrow> bsClosers b' = bsOpen b')"
proof (induction scs arbitrary: i b)
  case (Cons sc scs)
  show ?case
  proof (cases "FormatterFor (scFormat sc) (scMetadataFields sc)")
    case (Inl e)
    then show ?thesis using Cons.prems by (simp add: closeAll_all)
  next
    case f: (Inr f)
    show ?thesis
    proof (cases "buildTransport dec op i sc f")
      case (Inl e)
      then show ?thesis using f Cons.prems by (simp add: closeAll_all)
    next
      case (Inr sb)
      obtain s o1 where "sb = (s, o1)" by force
      then show ?thesis using f Inr Cons.IH [OF addSink_fields(4) [OF Cons.prems]] by simp
    qed
  qed
qed simp

abbreviation buildStart :: buildState where
  "buildStart \<equiv> \<lparr>bsSinks = [], bsNames = [], bsClosers = [], bsOpen = [], bsUnconditional = 0\<rparr>"

lemma buildSinks_closed: "case snd (buildSinks dec op oc) of Inl e \<Rightarrow> fst (buildSinks dec op oc) = [] | Inr (m, cl) \<Rightarrow> fst (buildSinks dec op oc) = cl"
  using buildLoop_open [of buildStart dec op 0 "ocSinks oc"]
  by (auto simp: buildSinks_def closeAll_all split: sum.splits)

lemma buildSinks_ok:
  assumes "snd (buildSinks dec op oc) = Inr (m, cl)"
  shows "list_all2 (\<lambda>sc (s, n). builtFor sc s) (ocSinks oc) m"
    "AllowUnrouted oc \<or> list_ex (\<lambda>sc. PredicateIsEmpty (scPredicate sc)) (ocSinks oc)" "m \<noteq> []"
proof -
  from assms obtain b where b: "buildLoop dec op 0 (ocSinks oc) buildStart = Inr b" "bsSinks b \<noteq> []"
    "bsUnconditional b \<noteq> 0 \<or> AllowUnrouted oc" "NewMultiSink (bsSinks b) (bsNames b) = Inr m"
    by (auto simp: buildSinks_def split: sum.splits if_splits)
  from buildLoop_ok [OF b(1)] have ok: "list_all2 builtFor (ocSinks oc) (bsSinks b)"
    "bsUnconditional b = length (filter (\<lambda>sc. PredicateIsEmpty (scPredicate sc)) (ocSinks oc))" "length (bsNames b) = length (bsSinks b)" by auto
  have m: "m = zip (bsSinks b) (bsNames b)" using b(4) by (auto simp: NewMultiSink_def split: if_splits)
  show "list_all2 (\<lambda>sc (s, n). builtFor sc s) (ocSinks oc) m"
    using ok(1,3) by (auto simp: m list_all2_conv_all_nth)
  show "AllowUnrouted oc \<or> list_ex (\<lambda>sc. PredicateIsEmpty (scPredicate sc)) (ocSinks oc)"
    using b(3) ok(2) by (auto simp: list_ex_iff filter_empty_conv)
  show "m \<noteq> []" using b(2) ok(3) m by (cases "bsSinks b"; cases "bsNames b") auto
qed

lemma buildLoop_total:
  assumes "list_all (sinkWF parse pa) scs" "\<forall>i. op i = None"
  shows "\<exists>b'. buildLoop dec op i scs b = Inr b'"
  using assms(1)
proof (induction scs arbitrary: i b)
  case (Cons sc scs)
  then obtain f where f: "FormatterFor (scFormat sc) (scMetadataFields sc) = Inr f" by (auto simp: sinkWF_def)
  have "checkSinkType parse pa 0 sc = None" using Cons.prems by (simp add: sinkWF_def)
  then have "ToLower (TrimSpace (scType sc)) \<in> {''stdout'', ''file'', ''webhook''}"
    by (auto simp: checkSinkType_def Let_def split: if_splits)
  then have "\<exists>sb. buildTransport dec op i sc f = Inr sb" using assms(2) by (auto simp: buildTransport_def NewFileSink_def)
  then show ?case using f Cons by auto
qed simp

section \<open>A running fan-out\<close>

text \<open>The states of the fan-out under any series of deliveries, successful or not, within the retention of
  its claims.\<close>

inductive fanoutReach :: "(SinkState \<times> string) list \<Rightarrow> (SinkState \<times> string) list \<Rightarrow> bool" for m0 where
  built: "fanoutReach m0 m0"
| wrote: "fanoutReach m0 m \<Longrightarrow> list_all (\<lambda>(k, s, n). sinkFresh (ios k) s) (enumerate 0 m) \<Longrightarrow>
    MultiSink_Write ios m env = (m', fails, r) \<Longrightarrow> fanoutReach m0 m'"

lemma multi_write_keeps:
  assumes "list_all (\<lambda>(k, s, n). sinkFresh (ios k) s) (enumerate 0 m)" "MultiSink_Write ios m env = (m', fails, r)"
    "list_all2 (\<lambda>sc (s, n). sinkInv s \<and> (\<forall>env. sinkWants s env = Match (scPredicate sc) env)) scs m"
  shows "list_all2 (\<lambda>sc (s, n). sinkInv s \<and> (\<forall>env. sinkWants s env = Match (scPredicate sc) env)) scs m'"
proof -
  have m': "m' = map (\<lambda>(k, s, n). (fst (sinkWrite (ios k) s env), n)) (enumerate 0 m)"
    using multiWrite_spec [of ios 0 m env None m' fails r] assms(2) by (simp add: MultiSink_Write_def)
  have len: "length scs = length m" using assms(3) by (rule list_all2_lengthD)
  have "sinkInv s' \<and> (\<forall>e. sinkWants s' e = Match (scPredicate (scs ! i)) e)"
    if i: "i < length m" and s': "m' ! i = (s', n')" for i s' n'
  proof -
    obtain s n where sn: "m ! i = (s, n)" by force
    have e: "enumerate 0 m ! i = (i, s, n)" using i sn by (simp add: nth_enumerate_eq)
    then have fr: "sinkFresh (ios i) s" using assms(1) i by (auto simp: list_all_length)
    have k: "sinkInv s" "\<forall>e. sinkWants s e = Match (scPredicate (scs ! i)) e"
      using list_all2_nthD2 [OF assms(3) i] sn by auto
    obtain r1 where w: "sinkWrite (ios i) s env = (s', r1)" using s' i e by (cases "sinkWrite (ios i) s env") (simp add: m')
    show ?thesis using sinkWrite_inv(1) [OF fr k(1) w] sinkWrite_wants [OF w] k(2) by simp
  qed
  then show ?thesis using len by (auto simp: list_all2_conv_all_nth m' split: prod.splits)
qed

lemma fanoutReach_keeps:
  assumes "fanoutReach m0 m" "list_all2 (\<lambda>sc (s, n). builtFor sc s) scs m0"
  shows "list_all2 (\<lambda>sc (s, n). sinkInv s \<and> (\<forall>env. sinkWants s env = Match (scPredicate sc) env)) scs m"
  using assms(1)
proof induction
  case built
  show ?case using assms(2) by (rule list_all2_mono) (auto simp: builtFor_def)
next
  case (wrote m ios env m' fails r)
  then show ?case using multi_write_keeps by blast
qed

section \<open>Facts about the moderator\<close>

lemma validateProviderLabelBoot_None:
  "validateProviderLabelBoot cfg m = None \<longleftrightarrow>
     (\<forall>ls l. mProviderLabels m = Some ls \<longrightarrow> l \<in> set ls \<longrightarrow> ToLower l \<in> configuredLabels (cProviderThresholds cfg))"
  by (auto simp: validateProviderLabelBoot_def Let_def filter_empty_conv split: option.splits)

lemma Merge_has_label:
  assumes "effectiveMode p \<noteq> ProviderModeOff" "ToLower l \<in> (\<lambda>kv. ToLower (fst kv)) ` set (Labels p)"
  shows "map_of (Merge t p) (ProviderLabelKey l) \<noteq> None"
proof -
  obtain k v where "(k, v) \<in> set (Labels p)" "ToLower k = ToLower l" using assms(2) by force
  then have "ProviderLabelKey l \<in> fst ` set (rev (map (\<lambda>(l, v). (ProviderLabelKey l, v)) (Labels p)))"
    by (force simp: ProviderLabelKey_def)
  then have "map_of (rev (map (\<lambda>(l, v). (ProviderLabelKey l, v)) (Labels p))) (ProviderLabelKey l) \<noteq> None"
    by (simp add: map_of_eq_None_iff)
  then show ?thesis using assms(1) by (auto simp: map_of_Merge Let_def map_add_def split: option.splits)
qed

lemma keys_putAll: "fst ` set (putAll src out) = fst ` set out \<union> fst ` set src"
proof (induction src arbitrary: out)
  case (Cons kv src)
  have "putAll (kv # src) out = putAll src (AList.update (fst kv) (snd kv) out)" by (simp add: putAll_def)
  then show ?case using Cons by (auto simp: dom_update)
qed (simp add: putAll_def)

lemma keys_withUnarmed: "fst ` set (withUnarmed p) = fst ` set (Labels p) \<union> (\<lambda>k. ToLower (TrimSpace k)) ` set (UnarmedLabels p)"
  by (simp add: withUnarmed_def keys_putAll image_image)

lemma configuredLabels_withUnarmed:
  "configuredLabels (p\<lparr>Labels := withUnarmed p\<rparr>) = (\<lambda>kv. ToLower (fst kv)) ` set (withUnarmed p)"
proof -
  let ?U = "(\<lambda>k. ToLower (TrimSpace k)) ` set (UnarmedLabels p)"
  have "ToLower ` ?U = ?U" by (simp add: image_image)
  then have "ToLower ` fst ` set (withUnarmed p) = ToLower ` fst ` set (Labels p) \<union> ?U" by (simp only: keys_withUnarmed image_Un)
  then have "?U \<subseteq> (\<lambda>kv. ToLower (fst kv)) ` set (withUnarmed p)" unfolding image_image by blast
  then show ?thesis unfolding configuredLabels_def by (simp add: Un_absorb2)
qed

lemma InstrumentModerator_fields:
  "mName (InstrumentModerator m) = mName m" "mCaps (InstrumentModerator m) = mCaps m"
  "mAnalyzeImage (InstrumentModerator m) = mAnalyzeImage m" "mAnalyzeVideo (InstrumentModerator m) = mAnalyzeVideo m"
  "mModelVersion (InstrumentModerator m) = mModelVersion m" "mProviderLabels (InstrumentModerator m) = None"
  by (simp_all add: InstrumentModerator_def instrumented_def Let_def split: option.splits)


section \<open>Properties\<close>

text \<open>
  What validation accepts, boot can build: with the files it names writable, a validated output section
  yields a fan-out with one empty sink per entry, in order, each taking exactly the envelopes its predicate
  matches. A failed build leaves no file open, whichever entry it failed on.
\<close>

theorem validated_output_builds:
  assumes "validateOutput parse pa oc0 = Inr oc" "\<forall>i. openErr i = None"
  shows "(\<exists>m cl. buildSinks dec openErr oc = (cl, Inr (m, cl))
      \<and> list_all2 (\<lambda>sc (s, n). sinkInv s \<and> sinkOut s = [] \<and> (\<forall>env. sinkWants s env = Match (scPredicate sc) env)) (ocSinks oc) m)
    \<and> (snd (buildSinks dec op' oc') = Inl e \<longrightarrow> fst (buildSinks dec op' oc') = [])"
proof -
  note v = validateOutput_ok [OF assms(1)]
  obtain b where b: "buildLoop dec openErr 0 (ocSinks oc) buildStart = Inr b" using buildLoop_total [OF v(3) assms(2)] by blast
  from buildLoop_ok [OF b] have ok: "list_all2 builtFor (ocSinks oc) (bsSinks b)" "length (bsNames b) = length (bsSinks b)"
    "bsUnconditional b = length (filter (\<lambda>sc. PredicateIsEmpty (scPredicate sc)) (ocSinks oc))" by auto
  have "bsSinks b \<noteq> []" using ok(1) v(2) by auto
  moreover have "bsUnconditional b \<noteq> 0 \<or> AllowUnrouted oc" using v(4) ok(3) by (auto simp: list_ex_iff filter_empty_conv)
  ultimately have "snd (buildSinks dec openErr oc) = Inr (zip (bsSinks b) (bsNames b), bsClosers b)"
    using b ok(2) by (auto simp: buildSinks_def NewMultiSink_def)
  moreover from this have "fst (buildSinks dec openErr oc) = bsClosers b" using buildSinks_closed [of dec openErr oc] by simp
  ultimately have "buildSinks dec openErr oc = (bsClosers b, Inr (zip (bsSinks b) (bsNames b), bsClosers b))" by (simp add: prod_eq_iff)
  moreover have "list_all2 (\<lambda>sc (s, n). sinkInv s \<and> sinkOut s = [] \<and> (\<forall>env. sinkWants s env = Match (scPredicate sc) env))
      (ocSinks oc) (zip (bsSinks b) (bsNames b))"
    using ok(1,2) by (auto simp: list_all2_conv_all_nth builtFor_def)
  moreover have "snd (buildSinks dec op' oc') = Inl e \<longrightarrow> fst (buildSinks dec op' oc') = []"
    using buildSinks_closed [of dec op' oc'] by auto
  ultimately show ?thesis by blast
qed

lemma demo_output_valid: "validateOutput (\<lambda>_. Inl (errorf [])) (\<lambda>_. None) (cOutput (twoSinks '' Block'')) = Inr (cOutput (twoSinks ''block''))"
  by code_simp

theorem validated_output_builds_witness:
  "\<exists>m cl. buildSinks demoDecoders (\<lambda>_. None) (cOutput (twoSinks ''block'')) = (cl, Inr (m, cl)) \<and> length m = 2"
proof -
  obtain m cl where m: "buildSinks demoDecoders (\<lambda>_. None) (cOutput (twoSinks ''block'')) = (cl, Inr (m, cl))"
    "list_all2 (\<lambda>sc (s, n). sinkInv s \<and> sinkOut s = [] \<and> (\<forall>env. sinkWants s env = Match (scPredicate sc) env)) (ocSinks (cOutput (twoSinks ''block''))) m"
    using conjunct1 [OF validated_output_builds [OF demo_output_valid, of "\<lambda>_. None" demoDecoders]] by blast
  then have "length m = 2" using list_all2_lengthD [OF m(2)] by (simp add: twoSinks_def)
  then show ?thesis using m(1) by blast
qed

text \<open>
  C24. No result goes nowhere: in a fan-out that boot built without the unrouted waiver, after any deliveries,
  a delivery that reports success has left exactly one envelope of the job at a destination that takes every
  envelope, so the worker never acknowledges a job whose result nobody received.
\<close>

theorem no_result_goes_nowhere:
  assumes "snd (buildSinks dec openErr oc) = Inr (m0, cl)" "\<not> AllowUnrouted oc" "fanoutReach m0 m"
    and "list_all (\<lambda>(k, s, n). sinkFresh (ios k) s) (enumerate 0 m)" "MultiSink_Write ios m env = (m', fails, None)"
  shows "list_ex (\<lambda>(s, n). (\<forall>e. sinkWants s e) \<and> length (filter (\<lambda>e. eJobID e = eJobID env) (sinkOut s)) = 1) m'"
proof -
  note b = buildSinks_ok [OF assms(1)]
  note k = fanoutReach_keeps [OF assms(3) b(1)]
  obtain sc where "sc \<in> set (ocSinks oc)" "PredicateIsEmpty (scPredicate sc)" using b(2) assms(2) by (auto simp: list_ex_iff)
  then obtain i where i: "i < length (ocSinks oc)" "PredicateIsEmpty (scPredicate (ocSinks oc ! i))" by (metis in_set_conv_nth)
  have len: "length (ocSinks oc) = length m" using k by (rule list_all2_lengthD)
  have inv: "list_all (\<lambda>(s, n). sinkInv s) m" using k by (auto simp: list_all2_conv_all_nth list_all_length split: prod.splits)
  note o = multi_write_once [OF inv assms(4,5)]
  obtain s n where s: "m ! i = (s, n)" by force
  obtain s' n' where s': "m' ! i = (s', n')" by force
  have w: "sinkWants s e" for e using list_all2_nthD [OF k i(1)] s Match_empty [OF i(2)] by simp
  have "length (filter (\<lambda>e. eJobID e = eJobID env) (sinkOut s')) = 1"
    using list_all2_nthD [OF o, of i] i(1) len s s' w by simp
  moreover have "sinkWants s' e" for e
    using list_all2_nthD [OF multi_write_keeps [OF assms(4,5) k] i(1)] s' Match_empty [OF i(2)] by simp
  moreover have "(s', n') \<in> set m'" using s' i(1) len list_all2_lengthD [OF o] by (metis nth_mem)
  ultimately show ?thesis by (auto simp: list_ex_iff)
qed

lemma demo_formatter: "FormatterFor [] [] = Inr jsonFormatter"
  by code_simp

text \<open>The fan-out of the two sinks, before and after one delivery.\<close>

definition demoFanout :: "(SinkState \<times> string) list" where
  "demoFanout = [(SRouted (scPredicate (blockSink ''block'')) (SFile emptyLineSink), ''file/json''), (SJsonl emptyLineSink, ''stdout'')]"

theorem no_result_goes_nowhere_witness:
  "list_ex (\<lambda>(s, n). sinkWants s (demoEnv ''j2'') \<and> length (filter (\<lambda>e. eJobID e = ''j1'') (sinkOut s)) = 1)
     (fst (MultiSink_Write demoSinkIO demoFanout (demoEnv ''j1'')))"
proof -
  have b: "snd (buildSinks demoDecoders (\<lambda>_. None) (cOutput (twoSinks ''block''))) = Inr (demoFanout, [0])"
    using demo_formatter by (simp add: buildSinks_def twoSinks_def blockSink_def stdoutSink_def buildTransport_def addSink_def
        NewFileSink_def NewMultiSink_def demoFanout_def emptyPredicate_def PredicateIsEmpty_def emptyLineSink_def Let_def string_eval)
  obtain m' f r where w: "MultiSink_Write demoSinkIO demoFanout (demoEnv ''j1'') = (m', f, r)" by (metis prod_cases3)
  have r: "snd (snd (MultiSink_Write demoSinkIO demoFanout (demoEnv ''j1''))) = None" by code_simp
  have fr: "list_all (\<lambda>(k, s, n). sinkFresh (demoSinkIO k) s) (enumerate 0 demoFanout)" by code_simp
  have "list_ex (\<lambda>(s, n). (\<forall>e. sinkWants s e) \<and> length (filter (\<lambda>e. eJobID e = eJobID (demoEnv ''j1'')) (sinkOut s)) = 1) m'"
    by (rule no_result_goes_nowhere [OF b _ fanoutReach.built fr]) (use w r in \<open>simp_all add: twoSinks_def\<close>)
  then show ?thesis using w by (auto simp: list_ex_iff demoEnv_def)
qed

text \<open>
  C25. A hazard is never disarmed by omission: when a loaded configuration with provider thresholds passes the
  boot check, every label the adapter can emit has an entry of its own in the thresholds the pipeline runs
  with, so the boundary that applies to it was written down. The wrapper the server puts around the adapter
  changes nothing the pipeline is built from.
\<close>

theorem booted_labels_have_entries:
  assumes "Load parse pa v path = Inr cfg" "validateProviderLabelBoot cfg m = None" "mProviderLabels m = Some ls" "l \<in> set ls"
    and "effectiveMode (cProviderThresholds cfg) \<noteq> ''off''"
  shows "map_of (pThresholds (buildPipeline num cfg (InstrumentModerator m))) (ProviderLabelKey l) \<noteq> None
    \<and> buildPipeline num cfg (InstrumentModerator m) = buildPipeline num cfg m"
proof -
  obtain c where c: "cfg = c\<lparr>cProviderThresholds := (cProviderThresholds c)\<lparr>Labels := withUnarmed (cProviderThresholds c)\<rparr>,
      cThresholds := Merge (cThresholds c) ((cProviderThresholds c)\<lparr>Labels := withUnarmed (cProviderThresholds c)\<rparr>)\<rparr>"
    using assms(1) by (auto simp: Load_def Let_def split: option.splits sum.splits if_splits)
  have "ToLower l \<in> configuredLabels (cProviderThresholds cfg)" using assms(2-4) by (simp add: validateProviderLabelBoot_None)
  then have "ToLower l \<in> (\<lambda>kv. ToLower (fst kv)) ` set (Labels (cProviderThresholds cfg))"
    using configuredLabels_withUnarmed [of "cProviderThresholds c"] by (simp add: c)
  from Merge_has_label [OF assms(5) this] have "map_of (cThresholds cfg) (ProviderLabelKey l) \<noteq> None" by (simp add: c)
  then show ?thesis by (simp add: buildPipeline_def moderatorOf_def modelVersion_def InstrumentModerator_fields)
qed

definition overrideReader :: Reader where
  "overrideReader = \<lparr>rdReadErr = None, rdInConfig = (\<lambda>_. False),
     rdUnmarshal = (\<lambda>d. Inr (d\<lparr>cProviderThresholds :=
       \<lparr>Mode = ''override'', Labels = [(''gore'', \<lparr>FlagAt = None, BlockAt = Some (Fin (1 / 2))\<rparr>)], UnarmedLabels = ['' Hate '']\<rparr>\<rparr>))\<rparr>"

definition labelModerator :: WiredModerator where
  "labelModerator = devFakeModerator\<lparr>mProviderLabels := Some [''GORE'', ''hate'']\<rparr>"

definition overrideConfig :: Config where
  "overrideConfig = projr (Load (\<lambda>_. Inl (errorf [])) (\<lambda>_. None) overrideReader [])"

theorem booted_labels_have_entries_witness:
  "map_of (pThresholds (buildPipeline (\<lambda>_. []) overrideConfig (InstrumentModerator labelModerator))) (ProviderLabelKey ''hate'') \<noteq> None"
proof -
  have "\<not> isl (Load (\<lambda>_. Inl (errorf [])) (\<lambda>_. None) overrideReader [])" by code_simp
  then have l: "Load (\<lambda>_. Inl (errorf [])) (\<lambda>_. None) overrideReader [] = Inr overrideConfig"
    unfolding overrideConfig_def by simp
  have v: "validateProviderLabelBoot overrideConfig labelModerator = None" by code_simp
  have e: "effectiveMode (cProviderThresholds overrideConfig) \<noteq> ''off''" by code_simp
  have "mProviderLabels labelModerator = Some [''GORE'', ''hate'']" by (simp add: labelModerator_def)
  from booted_labels_have_entries [OF l v this _ e] show ?thesis by simp
qed

end
