(* ===== verification/JobStore.thy ===== *)
theory JobStore
  imports Fetch
begin

text \<open>
  The read side's job-state cache (\<open>resultStore\<close> of \<open>internal/cli/resultapi.go\<close>) and the redaction of
  dead-letter reasons. The cache is a doubly linked list of records in recency order with an index of
  pointers into it; elements have addresses here, so that the index and the list are the code's. A list of
  records without pointers specifies it: a locale states the laws, and the store is its interpretation.
\<close>

section \<open>Status documents\<close>

datatype jobState = stateQueued | stateProcessing | stateDone | stateDeadLettered | stateNotFound

record jobStatus =
  jsJobID :: JobID
  jsState :: jobState
  jsResult :: "ResultEnvelope option"
  jsReason :: string

definition stateRank :: "jobState \<Rightarrow> nat" where
  "stateRank s = (case s of stateQueued \<Rightarrow> 0 | stateProcessing \<Rightarrow> 1 | _ \<Rightarrow> 2)"

record storeEntry =
  seDoc :: jobStatus
  seExpires :: int

definition live :: "storeEntry \<Rightarrow> int \<Rightarrow> bool" where
  "live e now \<longleftrightarrow> now < seExpires e"

section \<open>The store\<close>

record resultStore =
  rsMax :: int
  rsTTL :: int
  rsLru :: "nat list"
  rsIdx :: "(JobID \<times> nat) list"
  rsElem :: "nat \<Rightarrow> storeEntry"
  rsNext :: nat

definition newResultStore :: "int \<Rightarrow> int \<Rightarrow> resultStore" where
  "newResultStore maxEntries ttl =
     \<lparr>rsMax = maxEntries, rsTTL = ttl, rsLru = [], rsIdx = [], rsElem = (\<lambda>_. undefined), rsNext = 0\<rparr>"

definition dropElem :: "resultStore \<Rightarrow> nat \<Rightarrow> resultStore" where
  "dropElem s el = s\<lparr>rsIdx := AList.delete (jsJobID (seDoc (rsElem s el))) (rsIdx s), rsLru := remove1 el (rsLru s)\<rparr>"

definition moveToFront :: "resultStore \<Rightarrow> nat \<Rightarrow> resultStore" where
  "moveToFront s el = s\<lparr>rsLru := el # remove1 el (rsLru s)\<rparr>"

text \<open>The eviction loop; \<open>Back\<close> of an empty list is nil, and dropping it panics.\<close>

function evictLoop :: "resultStore \<Rightarrow> resultStore call" where
  "evictLoop s =
     (if int (length (rsLru s)) > rsMax s
      then (if rsLru s = [] then Panicked ''nil pointer dereference'' else evictLoop (dropElem s (last (rsLru s))))
      else Ret s)"
  by pat_completeness auto
termination
  by (relation "measure (\<lambda>s. length (rsLru s))") (auto simp: dropElem_def length_remove1 length_greater_0_conv)

declare evictLoop.simps [simp del]

definition recordLocked :: "int \<Rightarrow> resultStore \<Rightarrow> jobStatus \<Rightarrow> resultStore call" where
  "recordLocked now s doc =
     (let entry = \<lparr>seDoc = doc, seExpires = now + rsTTL s\<rparr> in
      case map_of (rsIdx s) (jsJobID doc) of
        Some el \<Rightarrow>
          if live (rsElem s el) now \<and> stateRank (jsState doc) \<le> stateRank (jsState (seDoc (rsElem s el))) then Ret s
          else Ret (moveToFront (s\<lparr>rsElem := (rsElem s)(el := entry)\<rparr>) el)
      | None \<Rightarrow>
          evictLoop (s\<lparr>rsElem := (rsElem s)(rsNext s := entry), rsLru := rsNext s # rsLru s,
            rsIdx := AList.update (jsJobID doc) (rsNext s) (rsIdx s), rsNext := rsNext s + 1\<rparr>))"

definition recordStatus :: "int \<Rightarrow> resultStore option \<Rightarrow> jobStatus \<Rightarrow> resultStore option call" where
  "recordStatus now so doc =
     (case so of
        None \<Rightarrow> Ret None
      | Some s \<Rightarrow> (case recordLocked now s doc of Panicked m \<Rightarrow> Panicked m | Ret s' \<Rightarrow> Ret (Some s')))"

definition getLocked :: "int \<Rightarrow> resultStore \<Rightarrow> JobID \<Rightarrow> resultStore \<times> jobStatus option" where
  "getLocked now s job =
     (case map_of (rsIdx s) job of
        None \<Rightarrow> (s, None)
      | Some el \<Rightarrow>
          if \<not> live (rsElem s el) now then (dropElem s el, None)
          else (moveToFront s el, Some (seDoc (rsElem s el))))"

definition getStatus :: "int \<Rightarrow> resultStore option \<Rightarrow> JobID \<Rightarrow> resultStore option \<times> jobStatus option" where
  "getStatus now so job =
     (case so of None \<Rightarrow> (None, None) | Some s \<Rightarrow> map_prod Some id (getLocked now s job))"

definition storeLen :: "resultStore option \<Rightarrow> int" where
  "storeLen so = (case so of None \<Rightarrow> 0 | Some s \<Rightarrow> int (length (rsLru s)))"

section \<open>Reasons\<close>

text \<open>The expression \<open>https?://[^\s"'<>\\]+\<close>, leftmost and greedy.\<close>

definition urlStop :: "char \<Rightarrow> bool" where
  "urlStop c \<longleftrightarrow> c \<in> {CHR 0x09, CHR 0x0A, CHR 0x0C, CHR 0x0D, CHR 0x20, CHR 0x22, CHR 0x27, CHR ''<'', CHR ''>'', CHR 0x5C}"

definition schemeLen :: "string \<Rightarrow> nat option" where
  "schemeLen s = (if HasPrefix s ''https://'' then Some 8 else if HasPrefix s ''http://'' then Some 7 else None)"

definition matchURL :: "string \<Rightarrow> string option" where
  "matchURL s =
     (case schemeLen s of
        None \<Rightarrow> None
      | Some n \<Rightarrow>
          (let body = takeWhile (\<lambda>c. \<not> urlStop c) (drop n s) in if body = [] then None else Some (take n s @ body)))"

lemma matchURL_length: "matchURL s = Some u \<Longrightarrow> 0 < length u \<and> length u \<le> length s"
proof -
  assume "matchURL s = Some u"
  then obtain n where n: "u = take n s @ takeWhile (\<lambda>c. \<not> urlStop c) (drop n s)" "takeWhile (\<lambda>c. \<not> urlStop c) (drop n s) \<noteq> []"
    by (auto simp: matchURL_def Let_def split: option.splits if_splits)
  have "length (takeWhile (\<lambda>c. \<not> urlStop c) (drop n s)) \<le> length (drop n s)" by (rule length_takeWhile_le)
  then show ?thesis using n by (cases "n \<le> length s") auto
qed

function redactReason :: "urlParser \<Rightarrow> string \<Rightarrow> string" where
  "redactReason parse [] = []"
| "redactReason parse (c # cs) =
     (case matchURL (c # cs) of
        Some u \<Rightarrow> fst (Redact parse u) @ redactReason parse (drop (length u) (c # cs))
      | None \<Rightarrow> c # redactReason parse cs)"
  by pat_completeness auto
termination
  by (relation "measure (\<lambda>(p, s). length s)") (auto dest: matchURL_length)

definition errText :: "goerr option \<Rightarrow> string" where
  "errText e = (case e of None \<Rightarrow> ''<nil>'' | Some x \<Rightarrow> emsg x)"

definition deadLetterReason :: "urlParser \<Rightarrow> goerr option \<Rightarrow> string" where
  "deadLetterReason parse perr = redactReason parse (''dead-lettered: '' @ errText perr)"

definition recordTerminalStatus ::
  "urlParser \<Rightarrow> int \<Rightarrow> resultStore option \<Rightarrow> JobID \<Rightarrow> ResultEnvelope \<Rightarrow> Disposition \<Rightarrow> goerr option \<Rightarrow> resultStore option call" where
  "recordTerminalStatus parse now so job env disp perr =
     (if so = None then Ret None
      else if disp = Ack then
        recordStatus now so \<lparr>jsJobID = job, jsState = stateDone, jsResult = Some env, jsReason = []\<rparr>
      else
        recordStatus now so \<lparr>jsJobID = job, jsState = stateDeadLettered, jsResult = None, jsReason = deadLetterReason parse perr\<rparr>)"

section \<open>What the store promises\<close>

abbreviation entryID :: "storeEntry \<Rightarrow> JobID" where "entryID e \<equiv> jsJobID (seDoc e)"

text \<open>The specification: records in recency order, one per job, without pointers.\<close>

definition specRecord :: "int \<Rightarrow> int \<Rightarrow> int \<Rightarrow> jobStatus \<Rightarrow> storeEntry list \<Rightarrow> storeEntry list" where
  "specRecord mx ttl now doc es =
     (let new = \<lparr>seDoc = doc, seExpires = now + ttl\<rparr> in
      case find (\<lambda>e. entryID e = jsJobID doc) es of
        Some e \<Rightarrow>
          if live e now \<and> stateRank (jsState doc) \<le> stateRank (jsState (seDoc e)) then es
          else new # filter (\<lambda>e. entryID e \<noteq> jsJobID doc) es
      | None \<Rightarrow> take (nat mx) (new # es))"

definition specGet :: "int \<Rightarrow> JobID \<Rightarrow> storeEntry list \<Rightarrow> storeEntry list \<times> jobStatus option" where
  "specGet now job es =
     (case find (\<lambda>e. entryID e = job) es of
        None \<Rightarrow> (es, None)
      | Some e \<Rightarrow>
          if live e now then (e # filter (\<lambda>e. entryID e \<noteq> job) es, Some (seDoc e))
          else (filter (\<lambda>e. entryID e \<noteq> job) es, None))"

definition storeAbs :: "resultStore \<Rightarrow> storeEntry list" where
  "storeAbs s = map (rsElem s) (rsLru s)"

text \<open>The index and the list describe the same records; \<open>storeInv\<close> adds the cap, which holds between calls.\<close>

definition coreInv :: "resultStore \<Rightarrow> bool" where
  "coreInv s \<longleftrightarrow> distinct (map entryID (storeAbs s)) \<and> (\<forall>a \<in> set (rsLru s). a < rsNext s)
     \<and> (\<forall>job a. map_of (rsIdx s) job = Some a \<longleftrightarrow> a \<in> set (rsLru s) \<and> entryID (rsElem s a) = job)"

definition storeInv :: "resultStore \<Rightarrow> bool" where
  "storeInv s \<longleftrightarrow> coreInv s \<and> 0 \<le> rsMax s \<and> int (length (rsLru s)) \<le> rsMax s"

locale status_store =
  fixes inv :: "'s \<Rightarrow> bool"
    and entries :: "'s \<Rightarrow> storeEntry list"
    and cap :: "'s \<Rightarrow> int"
    and ttl :: "'s \<Rightarrow> int"
    and rcd :: "int \<Rightarrow> 's \<Rightarrow> jobStatus \<Rightarrow> 's call"
    and look :: "int \<Rightarrow> 's \<Rightarrow> JobID \<Rightarrow> 's \<times> jobStatus option"
  assumes bounded: "inv s \<Longrightarrow> 0 \<le> cap s \<and> int (length (entries s)) \<le> cap s \<and> distinct (map entryID (entries s))"
    and rcd_spec: "inv s \<Longrightarrow> \<exists>s'. rcd now s doc = Ret s' \<and> inv s' \<and> cap s' = cap s \<and> ttl s' = ttl s
      \<and> entries s' = specRecord (cap s) (ttl s) now doc (entries s)"
    and look_spec: "inv s \<Longrightarrow> look now s job = (s', d) \<Longrightarrow> inv s' \<and> cap s' = cap s \<and> ttl s' = ttl s
      \<and> specGet now job (entries s) = (entries s', d)"
begin

lemma find_entry: "inv s \<Longrightarrow> e \<in> set (entries s) \<Longrightarrow> find (\<lambda>x. entryID x = entryID e) (entries s) = Some e"
proof -
  assume a: "inv s" "e \<in> set (entries s)"
  have "distinct (map entryID es) \<Longrightarrow> e \<in> set es \<Longrightarrow> find (\<lambda>x. entryID x = entryID e) es = Some e" for es
    by (induction es) (auto simp: image_iff)
  then show ?thesis using a bounded by blast
qed

text \<open>A record still readable never moves backwards: a transition keeps it, or puts a strictly later state
  of the same job in its place, or evicts it because a new job arrived at a full store.\<close>

lemma rcd_forward:
  assumes "inv s" "e \<in> set (entries s)" "live e now" "rcd now s doc = Ret s'"
  shows "e \<in> set (entries s')
    \<or> (jsJobID doc = entryID e \<and> stateRank (jsState (seDoc e)) < stateRank (jsState doc)
        \<and> \<lparr>seDoc = doc, seExpires = now + ttl s\<rparr> \<in> set (entries s'))
    \<or> (jsJobID doc \<notin> entryID ` set (entries s) \<and> int (length (entries s)) = cap s \<and> e = last (entries s))"
proof -
  have es: "entries s' = specRecord (cap s) (ttl s) now doc (entries s)"
    using rcd_spec [OF assms(1), of now doc] assms(4) by auto
  note b = bounded [OF assms(1)]
  show ?thesis
  proof (cases "jsJobID doc = entryID e")
    case True
    then have "find (\<lambda>x. entryID x = jsJobID doc) (entries s) = Some e" using find_entry [OF assms(1,2)] by simp
    then show ?thesis using assms(2,3) True by (auto simp: es specRecord_def Let_def)
  next
    case False
    show ?thesis
    proof (cases "find (\<lambda>x. entryID x = jsJobID doc) (entries s)")
      case None
      then have new: "jsJobID doc \<notin> entryID ` set (entries s)" by (auto simp: find_None_iff)
      have es': "entries s' = take (nat (cap s)) (\<lparr>seDoc = doc, seExpires = now + ttl s\<rparr> # entries s)"
        using None by (simp add: es specRecord_def Let_def)
      show ?thesis
      proof (cases "int (length (entries s)) = cap s")
        case True
        then obtain n where n: "nat (cap s) = Suc n" "n = length (entries s) - 1"
          using assms(2) by (cases "entries s") auto
        have "e \<in> set (butlast (entries s)) \<or> e = last (entries s)"
          using assms(2) by (metis append_butlast_last_id empty_iff empty_set insert_iff list.set(2) rotate1.simps(2) set_rotate1)
        then show ?thesis using new True n by (auto simp: es' butlast_conv_take)
      next
        case False
        then have "Suc (length (entries s)) \<le> nat (cap s)" using b by linarith
        then show ?thesis using assms(2) by (simp add: es')
      qed
    next
      case (Some x)
      then show ?thesis using assms(2) False by (simp add: es specRecord_def Let_def)
    qed
  qed
qed

text \<open>A lookup answers with the readable record of the job and with nothing else, and removes no readable record.\<close>

lemma look_reads:
  assumes "inv s" "look now s job = (s', d)"
  shows "d = Some doc \<longleftrightarrow> (\<exists>e \<in> set (entries s). entryID e = job \<and> live e now \<and> doc = seDoc e)"
    "e \<in> set (entries s) \<Longrightarrow> live e now \<Longrightarrow> e \<in> set (entries s')"
proof -
  have g: "specGet now job (entries s) = (entries s', d)" using look_spec [OF assms] by simp
  show "d = Some doc \<longleftrightarrow> (\<exists>e \<in> set (entries s). entryID e = job \<and> live e now \<and> doc = seDoc e)"
  proof (cases "find (\<lambda>e. entryID e = job) (entries s)")
    case None
    then have "d = None" using g by (simp add: specGet_def)
    then show ?thesis using None by (auto simp: find_None_iff)
  next
    case (Some e)
    then have e: "e \<in> set (entries s)" "entryID e = job" by (auto simp: find_Some_iff)
    have uniq: "x = e" if "x \<in> set (entries s)" "entryID x = job" for x using find_entry [OF assms(1) that(1)] that(2) Some by simp
    have "d = (if live e now then Some (seDoc e) else None)" using g Some by (simp add: specGet_def split: if_splits)
    moreover have "(\<exists>x \<in> set (entries s). entryID x = job \<and> live x now \<and> doc = seDoc x) \<longleftrightarrow> live e now \<and> doc = seDoc e"
      using e uniq by blast
    ultimately show ?thesis by auto
  qed
  show "e \<in> set (entries s) \<Longrightarrow> live e now \<Longrightarrow> e \<in> set (entries s')"
  proof -
    assume a: "e \<in> set (entries s)" "live e now"
    show ?thesis
    proof (cases "entryID e = job")
      case True
      then have "find (\<lambda>x. entryID x = job) (entries s) = Some e" using find_entry [OF assms(1) a(1)] by simp
      then have "entries s' = e # filter (\<lambda>x. entryID x \<noteq> job) (entries s)" using g a by (simp add: specGet_def)
      then show ?thesis by simp
    next
      case False
      have "entries s' = fst (specGet now job (entries s))" by (simp add: g)
      then show ?thesis using a False by (simp add: specGet_def split: option.split)
    qed
  qed
qed

end

section \<open>The store keeps the contract\<close>

lemma coreInv_distinct: "coreInv s \<Longrightarrow> distinct (rsLru s)"
  unfolding coreInv_def storeAbs_def by (simp add: distinct_map)

lemma coreInv_idx: "coreInv s \<Longrightarrow> map_of (rsIdx s) job = Some a \<longleftrightarrow> a \<in> set (rsLru s) \<and> entryID (rsElem s a) = job"
  by (simp add: coreInv_def)

lemma map_remove1_filter:
  assumes "distinct (map (\<lambda>a. k (f a)) l)" "el \<in> set l"
  shows "map f (remove1 el l) = filter (\<lambda>e. k e \<noteq> k (f el)) (map f l)"
  using assms
proof (induction l)
  case (Cons a l)
  show ?case
  proof (cases "a = el")
    case True
    then have "filter (\<lambda>e. k e \<noteq> k (f el)) (map f l) = map f l"
      using Cons.prems(1) by (intro filter_True) (metis (mono_tags, lifting) distinct.simps(2) image_eqI image_image list.set_map list.simps(9))
    then show ?thesis using True by simp
  next
    case False
    then have "el \<in> set l" "k (f a) \<noteq> k (f el)" using Cons.prems by (auto simp: image_iff)
    then show ?thesis using Cons False by simp
  qed
qed simp

lemma filter_last:
  assumes "distinct (map k es)" "es \<noteq> []"
  shows "filter (\<lambda>e. k e \<noteq> k (last es)) es = butlast es"
proof -
  have es: "es = butlast es @ [last es]" using assms(2) by simp
  then have "k (last es) \<notin> k ` set (butlast es)"
    using assms(1) by (metis distinct.simps(2) distinct_append list.set_map list.simps(9) map_append not_distinct_conv_prefix)
  then have "filter (\<lambda>e. k e \<noteq> k (last es)) (butlast es) = butlast es" by (intro filter_True) (metis imageI)
  then show ?thesis by (subst es) simp
qed

lemma find_abs:
  assumes "coreInv s"
  shows "find (\<lambda>e. entryID e = job) (storeAbs s) = map_option (rsElem s) (map_of (rsIdx s) job)"
proof (cases "map_of (rsIdx s) job")
  case None
  then have "a \<in> set (rsLru s) \<Longrightarrow> entryID (rsElem s a) \<noteq> job" for a
    using coreInv_idx [OF assms, of job a] by auto
  then show ?thesis using None by (auto simp: storeAbs_def find_None_iff)
next
  case (Some a)
  then have a: "a \<in> set (rsLru s)" "entryID (rsElem s a) = job" using coreInv_idx [OF assms] by auto
  have "distinct (map entryID es) \<Longrightarrow> e \<in> set es \<Longrightarrow> entryID e = job \<Longrightarrow> find (\<lambda>e. entryID e = job) es = Some e" for es e
    by (induction es) (auto simp: image_iff)
  moreover have "distinct (map entryID (storeAbs s))" "rsElem s a \<in> set (storeAbs s)"
    using assms a by (auto simp: coreInv_def storeAbs_def)
  ultimately show ?thesis using a Some by simp
qed

lemma dropElem_core:
  assumes "coreInv s" "el \<in> set (rsLru s)"
  shows "coreInv (dropElem s el)" "storeAbs (dropElem s el) = filter (\<lambda>e. entryID e \<noteq> entryID (rsElem s el)) (storeAbs s)"
proof -
  show a: "storeAbs (dropElem s el) = filter (\<lambda>e. entryID e \<noteq> entryID (rsElem s el)) (storeAbs s)"
    using map_remove1_filter [of entryID "rsElem s" "rsLru s" el] assms
    by (simp add: storeAbs_def dropElem_def coreInv_def comp_def)
  have "map_of (rsIdx (dropElem s el)) job = Some b \<longleftrightarrow> b \<in> set (rsLru (dropElem s el)) \<and> entryID (rsElem (dropElem s el) b) = job" for job b
  proof -
    have "b \<noteq> el \<longleftrightarrow> entryID (rsElem s b) \<noteq> entryID (rsElem s el)" if "b \<in> set (rsLru s)"
      using that assms coreInv_idx [OF assms(1)] by (metis option.inject)
    then show ?thesis using coreInv_idx [OF assms(1), of job b] coreInv_distinct [OF assms(1)]
      by (auto simp: dropElem_def AList.delete_conv' set_remove1_eq)
  qed
  moreover have "distinct (map entryID (storeAbs (dropElem s el)))" using assms(1) unfolding a coreInv_def by (simp add: distinct_map_filter)
  moreover have "\<forall>b \<in> set (rsLru (dropElem s el)). b < rsNext (dropElem s el)"
    using assms(1) by (auto simp: dropElem_def coreInv_def dest: notin_set_remove1)
  ultimately show "coreInv (dropElem s el)" by (simp add: coreInv_def)
qed

lemma moveToFront_core:
  assumes "coreInv s" "el \<in> set (rsLru s)"
  shows "coreInv (moveToFront s el)"
    "storeAbs (moveToFront s el) = rsElem s el # filter (\<lambda>e. entryID e \<noteq> entryID (rsElem s el)) (storeAbs s)"
proof -
  show a: "storeAbs (moveToFront s el) = rsElem s el # filter (\<lambda>e. entryID e \<noteq> entryID (rsElem s el)) (storeAbs s)"
    using map_remove1_filter [of entryID "rsElem s" "rsLru s" el] assms
    by (simp add: storeAbs_def moveToFront_def coreInv_def comp_def)
  have "set (rsLru (moveToFront s el)) = set (rsLru s)"
    using assms(2) coreInv_distinct [OF assms(1)] by (auto simp: moveToFront_def)
  then show "coreInv (moveToFront s el)"
    using assms(1) a by (auto simp: coreInv_def moveToFront_def distinct_map_filter)
qed

lemma evictLoop_core:
  "coreInv s \<Longrightarrow> 0 \<le> rsMax s \<Longrightarrow> \<exists>s'. evictLoop s = Ret s' \<and> coreInv s' \<and> rsMax s' = rsMax s \<and> rsTTL s' = rsTTL s
     \<and> int (length (rsLru s')) \<le> rsMax s \<and> storeAbs s' = take (nat (rsMax s)) (storeAbs s)"
proof (induction s rule: evictLoop.induct)
  case (1 s)
  show ?case
  proof (cases "rsMax s < int (length (rsLru s))")
    case False
    then show ?thesis using 1 by (auto simp: evictLoop.simps [of s] storeAbs_def)
  next
    case True
    then have ne: "rsLru s \<noteq> []" using 1 by auto
    let ?t = "dropElem s (last (rsLru s))"
    have el: "last (rsLru s) \<in> set (rsLru s)" using ne by simp
    have ab: "storeAbs ?t = butlast (storeAbs s)"
      using dropElem_core(2) [OF "1.prems"(1) el] filter_last [of entryID "storeAbs s"] "1.prems"(1) ne
      by (simp add: coreInv_def storeAbs_def last_map)
    have mx: "rsMax ?t = rsMax s" "rsTTL ?t = rsTTL s" by (simp_all add: dropElem_def)
    obtain s' where "evictLoop ?t = Ret s'" "coreInv s'" "rsMax s' = rsMax s" "rsTTL s' = rsTTL s" "int (length (rsLru s')) \<le> rsMax s"
      "storeAbs s' = take (nat (rsMax s)) (storeAbs ?t)"
      using "1.IH" [OF True ne dropElem_core(1) [OF "1.prems"(1) el]] "1.prems"(2) by (auto simp: mx)
    moreover have "take (nat (rsMax s)) (butlast (storeAbs s)) = take (nat (rsMax s)) (storeAbs s)"
      using True "1.prems"(2) by (simp add: butlast_conv_take storeAbs_def min_def)
    ultimately show ?thesis using True ne ab by (simp add: evictLoop.simps [of s])
  qed
qed

lemma filter_update_irrelevant:
  "\<not> P x \<Longrightarrow> \<not> P (f el) \<Longrightarrow> filter P (map (f(el := x)) l) = filter P (map f l)"
  by (induction l) auto

lemma overwrite_core:
  assumes "coreInv s" "el \<in> set (rsLru s)" "entryID entry = entryID (rsElem s el)"
  shows "coreInv (s\<lparr>rsElem := (rsElem s)(el := entry)\<rparr>)"
proof -
  let ?s = "s\<lparr>rsElem := (rsElem s)(el := entry)\<rparr>"
  have "entryID (rsElem ?s a) = entryID (rsElem s a)" for a using assms(3) by simp
  then have "map entryID (storeAbs ?s) = map entryID (storeAbs s)" "\<And>a job. entryID (rsElem ?s a) = job \<longleftrightarrow> entryID (rsElem s a) = job"
    by (simp_all add: storeAbs_def)
  then show ?thesis using assms(1) by (simp add: coreInv_def)
qed

lemma insert_core:
  assumes "coreInv s" "map_of (rsIdx s) (jsJobID (seDoc entry)) = None"
  shows "coreInv (s\<lparr>rsElem := (rsElem s)(rsNext s := entry), rsLru := rsNext s # rsLru s,
      rsIdx := AList.update (entryID entry) (rsNext s) (rsIdx s), rsNext := rsNext s + 1\<rparr>)"
    "storeAbs (s\<lparr>rsElem := (rsElem s)(rsNext s := entry), rsLru := rsNext s # rsLru s,
      rsIdx := AList.update (entryID entry) (rsNext s) (rsIdx s), rsNext := rsNext s + 1\<rparr>) = entry # storeAbs s"
proof -
  let ?s = "s\<lparr>rsElem := (rsElem s)(rsNext s := entry), rsLru := rsNext s # rsLru s,
      rsIdx := AList.update (entryID entry) (rsNext s) (rsIdx s), rsNext := rsNext s + 1\<rparr>"
  have fresh: "rsNext s \<notin> set (rsLru s)" using assms(1) by (auto simp: coreInv_def)
  show a: "storeAbs ?s = entry # storeAbs s" using fresh by (simp add: storeAbs_def)
  have new: "a \<in> set (rsLru s) \<Longrightarrow> entryID (rsElem s a) \<noteq> entryID entry" for a
    using coreInv_idx [OF assms(1), of "entryID entry" a] assms(2) by auto
  have "entryID entry \<notin> entryID ` set (storeAbs s)"
  proof
    assume "entryID entry \<in> entryID ` set (storeAbs s)"
    then obtain a where "a \<in> set (rsLru s)" "entryID entry = entryID (rsElem s a)" by (auto simp: storeAbs_def)
    then show False using new [of a] by simp
  qed
  then have "distinct (map entryID (storeAbs ?s))" using assms(1) unfolding a by (simp add: coreInv_def)
  moreover have "map_of (rsIdx ?s) job = Some b \<longleftrightarrow> b \<in> set (rsLru ?s) \<and> entryID (rsElem ?s b) = job" for job b
    using coreInv_idx [OF assms(1), of job b] fresh new by (auto simp: update_conv')
  ultimately show "coreInv ?s" using assms(1) by (auto simp: coreInv_def less_SucI)
qed

lemma recordLocked_spec:
  assumes "storeInv s"
  shows "\<exists>s'. recordLocked now s doc = Ret s' \<and> storeInv s' \<and> rsMax s' = rsMax s \<and> rsTTL s' = rsTTL s
    \<and> storeAbs s' = specRecord (rsMax s) (rsTTL s) now doc (storeAbs s)"
proof -
  have c: "coreInv s" "0 \<le> rsMax s" "int (length (rsLru s)) \<le> rsMax s" using assms by (auto simp: storeInv_def)
  define entry where "entry = \<lparr>seDoc = doc, seExpires = now + rsTTL s\<rparr>"
  show ?thesis
  proof (cases "map_of (rsIdx s) (jsJobID doc)")
    case None
    let ?s = "s\<lparr>rsElem := (rsElem s)(rsNext s := entry), rsLru := rsNext s # rsLru s,
      rsIdx := AList.update (entryID entry) (rsNext s) (rsIdx s), rsNext := rsNext s + 1\<rparr>"
    have n: "map_of (rsIdx s) (entryID entry) = None" using None by (simp add: entry_def)
    have "recordLocked now s doc = evictLoop ?s" using None by (simp add: recordLocked_def entry_def Let_def)
    moreover have "specRecord (rsMax s) (rsTTL s) now doc (storeAbs s) = take (nat (rsMax s)) (entry # storeAbs s)"
      using None by (simp add: specRecord_def find_abs [OF c(1)] entry_def Let_def)
    moreover obtain s' where "evictLoop ?s = Ret s'" "coreInv s'" "rsMax s' = rsMax s" "rsTTL s' = rsTTL s"
      "int (length (rsLru s')) \<le> rsMax s" "storeAbs s' = take (nat (rsMax s)) (entry # storeAbs s)"
      using evictLoop_core [OF insert_core(1) [OF c(1) n]] c(2) unfolding insert_core(2) [OF c(1) n] by auto
    ultimately show ?thesis using c(2) by (simp add: storeInv_def)
  next
    case (Some el)
    have el: "el \<in> set (rsLru s)" "entryID (rsElem s el) = jsJobID doc" using coreInv_idx [OF c(1)] Some by auto
    show ?thesis
    proof (cases "live (rsElem s el) now \<and> stateRank (jsState doc) \<le> stateRank (jsState (seDoc (rsElem s el)))")
      case True
      then show ?thesis using Some assms by (simp add: recordLocked_def specRecord_def find_abs [OF c(1)] Let_def)
    next
      case False
      let ?s = "s\<lparr>rsElem := (rsElem s)(el := entry)\<rparr>"
      have w: "coreInv ?s" using overwrite_core [OF c(1) el(1), of entry] el(2) by (simp add: entry_def)
      have el': "el \<in> set (rsLru ?s)" using el(1) by simp
      have "filter (\<lambda>e. entryID e \<noteq> jsJobID doc) (storeAbs ?s) = filter (\<lambda>e. entryID e \<noteq> jsJobID doc) (storeAbs s)"
        using filter_update_irrelevant [of "\<lambda>e. entryID e \<noteq> jsJobID doc" entry "rsElem s" el "rsLru s"] el(2)
        by (simp add: storeAbs_def entry_def)
      then have "storeAbs (moveToFront ?s el) = entry # filter (\<lambda>e. entryID e \<noteq> jsJobID doc) (storeAbs s)"
        using moveToFront_core(2) [OF w el'] by (simp add: entry_def)
      moreover have "recordLocked now s doc = Ret (moveToFront ?s el)" using Some False by (auto simp: recordLocked_def entry_def Let_def)
      moreover have "specRecord (rsMax s) (rsTTL s) now doc (storeAbs s) = entry # filter (\<lambda>e. entryID e \<noteq> jsJobID doc) (storeAbs s)"
        using Some False by (auto simp: specRecord_def find_abs [OF c(1)] entry_def Let_def)
      moreover have "length (rsLru (moveToFront ?s el)) = length (rsLru s)"
        using el(1) by (simp add: moveToFront_def length_remove1) (metis Suc_pred length_pos_if_in_set)
      ultimately show ?thesis using moveToFront_core(1) [OF w el'] c by (simp add: storeInv_def) (simp add: moveToFront_def)
    qed
  qed
qed

lemma getLocked_spec:
  assumes "storeInv s" "getLocked now s job = (s', d)"
  shows "storeInv s' \<and> rsMax s' = rsMax s \<and> rsTTL s' = rsTTL s \<and> specGet now job (storeAbs s) = (storeAbs s', d)"
proof -
  have c: "coreInv s" "0 \<le> rsMax s" "int (length (rsLru s)) \<le> rsMax s" using assms by (auto simp: storeInv_def)
  show ?thesis
  proof (cases "map_of (rsIdx s) job")
    case None
    then show ?thesis using assms find_abs [OF c(1), of job] by (auto simp: getLocked_def specGet_def)
  next
    case (Some el)
    have el: "el \<in> set (rsLru s)" "entryID (rsElem s el) = job" using coreInv_idx [OF c(1)] Some by auto
    have len: "length (rsLru (dropElem s el)) \<le> length (rsLru s)" "length (rsLru (moveToFront s el)) = length (rsLru s)"
      using el(1) length_pos_if_in_set [OF el(1)] by (auto simp: dropElem_def moveToFront_def length_remove1)
    have f: "rsMax (dropElem s el) = rsMax s" "rsTTL (dropElem s el) = rsTTL s" "rsMax (moveToFront s el) = rsMax s"
      "rsTTL (moveToFront s el) = rsTTL s" by (simp_all add: dropElem_def moveToFront_def)
    show ?thesis
    proof (cases "live (rsElem s el) now")
      case True
      then have "s' = moveToFront s el" "d = Some (seDoc (rsElem s el))" using assms(2) Some by (auto simp: getLocked_def)
      then show ?thesis using True Some el(2) moveToFront_core [OF c(1) el(1)] c len f
        by (simp add: specGet_def find_abs [OF c(1)] storeInv_def)
    next
      case False
      then have "s' = dropElem s el" "d = None" using assms(2) Some by (auto simp: getLocked_def)
      then show ?thesis using False Some el(2) dropElem_core [OF c(1) el(1)] c len f
        by (simp add: specGet_def find_abs [OF c(1)] storeInv_def)
    qed
  qed
qed

interpretation lru: status_store storeInv storeAbs rsMax rsTTL recordLocked getLocked
proof
  fix s :: resultStore
  show "storeInv s \<Longrightarrow> 0 \<le> rsMax s \<and> int (length (storeAbs s)) \<le> rsMax s \<and> distinct (map entryID (storeAbs s))"
    by (simp add: storeInv_def coreInv_def storeAbs_def)
qed (use recordLocked_spec getLocked_spec in blast)+

text \<open>The stores a process can reach: created at boot, then written by workers and intake and read by callers.\<close>

inductive storeReach :: "int \<Rightarrow> int \<Rightarrow> resultStore \<Rightarrow> bool" where
  boot: "storeReach mx ttl (newResultStore mx ttl)"
| wrote: "storeReach mx ttl s \<Longrightarrow> recordLocked now s doc = Ret s' \<Longrightarrow> storeReach mx ttl s'"
| was_read: "storeReach mx ttl s \<Longrightarrow> getLocked now s job = (s', d) \<Longrightarrow> storeReach mx ttl s'"

lemma storeReach_inv:
  assumes "storeReach mx ttl s" "0 \<le> mx"
  shows "storeInv s \<and> rsMax s = mx \<and> rsTTL s = ttl"
  using assms
proof (induction rule: storeReach.induct)
  case (boot mx ttl)
  then show ?case by (simp add: storeInv_def coreInv_def newResultStore_def storeAbs_def)
next
  case (wrote mx ttl s now doc s')
  then show ?case using recordLocked_spec [of s now doc] by auto
next
  case (was_read mx ttl s now job s' d)
  then show ?case using getLocked_spec [of s now job s' d] by auto
qed

section \<open>Facts about reasons\<close>

lemma HasPrefix_stop: "q \<notin> set p \<Longrightarrow> HasPrefix (xs @ q # ys) p \<longleftrightarrow> HasPrefix xs p"
proof -
  assume q: "q \<notin> set p"
  show ?thesis
  proof (cases "length p \<le> length xs")
    case False
    then have "q \<in> set (take (length p) (xs @ q # ys))" by (cases "length p - length xs") auto
    then have "take (length p) (xs @ q # ys) \<noteq> p" using q by metis
    moreover have "take (length p) xs \<noteq> p" using False by auto
    ultimately show ?thesis by (simp add: HasPrefix_def)
  qed (simp add: HasPrefix_def)
qed

lemma urlStop_scheme: "urlStop q \<Longrightarrow> q \<notin> set ''https://'' \<and> q \<notin> set ''http://''"
  by (auto simp: urlStop_def)

lemma schemeLen_le: "schemeLen s = Some n \<Longrightarrow> n \<le> length s"
  by (auto simp: schemeLen_def HasPrefix_def split: if_splits dest!: arg_cong [where f = length])

lemma matchURL_stop:
  assumes "urlStop q"
  shows "matchURL (xs @ q # ys) = matchURL xs"
proof -
  have n: "schemeLen (xs @ q # ys) = schemeLen xs"
    using urlStop_scheme [OF assms] by (simp only: schemeLen_def HasPrefix_stop simp_thms)
  have t: "takeWhile (\<lambda>c. \<not> urlStop c) (l @ q # ys) = takeWhile (\<lambda>c. \<not> urlStop c) l" for l
    using assms by (induction l) auto
  show ?thesis
  proof (cases "schemeLen xs")
    case (Some k)
    then show ?thesis using schemeLen_le [OF Some] n by (simp add: matchURL_def t Let_def)
  qed (simp add: matchURL_def n)
qed

lemma redact_split:
  assumes "urlStop q"
  shows "redactReason parse (xs @ q # ys) = redactReason parse xs @ q # redactReason parse ys"
proof (induction "length xs" arbitrary: xs rule: less_induct)
  case less
  show ?case
  proof (cases xs)
    case Nil
    have "matchURL (q # ys) = None" using matchURL_stop [OF assms, of "[]" ys] by (simp add: matchURL_def schemeLen_def HasPrefix_def)
    then show ?thesis using Nil by simp
  next
    case (Cons c cs)
    have m: "matchURL (c # cs @ q # ys) = matchURL (c # cs)" using matchURL_stop [OF assms, of "c # cs" ys] by simp
    show ?thesis
    proof (cases "matchURL (c # cs)")
      case None
      then show ?thesis using m less [of cs] Cons by simp
    next
      case (Some u)
      then have u: "0 < length u" "length u \<le> length (c # cs)" using matchURL_length by blast+
      have "drop (length u) (c # cs @ q # ys) = drop (length u) (c # cs) @ q # ys"
        using u(2) by (simp add: drop_append [of _ "c # cs" "q # ys", simplified])
      then show ?thesis using m Some less [of "drop (length u) (c # cs)"] u Cons by simp
    qed
  qed
qed

lemma redact_whole:
  assumes "HasPrefix u ''https://''" "8 < length u" "list_all (\<lambda>c. \<not> urlStop c) u"
  shows "redactReason parse u = fst (Redact parse u)"
proof -
  have d: "takeWhile (\<lambda>c. \<not> urlStop c) (drop 8 u) = drop 8 u"
    using assms(3) by (intro takeWhile_eq_all_conv [THEN iffD2]) (auto simp: list_all_iff dest: in_set_dropD)
  obtain c cs where u: "u = c # cs" using assms(2) by (cases u) auto
  have "drop 8 u \<noteq> []" using assms(2) by simp
  then have "matchURL u = Some u"
    unfolding matchURL_def schemeLen_def if_P [OF assms(1)] option.case Let_def d by simp
  then show ?thesis using u by simp
qed

section \<open>Properties\<close>

text \<open>
  C22. The cache with its pointers implements the list of records: in every state the process can reach, a
  write never panics, leaves at most \<open>max_entries\<close> records with one per job, and writes and reads return
  exactly what the specification without pointers returns.
\<close>

theorem result_store_refines:
  assumes "storeReach mx ttl s" "0 \<le> mx"
  shows "int (length (storeAbs s)) \<le> mx \<and> distinct (map entryID (storeAbs s))
    \<and> (\<exists>s'. recordStatus now (Some s) doc = Ret (Some s') \<and> storeAbs s' = specRecord mx ttl now doc (storeAbs s))
    \<and> (\<exists>s'. getStatus now (Some s) job = (Some s', snd (specGet now job (storeAbs s))) \<and> storeAbs s' = fst (specGet now job (storeAbs s)))"
proof -
  have i: "storeInv s" "rsMax s = mx" "rsTTL s = ttl" using storeReach_inv [OF assms] by auto
  have "int (length (storeAbs s)) \<le> mx \<and> distinct (map entryID (storeAbs s))" using lru.bounded [OF i(1)] i(2) by auto
  moreover have "\<exists>s'. recordStatus now (Some s) doc = Ret (Some s') \<and> storeAbs s' = specRecord mx ttl now doc (storeAbs s)"
    using lru.rcd_spec [OF i(1), of now doc] i(2,3) by (auto simp: recordStatus_def)
  moreover obtain s' d where g: "getLocked now s job = (s', d)" by (cases "getLocked now s job")
  then have "\<exists>s'. getStatus now (Some s) job = (Some s', snd (specGet now job (storeAbs s))) \<and> storeAbs s' = fst (specGet now job (storeAbs s))"
    using lru.look_spec [OF i(1) g] by (auto simp: getStatus_def)
  ultimately show ?thesis by blast
qed

lemma demo_store: "\<exists>s'. recordLocked 5 (newResultStore 1 10) \<lparr>jsJobID = ''a'', jsState = stateQueued, jsResult = None, jsReason = []\<rparr> = Ret s'
    \<and> storeReach 1 10 s' \<and> storeAbs s' = [\<lparr>seDoc = \<lparr>jsJobID = ''a'', jsState = stateQueued, jsResult = None, jsReason = []\<rparr>, seExpires = 15\<rparr>]"
proof -
  let ?d = "\<lparr>jsJobID = ''a'', jsState = stateQueued, jsResult = None, jsReason = []\<rparr>"
  have b: "storeReach 1 10 (newResultStore 1 10)" by (rule boot)
  then have "storeInv (newResultStore 1 10)" using storeReach_inv [of 1 10] by simp
  from recordLocked_spec [OF this, of 5 ?d]
  show ?thesis using wrote [OF b] by (auto simp: specRecord_def newResultStore_def storeAbs_def)
qed

theorem result_store_refines_witness:
  "\<exists>s. storeReach 1 10 s \<and> length (storeAbs s) = 1
     \<and> (\<exists>s'. getStatus 14 (Some s) ''a'' = (Some s', Some \<lparr>jsJobID = ''a'', jsState = stateQueued, jsResult = None, jsReason = []\<rparr>))"
proof -
  obtain s where s: "storeReach 1 10 s"
    "storeAbs s = [\<lparr>seDoc = \<lparr>jsJobID = ''a'', jsState = stateQueued, jsResult = None, jsReason = []\<rparr>, seExpires = 15\<rparr>]"
    using demo_store by blast
  have "\<exists>s'. getStatus 14 (Some s) ''a'' = (Some s', snd (specGet 14 ''a'' (storeAbs s))) \<and> storeAbs s' = fst (specGet 14 ''a'' (storeAbs s))"
    using result_store_refines [OF s(1), of 14 _ "''a''"] by simp
  then show ?thesis using s by (auto simp: specGet_def live_def)
qed

text \<open>
  C23. A job's status never walks back: in every reachable store a write leaves each readable record in place,
  or replaces it by a state of the same job further along the lifecycle, or evicts it, which takes a new job and
  a full store and hits the least recently touched record. A terminal state therefore stands until it expires or
  is evicted. A read returns a document exactly when a readable record of that job is held, and removes none.
\<close>

theorem status_never_walks_back:
  assumes "storeReach mx ttl s" "0 \<le> mx" "e \<in> set (storeAbs s)" "live e now"
    and "recordStatus now (Some s) doc = Ret (Some s')" "getStatus now (Some s) job = (Some s2, d)"
  shows "(e \<in> set (storeAbs s')
      \<or> (jsJobID doc = entryID e \<and> stateRank (jsState (seDoc e)) < stateRank (jsState doc)
          \<and> \<lparr>seDoc = doc, seExpires = now + ttl\<rparr> \<in> set (storeAbs s'))
      \<or> (jsJobID doc \<notin> entryID ` set (storeAbs s) \<and> int (length (storeAbs s)) = mx \<and> e = last (storeAbs s)))
    \<and> e \<in> set (storeAbs s2) \<and> (job = entryID e \<longrightarrow> d = Some (seDoc e))
    \<and> (jsState (seDoc e) \<in> {stateDone, stateDeadLettered} \<longrightarrow> jsJobID doc = entryID e \<longrightarrow> e \<in> set (storeAbs s'))"
proof -
  have i: "storeInv s" "rsMax s = mx" "rsTTL s = ttl" using storeReach_inv [OF assms(1,2)] by auto
  have r: "recordLocked now s doc = Ret s'" using assms(5) by (auto simp: recordStatus_def split: call.splits)
  have g: "getLocked now s job = (s2, d)" using assms(6) by (cases "getLocked now s job") (auto simp: getStatus_def)
  note f = lru.rcd_forward [OF i(1) assms(3,4) r, unfolded i(2,3)]
  have "e \<in> set (storeAbs s2) \<and> (job = entryID e \<longrightarrow> d = Some (seDoc e))"
    using lru.look_reads [OF i(1) g] assms(3,4) by blast
  moreover have top: "stateRank t \<le> 2" for t by (cases t) (simp_all add: stateRank_def)
  have "jsState (seDoc e) \<in> {stateDone, stateDeadLettered} \<longrightarrow> jsJobID doc = entryID e \<longrightarrow> e \<in> set (storeAbs s')"
    using f top [of "jsState doc"] assms(3) by (auto simp: stateRank_def)
  ultimately show ?thesis using f by blast
qed

theorem status_never_walks_back_witness:
  "\<exists>s e s' s2 d. e \<in> set (storeAbs s) \<and> recordStatus 7 (Some s) \<lparr>jsJobID = ''a'', jsState = stateDone, jsResult = None, jsReason = []\<rparr> = Ret (Some s')
     \<and> getStatus 7 (Some s) ''b'' = (Some s2, d) \<and> e \<in> set (storeAbs s2)"
proof -
  let ?d = "\<lparr>jsJobID = ''a'', jsState = stateDone, jsResult = None, jsReason = []\<rparr>"
  let ?e = "\<lparr>seDoc = \<lparr>jsJobID = ''a'', jsState = stateQueued, jsResult = None, jsReason = []\<rparr>, seExpires = 15\<rparr>"
  obtain s where s: "storeReach 1 10 s" "storeAbs s = [?e]" using demo_store by blast
  have i: "storeInv s" using storeReach_inv [OF s(1)] by simp
  obtain s' where r: "recordStatus 7 (Some s) ?d = Ret (Some s')" using recordLocked_spec [OF i, of 7 ?d] by (auto simp: recordStatus_def)
  obtain s2 d where g: "getStatus 7 (Some s) ''b'' = (Some s2, d)" by (cases "getLocked 7 s ''b''") (auto simp: getStatus_def)
  have "?e \<in> set (storeAbs s2) \<and> (''b'' = entryID ?e \<longrightarrow> d = Some (seDoc ?e))"
    using status_never_walks_back [OF s(1) _ _ _ r g, of ?e] by (simp add: s(2) live_def)
  moreover have "?e \<in> set (storeAbs s)" by (simp add: s(2))
  ultimately show ?thesis using r g by blast
qed

text \<open>
  The reason of a dead-lettered job does not disclose the query of a URL quoted in the error: two URLs
  without quote, angle bracket, backslash or blank, equal up to query, fragment and user information, give the same reason.
\<close>

theorem reason_hides_query:
  assumes "urlStop q" "urlStop r" "\<forall>v \<in> {u, u'}. HasPrefix v ''https://'' \<and> 8 < length v \<and> list_all (\<lambda>c. \<not> urlStop c) v"
    and "parse (TrimSpace u) = Inr U" "parse (TrimSpace u') = Inr U'"
    and "U'\<lparr>uRawQuery := [], uForceQuery := False, uFragment := [], uUser := None\<rparr>
      = U\<lparr>uRawQuery := [], uForceQuery := False, uFragment := [], uUser := None\<rparr>"
  shows "deadLetterReason parse (Some (errorf (pre @ q # u @ r # post))) = deadLetterReason parse (Some (errorf (pre @ q # u' @ r # post)))"
proof -
  have "fst (Redact parse u) = fst (Redact parse u')" using assms(4-6) by (simp add: Redact_def Let_def)
  then have "redactReason parse u = redactReason parse u'" using assms(3) redact_whole by auto
  then show ?thesis
    using redact_split [OF assms(1), of parse "''dead-lettered: '' @ pre"] redact_split [OF assms(2), of parse]
    by (simp add: deadLetterReason_def errText_def errorf_def del: redactReason.simps)
qed

definition queryParser :: urlParser where
  "queryParser s = Inr \<lparr>uScheme = ''https'', uOpaque = [], uUser = None, uHost = ''h'', uHostname = ''h'', uPath = ''/p'',
     uOmitHost = False, uForceQuery = False, uRawQuery = drop 12 s, uFragment = []\<rparr>"

theorem reason_hides_query_witness:
  "deadLetterReason queryParser (Some (errorf (''Get '' @ CHR 0x22 # ''https://h/p?sig=1'' @ CHR 0x22 # '': EOF'')))
   = deadLetterReason queryParser (Some (errorf (''Get '' @ CHR 0x22 # ''https://h/p?sig=2'' @ CHR 0x22 # '': EOF'')))"
  by (rule reason_hides_query [OF _ _ _ queryParser_def queryParser_def])
    (simp_all add: urlStop_def HasPrefix_def)

text \<open>
  A legal query character defeats the redaction: the expression that finds URLs stops at an apostrophe,
  so everything a query holds after one is published in the reason, whatever the URL parser does.
\<close>

theorem reason_leaks_after_apostrophe:
  "HasSuffix (deadLetterReason parse (Some (errorf (''https://h/p?n='' @ [CHR 0x27] @ ''&X-Amz-Signature=secret'')))) ''&X-Amz-Signature=secret''"
proof -
  have q: "urlStop (CHR 0x27)" by (simp add: urlStop_def)
  have "redactReason parse ''&X-Amz-Signature=secret'' = ''&X-Amz-Signature=secret''"
    by (simp add: matchURL_def schemeLen_def HasPrefix_def)
  then have "deadLetterReason parse (Some (errorf (''https://h/p?n='' @ [CHR 0x27] @ ''&X-Amz-Signature=secret'')))
    = redactReason parse (''dead-lettered: https://h/p?n='') @ CHR 0x27 # ''&X-Amz-Signature=secret''"
    using redact_split [OF q, of parse "''dead-lettered: https://h/p?n=''" "''&X-Amz-Signature=secret''"]
    by (simp add: deadLetterReason_def errText_def errorf_def del: redactReason.simps)
  then show ?thesis by (simp add: HasSuffix_def HasPrefix_def del: redactReason.simps)
qed

end
