(* ===== verification/Observe.thy ===== *)
theory Observe
  imports Moderation
begin

text \<open>
  Operational state (\<open>internal/observe\<close>): the backpressure tracker and the readiness endpoint of
  \<open>observe.go\<close> and the job tracker of \<open>jobtracker.go\<close>. The clock is an argument of each call; the floating-point
  quotient of two integers is an argument, so the statements hold for any rounding. Metrics and logging are
  left out.
\<close>

section \<open>Backpressure (observe.go)\<close>

record Backpressure =
  bpN :: int
  bpRatePc :: float64
  bpWin :: int
  bpM :: int
  consecErr :: int
  consecOK :: int
  tripped :: bool
  outcomes :: "(int \<times> bool) list"

definition minWindowSamples :: nat where "minWindowSamples = 10"

definition NewBackpressure :: "int \<Rightarrow> float64 \<Rightarrow> int \<Rightarrow> int \<Rightarrow> Backpressure" where
  "NewBackpressure consecutiveErrors errorRatePct window recoverySuccesses =
     \<lparr>bpN = consecutiveErrors, bpRatePc = errorRatePct, bpWin = window, bpM = recoverySuccesses,
      consecErr = 0, consecOK = 0, tripped = False, outcomes = []\<rparr>"

definition prune :: "int \<Rightarrow> Backpressure \<Rightarrow> Backpressure" where
  "prune now b = b\<lparr>outcomes := dropWhile (\<lambda>(ts, ok). \<not> now - bpWin b < ts) (outcomes b)\<rparr>"

text \<open>The argument \<open>fdiv\<close> is \<open>float64(errs)*100/float64(total)\<close> of two counts.\<close>

definition BackpressureRecord :: "(nat \<Rightarrow> nat \<Rightarrow> float64) \<Rightarrow> int \<Rightarrow> bool \<Rightarrow> Backpressure \<Rightarrow> Backpressure" where
  "BackpressureRecord fdiv now success b0 =
     (let b = prune now (b0\<lparr>outcomes := outcomes b0 @ [(now, success)]\<rparr>) in
      if success then
        (let b1 = b\<lparr>consecOK := consecOK b + 1, consecErr := 0\<rparr> in
         if tripped b1 \<and> consecOK b1 \<ge> bpM b1 then b1\<lparr>tripped := False, outcomes := []\<rparr> else b1)
      else
        (let b1 = b\<lparr>consecErr := consecErr b + 1, consecOK := 0\<rparr> in
         if consecErr b1 \<ge> bpN b1 then b1\<lparr>tripped := True\<rparr>
         else (let total = length (outcomes b1); errs = length (filter (\<lambda>(ts, ok). \<not> ok) (outcomes b1)) in
           if total \<ge> minWindowSamples \<and> f64_le (bpRatePc b1) (fdiv errs total) then b1\<lparr>tripped := True\<rparr> else b1)))"

definition Ready :: "Backpressure \<Rightarrow> bool" where
  "Ready b \<longleftrightarrow> \<not> tripped b"

section \<open>Readiness (observe.go)\<close>

text \<open>A probe is given by the error it returns when called.\<close>

record Health =
  hBp :: "Backpressure option"
  hProbes :: "(string \<times> goerr option) list"
  hWarnings :: "string list"

definition NewHealth :: "Backpressure option \<Rightarrow> Health" where
  "NewHealth bp = \<lparr>hBp = bp, hProbes = [], hWarnings = []\<rparr>"

definition AddProbe :: "Health \<Rightarrow> string \<Rightarrow> goerr option \<Rightarrow> Health" where
  "AddProbe h name probe = h\<lparr>hProbes := AList.update name probe (hProbes h)\<rparr>"

definition AddWarning :: "Health \<Rightarrow> string \<Rightarrow> Health" where
  "AddWarning h w = h\<lparr>hWarnings := hWarnings h @ [w]\<rparr>"

definition Healthz :: "int \<times> string list" where
  "Healthz = (200, [''ok''])"

definition readyFailures :: "Health \<Rightarrow> string list" where
  "readyFailures h =
     List.map_filter (\<lambda>(name, r). map_option (\<lambda>e. name @ '': '' @ emsg e) r) (hProbes h)
     @ (case hBp h of
          Some b \<Rightarrow> if Ready b then [] else [''backpressure: sustained provider failure; intake paused (retry later)'']
        | None \<Rightarrow> [])"

definition Readyz :: "Health \<Rightarrow> int \<times> string list" where
  "Readyz h =
     (let failures = readyFailures h in
      if failures \<noteq> [] then (503, map (\<lambda>f. ''not ready: '' @ f) failures)
      else (200, ''ready'' # map (\<lambda>w. ''warning: '' @ w) (hWarnings h)))"

section \<open>Finished jobs (jobtracker.go)\<close>

record JobRecord =
  jrID :: string
  jrRef :: string
  jrMediaType :: string
  jrVerdict :: string
  jrTopCategory :: string
  jrMaxScore :: "float64 option"
  jrConfidence :: "float64 option"
  FramesScanned :: int
  FramesFlagged :: int
  jrFinishedAt :: int
  DurationMS :: int

record JobTracker =
  jtRing :: "JobRecord list"
  jtMax :: int
  jtCounts :: "(string \<times> int) list"
  jtTotal :: int
  totalFrames :: int
  videoJobs :: int
  videoFrames :: int
  flaggedVideos :: int
  flaggedVideoFrames :: int
  singleFrameFlags :: int

definition NewJobTracker :: "int \<Rightarrow> JobTracker" where
  "NewJobTracker mx =
     \<lparr>jtRing = [], jtMax = (if mx \<le> 0 then 200 else mx), jtCounts = [], jtTotal = 0, totalFrames = 0, videoJobs = 0,
      videoFrames = 0, flaggedVideos = 0, flaggedVideoFrames = 0, singleFrameFlags = 0\<rparr>"

definition countOf :: "(string \<times> int) list \<Rightarrow> string \<Rightarrow> int" where
  "countOf cs v = (case map_of cs v of None \<Rightarrow> 0 | Some n \<Rightarrow> n)"

definition TrackerRecord :: "JobTracker \<Rightarrow> JobRecord \<Rightarrow> JobTracker" where
  "TrackerRecord t r =
     (let t1 = t\<lparr>jtTotal := jtTotal t + 1, jtCounts := AList.update (jrVerdict r) (countOf (jtCounts t) (jrVerdict r) + 1) (jtCounts t),
                 totalFrames := totalFrames t + FramesScanned r\<rparr>;
          t2 = (if jrMediaType r = ''video'' then
                  (let t3 = t1\<lparr>videoJobs := videoJobs t1 + 1, videoFrames := videoFrames t1 + FramesScanned r\<rparr> in
                   if jrVerdict r = ''flag'' \<or> jrVerdict r = ''block'' then
                     t3\<lparr>flaggedVideos := flaggedVideos t3 + 1, flaggedVideoFrames := flaggedVideoFrames t3 + FramesFlagged r,
                        singleFrameFlags := (if FramesFlagged r = 1 then singleFrameFlags t3 + 1 else singleFrameFlags t3)\<rparr>
                   else t3)
                else t1);
          ring = jtRing t2 @ [r]
      in t2\<lparr>jtRing := (if int (length ring) > jtMax t2 then drop (length ring - nat (jtMax t2)) ring else ring)\<rparr>)"

record VerdictStats =
  vsTotal :: int
  vsEvaluated :: int
  vsCounts :: "(string \<times> int) list"
  vsFlagRate :: float64
  vsBlockRate :: float64
  vsErrorRate :: float64

text \<open>The argument \<open>quot\<close> is \<open>float64(a)/float64(b)\<close>.\<close>

definition Snapshot :: "(int \<Rightarrow> int \<Rightarrow> float64) \<Rightarrow> JobTracker \<Rightarrow> JobRecord list \<times> VerdictStats" where
  "Snapshot quot t =
     (let c = countOf (jtCounts t); ev = c ''allow'' + c ''flag'' + c ''block'' in
      (rev (jtRing t),
       \<lparr>vsTotal = jtTotal t, vsEvaluated = ev, vsCounts = jtCounts t,
        vsFlagRate = (if ev > 0 then quot (c ''flag'' + c ''block'') ev else Fin 0),
        vsBlockRate = (if ev > 0 then quot (c ''block'') ev else Fin 0),
        vsErrorRate = (if jtTotal t > 0 then quot (c ''error'') (jtTotal t) else Fin 0)\<rparr>))"

record FrameStats =
  fsTotalFrames :: int
  fsVideoJobs :: int
  fsVideoFrames :: int
  AvgFramesPerVideo :: float64
  fsFlaggedVideos :: int
  AvgFlaggedFramesPerFlagged :: float64
  SingleFrameFlagVideos :: int

definition FrameSnapshot :: "(int \<Rightarrow> int \<Rightarrow> float64) \<Rightarrow> JobTracker \<Rightarrow> FrameStats" where
  "FrameSnapshot quot t =
     \<lparr>fsTotalFrames = totalFrames t, fsVideoJobs = videoJobs t, fsVideoFrames = videoFrames t,
      AvgFramesPerVideo = (if videoJobs t > 0 then quot (videoFrames t) (videoJobs t) else Fin 0),
      fsFlaggedVideos = flaggedVideos t,
      AvgFlaggedFramesPerFlagged = (if flaggedVideos t > 0 then quot (flaggedVideoFrames t) (flaggedVideos t) else Fin 0),
      SingleFrameFlagVideos = singleFrameFlags t\<rparr>"

section \<open>Facts about backpressure\<close>

text \<open>A history of outcomes, oldest first, each with the time it was recorded.\<close>

definition bpRun :: "(nat \<Rightarrow> nat \<Rightarrow> float64) \<Rightarrow> Backpressure \<Rightarrow> (int \<times> bool) list \<Rightarrow> Backpressure" where
  "bpRun fdiv b h = foldl (\<lambda>b (t, ok). BackpressureRecord fdiv t ok b) b h"

definition trailing :: "bool \<Rightarrow> (int \<times> bool) list \<Rightarrow> nat" where
  "trailing v h = length (takeWhile (\<lambda>(t, ok). ok = v) (rev h))"

lemma bpRun_snoc: "bpRun fdiv b (h @ [(t, ok)]) = BackpressureRecord fdiv t ok (bpRun fdiv b h)"
  by (simp add: bpRun_def)

lemma trailing_snoc [simp]:
  "trailing v [] = 0"
  "trailing v (h @ [(t, ok)]) = (if ok = v then Suc (trailing v h) else 0)"
  by (simp_all add: trailing_def)

lemma BackpressureRecord_fields:
  "bpN (BackpressureRecord fdiv t ok b) = bpN b" "bpM (BackpressureRecord fdiv t ok b) = bpM b"
  "bpWin (BackpressureRecord fdiv t ok b) = bpWin b" "bpRatePc (BackpressureRecord fdiv t ok b) = bpRatePc b"
  "consecErr (BackpressureRecord fdiv t ok b) = (if ok then 0 else consecErr b + 1)"
  "consecOK (BackpressureRecord fdiv t ok b) = (if ok then consecOK b + 1 else 0)"
  by (simp_all add: BackpressureRecord_def prune_def Let_def)

lemma bpRun_fields: "bpN (bpRun fdiv b h) = bpN b" "bpM (bpRun fdiv b h) = bpM b"
  by (induction h rule: rev_induct) (auto simp: bpRun_def BackpressureRecord_fields)

lemma bpRun_counters:
  "consecErr (bpRun fdiv (NewBackpressure n r w m) h) = int (trailing False h)"
  "consecOK (bpRun fdiv (NewBackpressure n r w m) h) = int (trailing True h)"
proof (induction h rule: rev_induct)
  case Nil
  { case 1 show ?case by (simp add: bpRun_def NewBackpressure_def) }
  { case 2 show ?case by (simp add: bpRun_def NewBackpressure_def) }
next
  case (snoc x h)
  obtain t ok where x: "x = (t, ok)" by force
  { case 1 show ?case using snoc by (simp add: x bpRun_snoc BackpressureRecord_fields) }
  { case 2 show ?case using snoc by (simp add: x bpRun_snoc BackpressureRecord_fields) }
qed

lemma BackpressureRecord_tripped:
  "tripped (BackpressureRecord fdiv t ok b) \<longleftrightarrow>
     (if ok then tripped b \<and> consecOK b + 1 < bpM b
      else tripped b \<or> consecErr b + 1 \<ge> bpN b
        \<or> (let os = outcomes (prune t (b\<lparr>outcomes := outcomes b @ [(t, ok)]\<rparr>)) in
            minWindowSamples \<le> length os \<and> f64_le (bpRatePc b) (fdiv (length (filter (\<lambda>(ts, ok). \<not> ok) os)) (length os))))"
  by (auto simp: BackpressureRecord_def prune_def Let_def)

text \<open>The outcomes a failure at time \<open>t\<close> is judged with, and the rule on their error rate.\<close>

definition windowAt :: "int \<Rightarrow> Backpressure \<Rightarrow> (int \<times> bool) list" where
  "windowAt t b = outcomes (prune t (b\<lparr>outcomes := outcomes b @ [(t, False)]\<rparr>))"

definition rateExceeded :: "(nat \<Rightarrow> nat \<Rightarrow> float64) \<Rightarrow> float64 \<Rightarrow> (int \<times> bool) list \<Rightarrow> bool" where
  "rateExceeded fdiv r os \<longleftrightarrow>
     minWindowSamples \<le> length os \<and> f64_le r (fdiv (length (filter (\<lambda>(ts, ok). \<not> ok) os)) (length os))"

lemma NewBackpressure_fields [simp]:
  "bpN (NewBackpressure n r w m) = n" "bpM (NewBackpressure n r w m) = m" "bpRatePc (NewBackpressure n r w m) = r"
  "bpWin (NewBackpressure n r w m) = w" "\<not> tripped (NewBackpressure n r w m)"
  by (simp_all add: NewBackpressure_def)

lemma bpRun_rate: "bpRatePc (bpRun fdiv b h) = bpRatePc b"
  by (induction h rule: rev_induct) (auto simp: bpRun_def BackpressureRecord_fields)

section \<open>Facts about the tracker\<close>

definition trackAll :: "int \<Rightarrow> JobRecord list \<Rightarrow> JobTracker" where
  "trackAll mx rs = foldl TrackerRecord (NewJobTracker mx) rs"

lemma trackAll_snoc: "trackAll mx (rs @ [r]) = TrackerRecord (trackAll mx rs) r"
  by (simp add: trackAll_def)

lemma TrackerRecord_fields:
  "jtMax (TrackerRecord t r) = jtMax t" "jtTotal (TrackerRecord t r) = jtTotal t + 1"
  "countOf (jtCounts (TrackerRecord t r)) v = countOf (jtCounts t) v + (if jrVerdict r = v then 1 else 0)"
  "totalFrames (TrackerRecord t r) = totalFrames t + FramesScanned r"
  "jtRing (TrackerRecord t r) = (let ring = jtRing t @ [r] in
     if int (length ring) > jtMax t then drop (length ring - nat (jtMax t)) ring else ring)"
  by (simp_all add: TrackerRecord_def Let_def countOf_def update_conv')

definition isFlaggedVideo :: "JobRecord \<Rightarrow> bool" where
  "isFlaggedVideo r \<longleftrightarrow> jrMediaType r = ''video'' \<and> (jrVerdict r = ''flag'' \<or> jrVerdict r = ''block'')"

lemma TrackerRecord_videos:
  "videoJobs (TrackerRecord t r) = videoJobs t + (if jrMediaType r = ''video'' then 1 else 0)"
  "videoFrames (TrackerRecord t r) = videoFrames t + (if jrMediaType r = ''video'' then FramesScanned r else 0)"
  "flaggedVideos (TrackerRecord t r) = flaggedVideos t + (if isFlaggedVideo r then 1 else 0)"
  "singleFrameFlags (TrackerRecord t r) = singleFrameFlags t + (if isFlaggedVideo r \<and> FramesFlagged r = 1 then 1 else 0)"
  by (simp_all add: TrackerRecord_def Let_def isFlaggedVideo_def)

lemma trackAll_max: "jtMax (trackAll mx rs) = (if mx \<le> 0 then 200 else mx)"
  by (induction rs rule: rev_induct) (simp_all add: trackAll_snoc TrackerRecord_fields, simp add: trackAll_def NewJobTracker_def)

lemma trackAll_ring: "rev (jtRing (trackAll mx rs)) = take (nat (jtMax (trackAll mx []))) (rev rs)"
proof (induction rs rule: rev_induct)
  case Nil
  then show ?case by (simp add: trackAll_def NewJobTracker_def)
next
  case (snoc r rs)
  define m where "m = nat (jtMax (trackAll mx []))"
  have mx: "jtMax (trackAll mx rs) = int m" "0 < m" using trackAll_max [of mx rs] trackAll_max [of mx "[]"] by (auto simp: m_def)
  have IH: "jtRing (trackAll mx rs) = rev (take m (rev rs))" using snoc by (simp add: m_def rev_swap)
  have "rev (jtRing (trackAll mx (rs @ [r]))) = take m (r # rev rs)"
  proof (cases "length rs < m")
    case True
    then show ?thesis using mx IH by (simp add: trackAll_snoc TrackerRecord_fields Let_def take_Cons')
  next
    case False
    then have "length (jtRing (trackAll mx rs)) = m" using IH by simp
    then have "jtRing (trackAll mx (rs @ [r])) = tl (jtRing (trackAll mx rs)) @ [r]"
      using mx by (simp add: trackAll_snoc TrackerRecord_fields Let_def drop_Suc)
    moreover have "rev (tl (rev (take m (rev rs)))) = take (m - 1) (rev rs)"
      using False mx(2) by (simp add: butlast_rev [symmetric] butlast_take)
    ultimately show ?thesis using IH mx(2) by (simp add: take_Cons')
  qed
  then show ?case by (simp add: m_def)
qed

lemma tracker_facts:
  "fst (Snapshot quot (trackAll mx rs)) = take (nat (if mx \<le> 0 then 200 else mx)) (rev rs)"
  "vsTotal (snd (Snapshot quot (trackAll mx rs))) = int (length rs)"
  "countOf (vsCounts (snd (Snapshot quot (trackAll mx rs)))) v = int (length (filter (\<lambda>r. jrVerdict r = v) rs))"
  "fsTotalFrames (FrameSnapshot quot (trackAll mx rs)) = sum_list (map FramesScanned rs)"
  "fsVideoJobs (FrameSnapshot quot (trackAll mx rs)) = int (length (filter (\<lambda>r. jrMediaType r = ''video'') rs))"
  "fsFlaggedVideos (FrameSnapshot quot (trackAll mx rs)) = int (length (filter isFlaggedVideo rs))"
  "SingleFrameFlagVideos (FrameSnapshot quot (trackAll mx rs)) = int (length (filter (\<lambda>r. isFlaggedVideo r \<and> FramesFlagged r = 1) rs))"
proof -
  have z: "trackAll mx [] = NewJobTracker mx" by (simp add: trackAll_def)
  show "fst (Snapshot quot (trackAll mx rs)) = take (nat (if mx \<le> 0 then 200 else mx)) (rev rs)"
    using trackAll_ring [of mx rs] trackAll_max [of mx "[]"] by (simp add: Snapshot_def Let_def)
  show "vsTotal (snd (Snapshot quot (trackAll mx rs))) = int (length rs)"
    by (induction rs rule: rev_induct) (auto simp: Snapshot_def Let_def trackAll_snoc TrackerRecord_fields z NewJobTracker_def)
  show "countOf (vsCounts (snd (Snapshot quot (trackAll mx rs)))) v = int (length (filter (\<lambda>r. jrVerdict r = v) rs))"
    by (induction rs rule: rev_induct)
      (auto simp: Snapshot_def Let_def trackAll_snoc TrackerRecord_fields z NewJobTracker_def, simp add: countOf_def)
  show "fsTotalFrames (FrameSnapshot quot (trackAll mx rs)) = sum_list (map FramesScanned rs)"
    by (induction rs rule: rev_induct) (auto simp: FrameSnapshot_def trackAll_snoc TrackerRecord_fields z NewJobTracker_def)
  show "fsVideoJobs (FrameSnapshot quot (trackAll mx rs)) = int (length (filter (\<lambda>r. jrMediaType r = ''video'') rs))"
    by (induction rs rule: rev_induct) (auto simp: FrameSnapshot_def trackAll_snoc TrackerRecord_videos z NewJobTracker_def)
  show "fsFlaggedVideos (FrameSnapshot quot (trackAll mx rs)) = int (length (filter isFlaggedVideo rs))"
    by (induction rs rule: rev_induct) (auto simp: FrameSnapshot_def trackAll_snoc TrackerRecord_videos z NewJobTracker_def)
  show "SingleFrameFlagVideos (FrameSnapshot quot (trackAll mx rs)) = int (length (filter (\<lambda>r. isFlaggedVideo r \<and> FramesFlagged r = 1) rs))"
    by (induction rs rule: rev_induct) (auto simp: FrameSnapshot_def trackAll_snoc TrackerRecord_videos z NewJobTracker_def)
qed

section \<open>Properties\<close>

text \<open>
  Backpressure is a switch with hysteresis over the history of outcomes: a success makes the service ready
  exactly when it already was or the last \<open>recovery_successes\<close> outcomes were successes; a failure makes it not
  ready exactly when it already was not, or the last \<open>consecutive_errors\<close> outcomes were failures, or the window
  holds enough samples at or above the error rate.
\<close>

theorem backpressure_hysteresis:
  "(Ready (bpRun fdiv (NewBackpressure n r w m) (h @ [(t, True)])) \<longleftrightarrow>
      Ready (bpRun fdiv (NewBackpressure n r w m) h) \<or> m \<le> int (trailing True h) + 1)
   \<and> (tripped (bpRun fdiv (NewBackpressure n r w m) (h @ [(t, False)])) \<longleftrightarrow>
      tripped (bpRun fdiv (NewBackpressure n r w m) h) \<or> n \<le> int (trailing False h) + 1
      \<or> rateExceeded fdiv r (windowAt t (bpRun fdiv (NewBackpressure n r w m) h)))"
  by (auto simp: bpRun_snoc Ready_def BackpressureRecord_tripped bpRun_counters bpRun_fields bpRun_rate
      rateExceeded_def windowAt_def Let_def)

text \<open>
  The operator surface reports exactly what finished: after any series of jobs the totals, the count of each
  verdict and the frame counters are those of the series, and the recent list is its last jobs, newest first,
  cut to the configured length.
\<close>

theorem tracker_exact:
  "fst (Snapshot quot (trackAll mx rs)) = take (nat (if mx \<le> 0 then 200 else mx)) (rev rs)
   \<and> vsTotal (snd (Snapshot quot (trackAll mx rs))) = int (length rs)
   \<and> countOf (vsCounts (snd (Snapshot quot (trackAll mx rs)))) v = int (length (filter (\<lambda>r. jrVerdict r = v) rs))
   \<and> fsTotalFrames (FrameSnapshot quot (trackAll mx rs)) = sum_list (map FramesScanned rs)
   \<and> fsVideoJobs (FrameSnapshot quot (trackAll mx rs)) = int (length (filter (\<lambda>r. jrMediaType r = ''video'') rs))
   \<and> fsFlaggedVideos (FrameSnapshot quot (trackAll mx rs)) = int (length (filter isFlaggedVideo rs))
   \<and> SingleFrameFlagVideos (FrameSnapshot quot (trackAll mx rs)) = int (length (filter (\<lambda>r. isFlaggedVideo r \<and> FramesFlagged r = 1) rs))"
  by (intro conjI tracker_facts)

end
