(* ===== verification/Intake.thy ===== *)
theory Intake
  imports Wiring JobStore Observe
begin

text \<open>
  The HTTP surface of \<open>internal/cli/serve.go\<close> and \<open>internal/cli/resultapi.go\<close>: the intake \<open>POST /jobs\<close> with its
  checks in their order, and the optional read side (\<open>GET /jobs/{id}\<close>, \<open>POST /jobs/status\<close>) behind basic
  authentication. The JSON decoder, the absolute path of a file, \<open>url.Parse\<close>, the clock and the queue behind
  the interface are arguments.
\<close>

section \<open>Requests and responses\<close>

datatype RspBody = TextBody string | JobIDBody JobID | StatusBody jobStatus | BatchBody "jobStatus list"

record HttpResponse =
  rspStatus :: int
  rspRetryAfter :: "string option"
  rspAuthenticate :: "string option"
  rspBody :: RspBody

definition httpErrorText :: "string \<Rightarrow> int \<Rightarrow> HttpResponse" where
  "httpErrorText msg code = \<lparr>rspStatus = code, rspRetryAfter = None, rspAuthenticate = None, rspBody = TextBody msg\<rparr>"

definition retryLater :: "string \<Rightarrow> HttpResponse" where
  "retryLater msg = (httpErrorText msg 503)\<lparr>rspRetryAfter := Some ''30''\<rparr>"

definition writeJSON :: "int \<Rightarrow> RspBody \<Rightarrow> HttpResponse" where
  "writeJSON code b = \<lparr>rspStatus = code, rspRetryAfter = None, rspAuthenticate = None, rspBody = b\<rparr>"

section \<open>Media types (scan.go)\<close>

definition filepathExt :: "string \<Rightarrow> string" where
  "filepathExt path =
     (let base = takeWhile (\<lambda>c. c \<noteq> CHR ''/'') (rev path) in
      if CHR ''.'' \<in> set base then CHR ''.'' # rev (takeWhile (\<lambda>c. c \<noteq> CHR ''.'') base) else [])"

definition videoExts :: "string list" where
  "videoExts = [''.mp4'', ''.mov'', ''.mkv'', ''.webm'', ''.avi'', ''.m4v'', ''.mpg'', ''.mpeg'', ''.ts'']"

definition mediaTypeFor :: "string \<Rightarrow> string" where
  "mediaTypeFor path = (if ToLower (filepathExt path) \<in> set videoExts then ''video'' else ''image'')"

section \<open>Intake (serve.go)\<close>

record intakeRequest =
  irKind :: string
  irRef :: string
  irMediaType :: string
  irWorkflows :: "string list"
  irDedupThreshold :: "int option"
  irMetadata :: string

text \<open>The operator switch.\<close>

type_synonym intakeSwitch = bool

definition PauseIntake :: "intakeSwitch \<Rightarrow> intakeSwitch" where "PauseIntake s = True"
definition ResumeIntake :: "intakeSwitch \<Rightarrow> intakeSwitch" where "ResumeIntake s = False"
definition IntakePaused :: "intakeSwitch \<Rightarrow> bool" where "IntakePaused s = s"

text \<open>What a request meets outside the package; the clock is read up to three times.\<close>

record IntakeWorld =
  iwDecode :: "string \<Rightarrow> intakeRequest res"
  iwParse :: urlParser
  iwAbs :: "string \<Rightarrow> string res"
  iwClock :: "nat \<Rightarrow> int"

definition hostSet :: "string list \<Rightarrow> string list" where
  "hostSet hosts = map (\<lambda>h. ToLower (TrimSpace h)) hosts"

definition validateURLIntake :: "urlParser \<Rightarrow> Config \<Rightarrow> string \<Rightarrow> goerr option" where
  "validateURLIntake parse cfg rawRef =
     (case ValidateURL parse rawRef (hostSet (fAllowHosts (cSourceURL cfg))) (hostSet (fAllowPrivateHosts (cSourceURL cfg))) of
        Inl e \<Rightarrow> Some e | Inr u \<Rightarrow> None)"

definition badRequest :: "string \<Rightarrow> HttpResponse" where
  "badRequest msg = httpErrorText (''bad request: '' @ msg) 400"

definition checkKind :: "IntakeWorld \<Rightarrow> Config \<Rightarrow> intakeRequest \<Rightarrow> HttpResponse option" where
  "checkKind w cfg req =
     (if irKind req = ''file'' then None
      else if irKind req = ''url'' then
        (case validateURLIntake (iwParse w) cfg (irRef req) of Some e \<Rightarrow> Some (badRequest (emsg e)) | None \<Rightarrow> None)
      else Some (badRequest (''kind must be '' @ quoted ''file'' @ '' or '' @ quoted ''url'')))"

definition inferMediaType :: "IntakeWorld \<Rightarrow> intakeRequest \<Rightarrow> string" where
  "inferMediaType w req =
     (if irMediaType req = [] then
        mediaTypeFor (if irKind req = ''url'' then fst (Redact (iwParse w) (irRef req)) else irRef req)
      else irMediaType req)"

text \<open>The job of a request, or the response that refuses it.\<close>

definition jobFromRequest :: "IntakeWorld \<Rightarrow> Config \<Rightarrow> intakeRequest \<Rightarrow> HttpResponse + Job" where
  "jobFromRequest w cfg req =
     (if irRef req = [] then
        Inl (badRequest (''ref is required '' @ emDash @ '' {'' @ quoted ''kind'' @ '':'' @ quoted ''file|url'' @ '','' @ quoted ''ref'' @ '':''
          @ quoted ''<abs path|https url>'' @ '','' @ quoted ''media_type'' @ '':'' @ quoted ''image|video'' @ '','' @ quoted ''workflows''
          @ '':['' @ quoted ''name'' @ '',...]} (workflows optional)''))
      else case checkKind w cfg req of
          Some r \<Rightarrow> Inl r
        | None \<Rightarrow>
            (case validateWorkflowSelection cfg (irWorkflows req) of
               Some e \<Rightarrow> Inl (badRequest (emsg e))
             | None \<Rightarrow>
                 (case validateDedupThreshold (irDedupThreshold req) (HammingThreshold (fcDedup (cFrames cfg))) of
                    Some e \<Rightarrow> Inl (badRequest (emsg e))
                  | None \<Rightarrow>
                      (case ValidateMetadata (irMetadata req) of
                         Inl e \<Rightarrow> Inl (badRequest (emsg e))
                       | Inr meta \<Rightarrow>
                           (case (if irKind req = ''file'' then iwAbs w (irRef req) else Inr (irRef req)) of
                              Inl e \<Rightarrow> Inl (httpErrorText ''bad path'' 400)
                            | Inr ref \<Rightarrow>
                                Inr \<lparr>jID = ''job-'' @ show_int (iwClock w 0),
                                     jSource = \<lparr>Kind = irKind req, Ref = ref, RefDigest = [], srcMediaType = inferMediaType w req\<rparr>,
                                     Workflows = irWorkflows req, DedupThreshold = irDedupThreshold req,
                                     jMetadata = meta, SubmittedAt = iwClock w 1\<rparr>)))))"

text \<open>The state the handler works on; a nil switch is \<open>None\<close>, the queue is any driver.\<close>

record 'q IntakeState =
  isBp :: Backpressure
  isSwitch :: "intakeSwitch option"
  isQueue :: 'q
  isResults :: "resultStore option"

text \<open>The rejections are told apart by identity with the sentinels of the queue.\<close>

definition enqueueResponse :: "goerr \<Rightarrow> HttpResponse" where
  "enqueueResponse e =
     (if e = errDeadLetterFull \<or> e = errQueueFull then retryLater (emsg e)
      else if e = errQueueClosed then httpErrorText (emsg e) 503
      else httpErrorText (emsg e) 500)"

definition postJobs ::
  "('q \<Rightarrow> Job \<Rightarrow> 'q \<times> JobID res) \<Rightarrow> Config \<Rightarrow> IntakeWorld \<Rightarrow> string \<Rightarrow> 'q IntakeState \<Rightarrow> ('q IntakeState \<times> HttpResponse) call" where
  "postJobs enq cfg w body st =
     (if \<not> Ready (isBp st) then Ret (st, retryLater ''intake paused: sustained provider failure (backpressure)'')
      else if (case isSwitch st of None \<Rightarrow> False | Some s \<Rightarrow> IntakePaused s) then Ret (st, retryLater ''intake paused by operator'')
      else case iwDecode w body of
          Inl e \<Rightarrow> Ret (st, badRequest (emsg e))
        | Inr req \<Rightarrow>
            (case jobFromRequest w cfg req of
               Inl r \<Rightarrow> Ret (st, r)
             | Inr j \<Rightarrow>
                 (case enq (isQueue st) j of
                    (q', Inl e) \<Rightarrow> Ret (st\<lparr>isQueue := q'\<rparr>, enqueueResponse e)
                  | (q', Inr job) \<Rightarrow>
                      (case recordStatus (iwClock w 2) (isResults st) \<lparr>jsJobID = job, jsState = stateQueued, jsResult = None, jsReason = []\<rparr> of
                         Panicked m \<Rightarrow> Panicked m
                       | Ret rs \<Rightarrow> Ret (st\<lparr>isQueue := q', isResults := rs\<rparr>, writeJSON 202 (JobIDBody job))))))"

section \<open>The read side (resultapi.go)\<close>

definition maxBatchIDs :: nat where "maxBatchIDs = 1000"

record resultAPI =
  apiCfg :: ResultAPIConfig
  apiUser :: string
  apiPass :: string

definition newResultAPI :: "(string \<Rightarrow> string) \<Rightarrow> ResultAPIConfig \<Rightarrow> resultAPI" where
  "newResultAPI getenv cfg =
     \<lparr>apiCfg = cfg, apiUser = Secret getenv ''result_api.user'', apiPass = Secret getenv ''result_api.password''\<rparr>"

text \<open>The credentials of a request are what \<open>BasicAuth\<close> finds. A constant-time comparison is equality.\<close>

definition authDenied :: "resultAPI \<Rightarrow> (string \<times> string) option \<Rightarrow> HttpResponse option" where
  "authDenied a creds =
     (if raAuth (apiCfg a) = AuthModeNone then None
      else if apiUser a = [] \<or> apiPass a = [] then
        Some (httpErrorText (''result api auth is 'basic' but '' @ EnvPrefix @ ''_RESULT_API_USER/'' @ EnvPrefix
          @ ''_RESULT_API_PASSWORD are not set'') 503)
      else if creds \<noteq> Some (apiUser a, apiPass a) then
        Some ((httpErrorText ''unauthorized'' 401)\<lparr>rspAuthenticate := Some (''Basic realm='' @ quoted ''vismod'')\<rparr>)
      else None)"

definition getJob :: "int \<Rightarrow> resultStore option \<Rightarrow> JobID \<Rightarrow> resultStore option \<times> HttpResponse" where
  "getJob t store job =
     (case getStatus t store job of
        (s', None) \<Rightarrow> (s', httpErrorText ''404 page not found'' 404)
      | (s', Some doc) \<Rightarrow> (s', writeJSON 200 (StatusBody doc)))"

text \<open>The batch loop; the clock moves while it runs.\<close>

fun batchLoop :: "(nat \<Rightarrow> int) \<Rightarrow> nat \<Rightarrow> resultStore option \<Rightarrow> JobID list \<Rightarrow> resultStore option \<times> jobStatus list" where
  "batchLoop clock k store [] = (store, [])"
| "batchLoop clock k store (job # jobs) =
     (let (s1, d) = getStatus (clock k) store job;
          doc = (case d of Some x \<Rightarrow> x | None \<Rightarrow> \<lparr>jsJobID = job, jsState = stateNotFound, jsResult = None, jsReason = []\<rparr>);
          (s2, docs) = batchLoop clock (k + 1) s1 jobs
      in (s2, doc # docs))"

definition batchStatus :: "(string \<Rightarrow> JobID list res) \<Rightarrow> (nat \<Rightarrow> int) \<Rightarrow> resultStore option \<Rightarrow> string \<Rightarrow> resultStore option \<times> HttpResponse" where
  "batchStatus decode clock store body =
     (case decode body of
        Inl e \<Rightarrow> (store, badRequest (emsg e))
      | Inr jobs \<Rightarrow>
          if jobs = [] then (store, badRequest (''job_ids is required '' @ emDash @ '' {'' @ quoted ''job_ids'' @ '':['' @ quoted ''job-1'' @ '',...]}''))
          else if length jobs > maxBatchIDs then (store, badRequest (''at most '' @ show_nat maxBatchIDs @ '' job_ids per request''))
          else (let (s', docs) = batchLoop clock 0 store jobs in (s', writeJSON 200 (BatchBody docs))))"

datatype ReadRoute = GetJobRoute JobID | BatchRoute string

text \<open>A request to a read route, on the routes that are registered: with the API off both answer 404.\<close>

definition readSide ::
  "(string \<Rightarrow> string) \<Rightarrow> ResultAPIConfig \<Rightarrow> (string \<Rightarrow> JobID list res) \<Rightarrow> (nat \<Rightarrow> int) \<Rightarrow> resultStore option \<Rightarrow>
   (string \<times> string) option \<Rightarrow> ReadRoute \<Rightarrow> resultStore option \<times> HttpResponse" where
  "readSide getenv cfg decode clock store creds route =
     (if \<not> raEnabled cfg \<or> store = None then (store, httpErrorText ''404 page not found'' 404)
      else case authDenied (newResultAPI getenv cfg) creds of
          Some r \<Rightarrow> (store, r)
        | None \<Rightarrow>
            (case route of
               GetJobRoute job \<Rightarrow> getJob (clock 0) store job
             | BatchRoute body \<Rightarrow> batchStatus decode clock store body))"

section \<open>Facts about intake\<close>

lemma hostSet_lowerSet: "hostSet hs = lowerSet hs"
  by (simp add: hostSet_def lowerSet_def)

lemma newFetcher_rules: "fhosts (newFetcher cfg) = \<lparr>hrAllow = lowerSet (fAllowHosts (cSourceURL cfg)), hrPrivate = lowerSet (fAllowPrivateHosts (cSourceURL cfg))\<rparr>"
  "allowScheme (newFetcher cfg) = []"
  by (simp_all add: newFetcher_def NewFetcher_def Let_def)

text \<open>The rules intake applies to a URL are those of the fetcher the worker runs.\<close>

lemma intake_url_rules:
  "validateURLIntake parse cfg ref = None \<longleftrightarrow> (\<exists>u. validateURL parse ref (fhosts (newFetcher cfg)) (allowScheme (newFetcher cfg)) = Inr u)"
  by (auto simp: validateURLIntake_def ValidateURL_def newFetcher_rules hostSet_lowerSet split: sum.splits)

lemma jobFromRequest_ok:
  "jobFromRequest w cfg req = Inr j \<longleftrightarrow>
     irRef req \<noteq> [] \<and> checkKind w cfg req = None \<and> validateWorkflowSelection cfg (irWorkflows req) = None
     \<and> validateDedupThreshold (irDedupThreshold req) (HammingThreshold (fcDedup (cFrames cfg))) = None
     \<and> (\<exists>meta ref. ValidateMetadata (irMetadata req) = Inr meta
       \<and> (if irKind req = ''file'' then iwAbs w (irRef req) else Inr (irRef req)) = Inr ref
       \<and> j = \<lparr>jID = ''job-'' @ show_int (iwClock w 0),
             jSource = \<lparr>Kind = irKind req, Ref = ref, RefDigest = [], srcMediaType = inferMediaType w req\<rparr>,
             Workflows = irWorkflows req, DedupThreshold = irDedupThreshold req, jMetadata = meta, SubmittedAt = iwClock w 1\<rparr>)"
  unfolding jobFromRequest_def by (auto split: option.splits sum.splits)

lemma jobFromRequest_status: "jobFromRequest w cfg req = Inl r \<Longrightarrow> rspStatus r = 400 \<and> rspRetryAfter r = None"
  by (auto simp: jobFromRequest_def checkKind_def badRequest_def httpErrorText_def split: option.splits sum.splits if_splits)

lemma ValidateMetadata_idem: "ValidateMetadata m = Inr c \<Longrightarrow> ValidateMetadata c = Inr c"
  using compactFrom_idem [of "(BeginValue, [])" m]
  by (auto simp: ValidateMetadata_def Compact_def split: if_splits option.splits)

lemma checkKind_ok:
  "checkKind w cfg req = None \<longleftrightarrow> irKind req = ''file'' \<or> irKind req = ''url'' \<and> validateURLIntake (iwParse w) cfg (irRef req) = None"
  by (auto simp: checkKind_def split: option.splits)

lemma validateDedupThreshold_None: "validateDedupThreshold v mx = None \<longleftrightarrow> (case v of None \<Rightarrow> True | Some t \<Rightarrow> -1 \<le> t \<and> t \<le> mx)"
  by (auto simp: validateDedupThreshold_def split: option.splits)

lemma validateWorkflowSelection_None: "validateWorkflowSelection cfg ns = None \<longleftrightarrow> set ns \<subseteq> fst ` set (FFmpegConfig.Workflows (cFFmpeg cfg))"
  by (auto simp: validateWorkflowSelection_def firstBad_None list_all_iff)

lemma response_statuses [simp]:
  "rspStatus (retryLater m) = 503" "rspRetryAfter (retryLater m) = Some ''30''" "rspStatus (httpErrorText m c) = c"
  "rspRetryAfter (httpErrorText m c) = None" "rspStatus (badRequest m) = 400" "rspRetryAfter (badRequest m) = None"
  "rspStatus (writeJSON c b) = c" "rspBody (writeJSON c b) = b"
  by (simp_all add: retryLater_def httpErrorText_def badRequest_def writeJSON_def)

lemma enqueueResponse_facts:
  "rspBody (enqueueResponse e) = TextBody (emsg e)" "rspStatus (enqueueResponse e) \<in> {500, 503}"
  "rspStatus (enqueueResponse e) = 503 \<Longrightarrow> rspRetryAfter (enqueueResponse e) = Some ''30'' \<or> e = errQueueClosed"
  by (auto simp: enqueueResponse_def retryLater_def httpErrorText_def split: if_splits)

section \<open>Facts about the read side\<close>

text \<open>The document of a job at a time: that of its readable record, or that it is unknown.\<close>

definition statusIn :: "storeEntry list \<Rightarrow> int \<Rightarrow> JobID \<Rightarrow> jobStatus" where
  "statusIn es t job =
     (case find (\<lambda>e. entryID e = job \<and> live e t) es of
        Some e \<Rightarrow> seDoc e
      | None \<Rightarrow> \<lparr>jsJobID = job, jsState = stateNotFound, jsResult = None, jsReason = []\<rparr>)"

lemma find_entry_iff:
  "distinct (map entryID es) \<Longrightarrow> find (\<lambda>e. entryID e = job \<and> live e t) es = Some e \<longleftrightarrow> e \<in> set es \<and> entryID e = job \<and> live e t"
  by (induction es) (auto simp: image_iff)

lemma option_ext: "(\<And>x. a = Some x \<longleftrightarrow> b = Some x) \<Longrightarrow> a = b"
  by (cases a; cases b) auto

lemma statusIn_cong:
  assumes "distinct (map entryID es)" "distinct (map entryID es')" "\<And>e. live e t \<Longrightarrow> e \<in> set es \<longleftrightarrow> e \<in> set es'"
  shows "statusIn es t job = statusIn es' t job"
proof -
  have "find (\<lambda>e. entryID e = job \<and> live e t) es = Some e \<longleftrightarrow> find (\<lambda>e. entryID e = job \<and> live e t) es' = Some e" for e
    using find_entry_iff [OF assms(1)] find_entry_iff [OF assms(2)] assms(3) by blast
  then have "find (\<lambda>e. entryID e = job \<and> live e t) es = find (\<lambda>e. entryID e = job \<and> live e t) es'"
    by (rule option_ext)
  then show ?thesis by (simp add: statusIn_def)
qed

lemma statusIn_id: "jsJobID (statusIn es t job) = job"
  by (auto simp: statusIn_def find_Some_iff split: option.splits)

lemma specGet_subset: "set (fst (specGet t job es)) \<subseteq> set es"
proof (cases "find (\<lambda>e. entryID e = job) es")
  case (Some e)
  then have "e \<in> set es" by (auto simp: find_Some_iff)
  then show ?thesis using Some by (auto simp: specGet_def)
qed (simp add: specGet_def)

lemma getStatus_step:
  assumes "storeInv s"
  shows "\<exists>s' d. getStatus t (Some s) job = (Some s', d) \<and> storeInv s'
    \<and> (case d of Some x \<Rightarrow> x | None \<Rightarrow> \<lparr>jsJobID = job, jsState = stateNotFound, jsResult = None, jsReason = []\<rparr>) = statusIn (storeAbs s) t job
    \<and> (\<forall>t' j. t \<le> t' \<longrightarrow> statusIn (storeAbs s') t' j = statusIn (storeAbs s) t' j)"
proof -
  obtain s' d where g: "getLocked t s job = (s', d)" by force
  have i': "storeInv s'" using lru.look_spec [OF assms g] by simp
  have dist: "distinct (map entryID (storeAbs s))" "distinct (map entryID (storeAbs s'))" using lru.bounded [OF assms] lru.bounded [OF i'] by auto
  have "find (\<lambda>e. entryID e = job \<and> live e t) (storeAbs s) = Some e \<Longrightarrow> d = Some (seDoc e)" for e
    using lru.look_reads(1) [OF assms g, of "seDoc e"] find_entry_iff [OF dist(1)] by auto
  moreover have "d = Some x \<Longrightarrow> \<exists>e. find (\<lambda>e. entryID e = job \<and> live e t) (storeAbs s) = Some e \<and> x = seDoc e" for x
    using lru.look_reads(1) [OF assms g, of x] find_entry_iff [OF dist(1)] by auto
  ultimately have doc: "(case d of Some x \<Rightarrow> x | None \<Rightarrow> \<lparr>jsJobID = job, jsState = stateNotFound, jsResult = None, jsReason = []\<rparr>) = statusIn (storeAbs s) t job"
    by (cases d; cases "find (\<lambda>e. entryID e = job \<and> live e t) (storeAbs s)") (auto simp: statusIn_def)
  have keep: "statusIn (storeAbs s') t' j = statusIn (storeAbs s) t' j" if "t \<le> t'" for t' j
  proof (rule statusIn_cong [OF dist(2,1)])
    fix e assume "live e t'"
    then have "live e t" using that by (simp add: live_def)
    moreover have "set (storeAbs s') \<subseteq> set (storeAbs s)"
      using lru.look_spec [OF assms g] specGet_subset [of t job "storeAbs s"] by simp
    ultimately show "e \<in> set (storeAbs s') \<longleftrightarrow> e \<in> set (storeAbs s)" using lru.look_reads(2) [OF assms g] by blast
  qed
  have "getStatus t (Some s) job = (Some s', d)" using g by (simp add: getStatus_def)
  then show ?thesis using i' doc keep by blast
qed

lemma batchLoop_docs:
  assumes "mono clock" "storeInv s"
  shows "\<exists>s' docs. batchLoop clock k (Some s) jobs = (Some s', docs) \<and> length docs = length jobs
    \<and> (\<forall>i < length jobs. docs ! i = statusIn (storeAbs s) (clock (k + i)) (jobs ! i))"
  using assms(2)
proof (induction jobs arbitrary: k s)
  case (Cons job jobs)
  obtain s1 d where g: "getStatus (clock k) (Some s) job = (Some s1, d)" "storeInv s1"
    "(case d of Some x \<Rightarrow> x | None \<Rightarrow> \<lparr>jsJobID = job, jsState = stateNotFound, jsResult = None, jsReason = []\<rparr>) = statusIn (storeAbs s) (clock k) job"
    "\<And>t' j. clock k \<le> t' \<Longrightarrow> statusIn (storeAbs s1) t' j = statusIn (storeAbs s) t' j"
    using getStatus_step [OF Cons.prems] by blast
  obtain s2 docs where l: "batchLoop clock (k + 1) (Some s1) jobs = (Some s2, docs)" "length docs = length jobs"
    "\<And>i. i < length jobs \<Longrightarrow> docs ! i = statusIn (storeAbs s1) (clock (k + 1 + i)) (jobs ! i)"
    using Cons.IH [OF g(2)] by blast
  have "(statusIn (storeAbs s) (clock k) job # docs) ! i = statusIn (storeAbs s) (clock (k + i)) ((job # jobs) ! i)"
    if "i < length (job # jobs)" for i
    using that l(3) [of "i - 1"] g(4) monoD [OF assms(1)] by (cases i) simp_all
  then show ?case using g(1,3) l(1,2) by (simp add: Let_def)
qed simp

section \<open>Properties\<close>


definition demoRequest :: intakeRequest where
  "demoRequest = \<lparr>irKind = ''file'', irRef = ''/in/a.mp4'', irMediaType = [], irWorkflows = [''keyframe''], irDedupThreshold = Some 3, irMetadata = []\<rparr>"

definition demoIntake :: IntakeWorld where
  "demoIntake = \<lparr>iwDecode = (\<lambda>_. Inr demoRequest), iwParse = (\<lambda>_. Inl (errorf [])), iwAbs = Inr, iwClock = (\<lambda>_. 7)\<rparr>"

definition demoIntakeState :: "Memq IntakeState" where
  "demoIntakeState = \<lparr>isBp = NewBackpressure 20 (Fin 50) (60 * Second) 5, isSwitch = Some False, isQueue = NewMemq demoCfg, isResults = None\<rparr>"

lemma demo_job: "\<exists>j. jobFromRequest demoIntake Defaults demoRequest = Inr j"
  by (simp add: jobFromRequest_ok demoRequest_def demoIntake_def checkKind_ok validateWorkflowSelection_None validateDedupThreshold_None
      Defaults_def DefaultWorkflows_def ValidateMetadata_def)


text \<open>
  C27. What intake accepts, the worker can run: the metadata is what validation leaves and passes it again
  unchanged, a URL passes the rules of the fetcher, the workflows are configured ones, and a dedup override is
  within the ceiling, so the pipeline applies exactly the value the caller sent.
\<close>

theorem accepted_job_is_runnable:
  assumes "jobFromRequest w cfg req = Inr j"
  shows "ValidateMetadata (jMetadata j) = Inr (jMetadata j)
    \<and> (Kind (jSource j) = ''file'' \<or> Kind (jSource j) = ''url''
        \<and> (\<exists>u. validateURL (iwParse w) (Ref (jSource j)) (fhosts (newFetcher cfg)) (allowScheme (newFetcher cfg)) = Inr u))
    \<and> set (Job.Workflows j) \<subseteq> fst ` set (FFmpegConfig.Workflows (cFFmpeg cfg))
    \<and> dedupSetting (buildPipeline num cfg m) j =
        (case DedupThreshold j of
           None \<Rightarrow> (dcEnabled (fcDedup (cFrames cfg)), HammingThreshold (fcDedup (cFrames cfg)))
         | Some t \<Rightarrow> (0 \<le> t, t))"
proof -
  from assms obtain meta ref where a: "checkKind w cfg req = None" "validateWorkflowSelection cfg (irWorkflows req) = None"
    "validateDedupThreshold (irDedupThreshold req) (HammingThreshold (fcDedup (cFrames cfg))) = None"
    "ValidateMetadata (irMetadata req) = Inr meta" "(if irKind req = ''file'' then iwAbs w (irRef req) else Inr (irRef req)) = Inr ref"
    and j: "j = \<lparr>jID = ''job-'' @ show_int (iwClock w 0),
             jSource = \<lparr>Kind = irKind req, Ref = ref, RefDigest = [], srcMediaType = inferMediaType w req\<rparr>,
             Workflows = irWorkflows req, DedupThreshold = irDedupThreshold req, jMetadata = meta, SubmittedAt = iwClock w 1\<rparr>"
    unfolding jobFromRequest_ok by blast
  have "ValidateMetadata (jMetadata j) = Inr (jMetadata j)" using ValidateMetadata_idem [OF a(4)] by (simp add: j)
  moreover have "Kind (jSource j) = ''file'' \<or> Kind (jSource j) = ''url''
        \<and> (\<exists>u. validateURL (iwParse w) (Ref (jSource j)) (fhosts (newFetcher cfg)) (allowScheme (newFetcher cfg)) = Inr u)"
    using a(1,5) by (auto simp: checkKind_ok intake_url_rules j)
  moreover have "set (Job.Workflows j) \<subseteq> fst ` set (FFmpegConfig.Workflows (cFFmpeg cfg))"
    using a(2) by (simp add: validateWorkflowSelection_None j)
  moreover have "dedupSetting (buildPipeline num cfg m) j =
        (case DedupThreshold j of
           None \<Rightarrow> (dcEnabled (fcDedup (cFrames cfg)), HammingThreshold (fcDedup (cFrames cfg)))
         | Some t \<Rightarrow> (0 \<le> t, t))"
    using a(3) by (auto simp: validateDedupThreshold_None dedupSetting_def buildPipeline_def j split: option.splits)
  ultimately show ?thesis by blast
qed

theorem accepted_job_is_runnable_witness:
  "\<exists>j. jobFromRequest demoIntake Defaults demoRequest = Inr j \<and> ValidateMetadata (jMetadata j) = Inr (jMetadata j)
     \<and> dedupSetting (buildPipeline (\<lambda>_. []) Defaults devFakeModerator) j = (True, 3)"
proof -
  obtain j where j: "jobFromRequest demoIntake Defaults demoRequest = Inr j" using demo_job by blast
  have "DedupThreshold j = Some 3" using j by (auto simp: jobFromRequest_ok demoRequest_def)
  then show ?thesis using accepted_job_is_runnable [OF j, of "\<lambda>_. []" devFakeModerator] j by auto
qed

text \<open>
  C28. The read side discloses nothing to a caller without the credentials: unless authentication is switched
  off, a request whose credentials are not those of the environment, or that arrives while the environment has
  none, gets the same refusal whatever the store holds, and leaves the store as it was.
\<close>

theorem read_side_guarded:
  assumes "raAuth cfg \<noteq> AuthModeNone"
    and "creds \<noteq> Some (Secret getenv ''result_api.user'', Secret getenv ''result_api.password'')
      \<or> Secret getenv ''result_api.user'' = [] \<or> Secret getenv ''result_api.password'' = []"
  shows "\<exists>r. (\<forall>s. readSide getenv cfg decode clock (Some s) creds route = (Some s, r)) \<and> rspStatus r \<in> {401, 404, 503}"
proof (cases "raEnabled cfg")
  case True
  have "\<exists>r. authDenied (newResultAPI getenv cfg) creds = Some r \<and> rspStatus r \<in> {401, 503}"
    using assms by (auto simp: authDenied_def newResultAPI_def httpErrorText_def)
  then show ?thesis using True by (auto simp: readSide_def)
qed (auto simp: readSide_def)

definition openAPI :: "string \<Rightarrow> ResultAPIConfig" where
  "openAPI auth = \<lparr>raEnabled = True, raAuth = auth, raMaxEntries = 1, raTTL = 10\<rparr>"

theorem read_side_guarded_witness:
  "\<exists>r. (\<forall>s. readSide (\<lambda>_. ''x'') (openAPI ''basic'') (\<lambda>_. Inr []) (\<lambda>_. 0) (Some s) (Some (''x'', ''guess'')) (GetJobRoute ''a'') = (Some s, r))
     \<and> rspStatus r \<in> {401, 404, 503}"
  by (rule read_side_guarded) (simp_all add: openAPI_def Secret_def)

text \<open>
  A batch answers every identifier asked for, in the order asked, duplicates included: the document at
  each position is the readable record of that job at the time it is looked up, or says that the job is
  unknown; the lookups of one batch do not disturb each other.
\<close>

theorem batch_answers_in_order:
  assumes "storeReach mx ttl s" "0 \<le> mx" "mono clock"
    and "raEnabled cfg" "authDenied (newResultAPI getenv cfg) creds = None"
    and "decode body = Inr jobs" "jobs \<noteq> []" "length jobs \<le> 1000"
  shows "\<exists>s' docs. readSide getenv cfg decode clock (Some s) creds (BatchRoute body) = (Some s', writeJSON 200 (BatchBody docs))
    \<and> map jsJobID docs = jobs \<and> (\<forall>i < length jobs. docs ! i = statusIn (storeAbs s) (clock i) (jobs ! i))"
proof -
  have "storeInv s" using storeReach_inv [OF assms(1,2)] by simp
  from batchLoop_docs [OF assms(3) this, where k = 0 and jobs = jobs] obtain s' docs where
    b: "batchLoop clock 0 (Some s) jobs = (Some s', docs)" "length docs = length jobs"
    and d: "\<forall>i < length jobs. docs ! i = statusIn (storeAbs s) (clock (0 + i)) (jobs ! i)" by blast
  have "map jsJobID docs = jobs" using b(2) d by (intro nth_equalityI) (simp_all add: statusIn_id)
  moreover have "readSide getenv cfg decode clock (Some s) creds (BatchRoute body) = (Some s', writeJSON 200 (BatchBody docs))"
    using assms(4-8) b(1) by (simp add: readSide_def batchStatus_def maxBatchIDs_def)
  ultimately show ?thesis using d by auto
qed

theorem batch_answers_in_order_witness:
  "\<exists>s s' docs. readSide (\<lambda>_. []) (openAPI ''none'') (\<lambda>_. Inr [''a'', ''b'', ''a'']) (\<lambda>_. 14) (Some s) None (BatchRoute [])
       = (Some s', writeJSON 200 (BatchBody docs))
     \<and> map jsState docs = [stateQueued, stateNotFound, stateQueued]"
proof -
  obtain s where s: "storeReach 1 10 s"
    "storeAbs s = [\<lparr>seDoc = \<lparr>jsJobID = ''a'', jsState = stateQueued, jsResult = None, jsReason = []\<rparr>, seExpires = 15\<rparr>]"
    using demo_store by blast
  obtain s' docs where d: "readSide (\<lambda>_. []) (openAPI ''none'') (\<lambda>_. Inr [''a'', ''b'', ''a'']) (\<lambda>_. 14) (Some s) None (BatchRoute [])
       = (Some s', writeJSON 200 (BatchBody docs))" "map jsJobID docs = [''a'', ''b'', ''a'']"
    "\<forall>i < length [''a'', ''b'', ''a'']. docs ! i = statusIn (storeAbs s) 14 ([''a'', ''b'', ''a''] ! i)"
    using batch_answers_in_order [OF s(1), of "\<lambda>_. 14" "openAPI ''none''" "\<lambda>_. []" None "\<lambda>_. Inr [''a'', ''b'', ''a'']" "[]"]
    by (auto simp: openAPI_def authDenied_def newResultAPI_def mono_def)
  obtain x y z where xyz: "docs = [x, y, z]" using d(2) by auto
  have "x = statusIn (storeAbs s) 14 ''a''" "y = statusIn (storeAbs s) 14 ''b''" "z = statusIn (storeAbs s) 14 ''a''"
    using d(3) [rule_format, of 0] d(3) [rule_format, of 1] d(3) [rule_format, of 2] xyz by (simp_all add: numeral_2_eq_2)
  then have "map jsState docs = [stateQueued, stateNotFound, stateQueued]" using xyz s(2) by (simp add: statusIn_def live_def)
  with d(1) show ?thesis by (intro exI [of _ s] exI [of _ s'] exI [of _ docs] conjI)
qed

end
