(* ===== verification/Serve.thy ===== *)
theory Serve
  imports Intake
begin

text \<open>
  The worker of \<open>internal/cli/serve.go\<close>: the handler that runs the pipeline on a job and reports its outcome
  to the job tracker, the read side and the backpressure tracker; the depth gauges; and the in-memory queue, the
  workers and intake as one transition system. Metrics and logging are left out.
\<close>

section \<open>The handler (serve.go)\<close>

record ServerState =
  svBp :: Backpressure
  svTracker :: JobTracker
  svResults :: "resultStore option"

definition zeroEnvelope :: ResultEnvelope where
  "zeroEnvelope = \<lparr>eJobID = [], eSource = \<lparr>Kind = [], Ref = [], RefDigest = [], srcMediaType = []\<rparr>,
     ModelID = \<lparr>Adapter = [], miModelVersion = [], ConfigHash = []\<rparr>, eResult = None, eError = [], eMetadata = [], RawSHA256 = [],
     StartedAt = zeroTime, FinishedAt = zeroTime\<rparr>"

text \<open>Integer division of Go truncates.\<close>

definition goQuot :: "int \<Rightarrow> int \<Rightarrow> int" where
  "goQuot a b = sgn a * (\<bar>a\<bar> div b)"

definition verdictLabel :: "ResultEnvelope \<Rightarrow> Disposition \<Rightarrow> string" where
  "verdictLabel env disp =
     (if disp \<noteq> Ack then verdict_string VerdictError
      else case eResult env of Some r \<Rightarrow> verdict_string (ovVerdict (Overall r)) | None \<Rightarrow> ''skip'')"

text \<open>The reference shown for a job: a URL is only ever shown in its recorded form.\<close>

definition shownSource :: "ResultEnvelope \<Rightarrow> Job \<Rightarrow> string \<times> string" where
  "shownSource env j =
     (if Ref (eSource env) = [] \<and> Kind (jSource j) \<noteq> ''url'' then (Ref (jSource j), srcMediaType (jSource j))
      else (Ref (eSource env), srcMediaType (eSource env)))"

definition jobRecordOf :: "ResultEnvelope \<Rightarrow> Disposition \<Rightarrow> Job \<Rightarrow> JobRecord" where
  "jobRecordOf env disp j =
     (let (ref, mediaType) = shownSource env j;
          rec = \<lparr>jrID = jID j, jrRef = ref, jrMediaType = mediaType, jrVerdict = verdictLabel env disp, jrTopCategory = [],
                 jrMaxScore = None, jrConfidence = None, FramesScanned = 0, FramesFlagged = 0, jrFinishedAt = FinishedAt env,
                 DurationMS = goQuot (FinishedAt env - StartedAt env) Millisecond\<rparr>
      in case eResult env of
          None \<Rightarrow> rec
        | Some r \<Rightarrow>
            rec\<lparr>jrTopCategory := (case TopCategory (Overall r) of Some c \<Rightarrow> c | None \<Rightarrow> []),
                jrMaxScore := MaxScore (Overall r), jrConfidence := Confidence (Overall r),
                FramesScanned := int (length (nrFrames r)),
                FramesFlagged := int (length (filter (\<lambda>f. list_ex Flagged (Categories f)) (nrFrames r)))\<rparr>)"

text \<open>The clock is read for the first record, the second, and the backpressure tracker. A panic of the pipeline
  leaves the handler after the first record only.\<close>

definition serveHandler ::
  "(nat \<Rightarrow> nat \<Rightarrow> float64) \<Rightarrow> (nat \<Rightarrow> int) \<Rightarrow> Pipeline \<Rightarrow> JobWorld \<Rightarrow> Job \<Rightarrow> ServerState \<Rightarrow>
   ServerState \<times> (Disposition \<times> goerr option) call" where
  "serveHandler fdiv clock p w j st =
     (case recordStatus (clock 0) (svResults st) \<lparr>jsJobID = jID j, jsState = stateProcessing, jsResult = None, jsReason = []\<rparr> of
        Panicked m \<Rightarrow> (st, Panicked m)
      | Ret rs \<Rightarrow>
          (let st1 = st\<lparr>svResults := rs\<rparr> in
           case ProcessJob p w j of
             Panicked m \<Rightarrow> (st1, Panicked m)
           | Ret out \<Rightarrow>
               (let env = (case oEnv out of Some e \<Rightarrow> e | None \<Rightarrow> zeroEnvelope); disp = oDisp out; done = Ret (disp, oErr out) in
                if disp \<noteq> Retry then
                  (let st2 = st1\<lparr>svTracker := TrackerRecord (svTracker st1) (jobRecordOf env disp j)\<rparr> in
                   case recordTerminalStatus (wParse w) (clock 1) (svResults st2) (jID j) env disp (oErr out) of
                     Panicked m \<Rightarrow> (st2, Panicked m)
                   | Ret rs2 \<Rightarrow>
                       (st2\<lparr>svResults := rs2, svBp := BackpressureRecord fdiv (clock 2) (disp = Ack) (svBp st2)\<rparr>, done))
                else (st1\<lparr>svBp := BackpressureRecord fdiv (clock 2) (disp = Ack) (svBp st1)\<rparr>, done))))"

section \<open>Depth gauges (serve.go)\<close>

record Gauges =
  gaQueueDepth :: int
  gaProcessingDepth :: int
  gaDeadletterDepth :: int

text \<open>A failed sample keeps the previous value; a driver without a gauge is \<open>None\<close>.\<close>

definition sampled :: "int \<Rightarrow> int res option \<Rightarrow> int" where
  "sampled prev d = (case d of Some (Inr n) \<Rightarrow> n | _ \<Rightarrow> prev)"

definition publishDepthGauges :: "int res \<Rightarrow> int res option \<Rightarrow> int res option \<Rightarrow> Gauges \<Rightarrow> Gauges" where
  "publishDepthGauges depth proc dlq g =
     \<lparr>gaQueueDepth = sampled (gaQueueDepth g) (Some depth), gaProcessingDepth = sampled (gaProcessingDepth g) proc,
      gaDeadletterDepth = sampled (gaDeadletterDepth g) dlq\<rparr>"

section \<open>The running server on the in-memory queue\<close>

text \<open>The steps of the queue that are neither a submission nor the end of a handler.\<close>

inductive queueStep :: "Memq \<Rightarrow> Memq \<Rightarrow> bool" where
  "j \<in> set (admitted q) \<Longrightarrow> enqueueSend q j = Inr q' \<Longrightarrow> queueStep q q'"
| "j \<in> set (admitted q) \<Longrightarrow> enqueueSend q j = Inl e \<Longrightarrow> queueStep q (q\<lparr>admitted := remove1 j (admitted q)\<rparr>)"
| "j \<in> set (enqueuing q) \<Longrightarrow> queueStep q (enqueueFinish q j)"
| "Start q = Inr q' \<Longrightarrow> queueStep q q'"
| "mstarted q \<Longrightarrow> int (length (running q)) < Workers (mcfg q) \<Longrightarrow> pull q = Some q' \<Longrightarrow> queueStep q q'"
| "qj \<in> set (timers q) \<Longrightarrow> int (length (mjobs q)) < Buffer (mcfg q) \<Longrightarrow> queueStep q (fire q qj)"
| "qj \<in> set (refired q) \<Longrightarrow> queueStep q (fireFinish q qj)"
| "mclosed q \<Longrightarrow> qj \<in> set (timers q) \<Longrightarrow> queueStep q (abandon q qj)"
| "queueStep q (closeBegin q)"
| "mclosed q \<Longrightarrow> drainOne q = Some q' \<Longrightarrow> queueStep q q'"

text \<open>A submission passes intake; a worker finishes a job, which the backpressure tracker hears of unless the
  handler panicked.\<close>

inductive serverStep :: "(nat \<Rightarrow> nat \<Rightarrow> float64) \<Rightarrow> Memq \<times> Backpressure \<Rightarrow> Memq \<times> Backpressure \<Rightarrow> bool" for fdiv where
  submit: "Ready b \<Longrightarrow> enqueueCheck q j = Inr q' \<Longrightarrow> serverStep fdiv (q, b) (q', b)"
| finish: "qj \<in> set (running q) \<Longrightarrow>
    serverStep fdiv (q, b) (process q qj (Ret (disp, e)) t, BackpressureRecord fdiv u (disp = Ack) b)"
| crash: "qj \<in> set (running q) \<Longrightarrow> serverStep fdiv (q, b) (process q qj (Panicked m) t, b)"
| queue: "queueStep q q' \<Longrightarrow> serverStep fdiv (q, b) (q', b)"

inductive_cases queueStep_elim: "queueStep q q'"
inductive_cases serverStep_elim: "serverStep fdiv (q, b) (q', b')"

section \<open>Facts about the running server\<close>

lemma queueStep_mem: "queueStep q q' \<Longrightarrow> memStep q q'"
  by (erule queueStep.cases) (auto intro: memStep.intros)

text \<open>Every step of the server is a step of the queue: what holds of every run of the driver holds here.\<close>

lemma serverStep_mem: "serverStep fdiv (q, b) (q', b') \<Longrightarrow> memStep q q'"
  by (erule serverStep_elim) (auto intro: memStep.intros queueStep_mem)

definition idle :: "Memq \<Rightarrow> bool" where
  "idle q \<longleftrightarrow> admitted q = [] \<and> mjobs q = [] \<and> running q = [] \<and> timers q = []"

lemma idle_queueStep: "queueStep q q' \<Longrightarrow> idle q \<Longrightarrow> idle q' \<and> gAccepted q' = gAccepted q"
  by (erule queueStep_elim)
    (auto simp: idle_def enqueueFinish_def Start_def pull_def fireFinish_def closeBegin_def drainOne_def split: if_splits)

lemma idle_serverStep:
  assumes "serverStep fdiv (q, b) s" "idle q" "tripped b"
  shows "\<exists>q'. s = (q', b) \<and> idle q' \<and> gAccepted q' = gAccepted q"
  using assms(1)
proof (cases rule: serverStep.cases)
  case (queue q')
  then show ?thesis using idle_queueStep assms(2) by auto
qed (use assms(2,3) in \<open>auto simp: idle_def Ready_def\<close>)

lemma idle_server_run:
  assumes "(serverStep fdiv)\<^sup>*\<^sup>* (q, b) s" "idle q" "tripped b"
  shows "\<exists>q'. s = (q', b) \<and> idle q' \<and> gAccepted q' = gAccepted q"
  using assms(1)
proof (induction rule: rtranclp_induct)
  case base
  then show ?case using assms(2) by simp
next
  case (step y z)
  then obtain q1 where y: "y = (q1, b)" "idle q1" "gAccepted q1 = gAccepted q" by blast
  then show ?case using idle_serverStep [OF step.hyps(2) [unfolded y(1)] y(2) assms(3)] by auto
qed

lemma bpRun_successes:
  "list_all snd h \<Longrightarrow> consecOK (bpRun fdiv b h) = consecOK b + int (length h)
     \<and> (tripped (bpRun fdiv b h) \<longrightarrow> tripped b \<and> (h = [] \<or> consecOK b + int (length h) < bpM b))"
proof (induction h rule: rev_induct)
  case (snoc x h)
  obtain t ok where x: "x = (t, ok)" by force
  then have "ok" using snoc.prems by simp
  then show ?case using snoc by (auto simp: x bpRun_snoc BackpressureRecord_fields BackpressureRecord_tripped bpRun_fields)
qed (simp add: bpRun_def)

section \<open>Facts about the handler\<close>

lemma stateRank_terminal: "stateRank s < 2 \<longleftrightarrow> s = stateQueued \<or> s = stateProcessing"
  by (cases s) (simp_all add: stateRank_def)

text \<open>A first report of a job that is not finished, and a terminal report of one.\<close>

lemma specRecord_processing:
  assumes "distinct (map entryID es)" "\<And>e. e \<in> set es \<Longrightarrow> entryID e = jsJobID doc \<Longrightarrow> live e t \<Longrightarrow> stateRank (jsState (seDoc e)) < 2"
    "jsState doc = stateProcessing" "e \<in> set (specRecord mx ttl t doc es)" "entryID e = jsJobID doc"
  shows "stateRank (jsState (seDoc e)) < 2"
proof (cases "find (\<lambda>e. entryID e = jsJobID doc) es")
  case None
  then have "e \<in> set (take (nat mx) (\<lparr>seDoc = doc, seExpires = t + ttl\<rparr> # es))" using assms(4) by (simp add: specRecord_def Let_def)
  then have "e \<in> set (\<lparr>seDoc = doc, seExpires = t + ttl\<rparr> # es)" by (rule in_set_takeD)
  then have "e = \<lparr>seDoc = doc, seExpires = t + ttl\<rparr>" using None assms(5) by (auto simp: find_None_iff)
  then show ?thesis by (simp add: assms(3) stateRank_def)
next
  case (Some x)
  then have x: "x \<in> set es" "entryID x = jsJobID doc" by (auto simp: find_Some_iff)
  have uniq: "y = x" if "y \<in> set es" "entryID y = jsJobID doc" for y
    using assms(1) x that by (metis distinct_map inj_on_def)
  show ?thesis
  proof (cases "live x t \<and> stateRank (jsState doc) \<le> stateRank (jsState (seDoc x))")
    case True
    then have "e = x" using assms(4,5) Some uniq by (simp add: specRecord_def Let_def)
    then show ?thesis using assms(2) [OF x] True by simp
  next
    case False
    then have "e = \<lparr>seDoc = doc, seExpires = t + ttl\<rparr>" using assms(4,5) Some by (auto simp: specRecord_def Let_def)
    then show ?thesis by (simp add: assms(3) stateRank_def)
  qed
qed

lemma specRecord_replaces:
  assumes "1 \<le> mx" "\<And>e. e \<in> set es \<Longrightarrow> entryID e = jsJobID doc \<Longrightarrow> live e t \<Longrightarrow> stateRank (jsState (seDoc e)) < stateRank (jsState doc)"
  shows "\<exists>rest. specRecord mx ttl t doc es = \<lparr>seDoc = doc, seExpires = t + ttl\<rparr> # rest"
proof (cases "find (\<lambda>e. entryID e = jsJobID doc) es")
  case None
  then show ?thesis using assms(1) by (cases "nat mx") (auto simp: specRecord_def Let_def)
next
  case (Some x)
  then have "x \<in> set es" "entryID x = jsJobID doc" by (auto simp: find_Some_iff)
  then show ?thesis using Some assms(2) [of x] by (auto simp: specRecord_def Let_def)
qed

lemma status_of_head:
  assumes "storeInv s" "storeAbs s = \<lparr>seDoc = doc, seExpires = x\<rparr> # rest" "t < x"
  shows "\<exists>s'. getStatus t (Some s) (jsJobID doc) = (Some s', Some doc)"
proof -
  obtain s' d where g: "getLocked t s (jsJobID doc) = (s', d)" by force
  have "d = Some doc" using lru.look_reads(1) [OF assms(1) g, of doc] assms(2,3) by (auto simp: live_def)
  then show ?thesis using g by (simp add: getStatus_def)
qed


text \<open>The store after the first report, when it does not fail, and after the last one.\<close>

lemma recordStatus_spec:
  assumes "storeInv s"
  shows "\<exists>s'. recordStatus t (Some s) doc = Ret (Some s') \<and> storeInv s' \<and> rsMax s' = rsMax s \<and> rsTTL s' = rsTTL s
    \<and> storeAbs s' = specRecord (rsMax s) (rsTTL s) t doc (storeAbs s)"
  using lru.rcd_spec [OF assms, of t doc] by (auto simp: recordStatus_def)

abbreviation processingDoc :: "JobID \<Rightarrow> jobStatus" where
  "processingDoc job \<equiv> \<lparr>jsJobID = job, jsState = stateProcessing, jsResult = None, jsReason = []\<rparr>"

text \<open>The document a finished job leaves.\<close>

definition terminalDoc :: "urlParser \<Rightarrow> JobID \<Rightarrow> JobOutcome \<Rightarrow> jobStatus" where
  "terminalDoc parse job out =
     (if oDisp out = Ack then \<lparr>jsJobID = job, jsState = stateDone, jsResult = Some (case oEnv out of Some e \<Rightarrow> e | None \<Rightarrow> zeroEnvelope), jsReason = []\<rparr>
      else \<lparr>jsJobID = job, jsState = stateDeadLettered, jsResult = None, jsReason = deadLetterReason parse (oErr out)\<rparr>)"

lemma terminalDoc_facts: "jsJobID (terminalDoc parse job out) = job" "stateRank (jsState (terminalDoc parse job out)) = 2"
  by (simp_all add: terminalDoc_def stateRank_def)

lemma handler_finishes:
  assumes "storeInv s" "svResults st = Some s" "ProcessJob p w j = Ret out" "oDisp out \<noteq> Retry"
    "serveHandler fdiv clock p w j st = (st', h)"
  shows "\<exists>s1 s2. storeInv s1 \<and> storeInv s2 \<and> storeAbs s1 = specRecord (rsMax s) (rsTTL s) (clock 0) (processingDoc (jID j)) (storeAbs s)
    \<and> storeAbs s2 = specRecord (rsMax s) (rsTTL s) (clock 1) (terminalDoc (wParse w) (jID j) out) (storeAbs s1)
    \<and> svResults st' = Some s2 \<and> h = Ret (oDisp out, oErr out)
    \<and> svBp st' = BackpressureRecord fdiv (clock 2) (oDisp out = Ack) (svBp st)
    \<and> svTracker st' = TrackerRecord (svTracker st) (jobRecordOf (case oEnv out of Some e \<Rightarrow> e | None \<Rightarrow> zeroEnvelope) (oDisp out) j)"
proof -
  obtain s1 where s1: "recordStatus (clock 0) (Some s) (processingDoc (jID j)) = Ret (Some s1)" "storeInv s1" "rsMax s1 = rsMax s" "rsTTL s1 = rsTTL s"
    "storeAbs s1 = specRecord (rsMax s) (rsTTL s) (clock 0) (processingDoc (jID j)) (storeAbs s)"
    using recordStatus_spec [OF assms(1)] by blast
  obtain s2 where s2: "recordStatus (clock 1) (Some s1) (terminalDoc (wParse w) (jID j) out) = Ret (Some s2)" "storeInv s2"
    "storeAbs s2 = specRecord (rsMax s) (rsTTL s) (clock 1) (terminalDoc (wParse w) (jID j) out) (storeAbs s1)"
    using recordStatus_spec [OF s1(2)] s1(3,4) by metis
  have "recordTerminalStatus (wParse w) (clock 1) (Some s1) (jID j) (case oEnv out of Some e \<Rightarrow> e | None \<Rightarrow> zeroEnvelope) (oDisp out) (oErr out) = Ret (Some s2)"
    using s2(1) by (cases "oDisp out = Ack") (simp_all add: recordTerminalStatus_def terminalDoc_def)
  then show ?thesis using assms s1 s2 by (auto simp: serveHandler_def Let_def)
qed

lemma handler_unfinished:
  assumes "storeInv s" "svResults st = Some s" "ProcessJob p w j = Panicked m \<or> (\<exists>out. ProcessJob p w j = Ret out \<and> oDisp out = Retry)"
    "serveHandler fdiv clock p w j st = (st', h)"
  shows "\<exists>s1. storeInv s1 \<and> storeAbs s1 = specRecord (rsMax s) (rsTTL s) (clock 0) (processingDoc (jID j)) (storeAbs s) \<and> svResults st' = Some s1
    \<and> fst (runHandler h) \<noteq> Ack \<and> svTracker st' = svTracker st"
proof -
  obtain s1 where s1: "recordStatus (clock 0) (Some s) (processingDoc (jID j)) = Ret (Some s1)" "storeInv s1"
    "storeAbs s1 = specRecord (rsMax s) (rsTTL s) (clock 0) (processingDoc (jID j)) (storeAbs s)"
    using recordStatus_spec [OF assms(1)] by blast
  then show ?thesis using assms(2-4) by (auto simp: serveHandler_def Let_def runHandler_def)
qed

section \<open>Properties\<close>

text \<open>
  C29. A finished job is reported as it finished: when the pipeline acknowledges or gives up a job that no record
  calls finished yet, the caller who polls within the retention reads ``done'' with the very envelope the
  pipeline produced, or ``dead_lettered'' with the redacted reason and no result; the operator statistics and
  the backpressure tracker hear of it in the same step.
\<close>

theorem finished_job_is_reported:
  assumes "storeReach mx ttl s" "1 \<le> mx" "svResults st = Some s"
    and "list_all (\<lambda>e. entryID e = jID j \<longrightarrow> jsState (seDoc e) \<in> {stateQueued, stateProcessing} \<or> \<not> live e (clock 0)) (storeAbs s)"
    and "ProcessJob p w j = Ret out" "oDisp out \<noteq> Retry" "serveHandler fdiv clock p w j st = (st', h)" "t < clock 1 + ttl"
  shows "(\<exists>s'. getStatus t (svResults st') (jID j) = (Some s',
      Some (if oDisp out = Ack
            then \<lparr>jsJobID = jID j, jsState = stateDone, jsResult = Some (case oEnv out of Some e \<Rightarrow> e | None \<Rightarrow> zeroEnvelope), jsReason = []\<rparr>
            else \<lparr>jsJobID = jID j, jsState = stateDeadLettered, jsResult = None, jsReason = deadLetterReason (wParse w) (oErr out)\<rparr>)))
    \<and> h = Ret (oDisp out, oErr out) \<and> jtTotal (svTracker st') = jtTotal (svTracker st) + 1
    \<and> svBp st' = BackpressureRecord fdiv (clock 2) (oDisp out = Ack) (svBp st)"
proof -
  have i: "storeInv s" "rsMax s = mx" "rsTTL s = ttl" using storeReach_inv [OF assms(1)] assms(2) by auto
  obtain s1 s2 where h: "storeInv s1" "storeInv s2"
    "storeAbs s1 = specRecord mx ttl (clock 0) (processingDoc (jID j)) (storeAbs s)"
    "storeAbs s2 = specRecord mx ttl (clock 1) (terminalDoc (wParse w) (jID j) out) (storeAbs s1)"
    "svResults st' = Some s2" "h = Ret (oDisp out, oErr out)" "svBp st' = BackpressureRecord fdiv (clock 2) (oDisp out = Ack) (svBp st)"
    "svTracker st' = TrackerRecord (svTracker st) (jobRecordOf (case oEnv out of Some e \<Rightarrow> e | None \<Rightarrow> zeroEnvelope) (oDisp out) j)"
    using handler_finishes [OF i(1) assms(3,5,6,7)] i(2,3) by auto
  have fresh: "stateRank (jsState (seDoc e)) < 2" if "e \<in> set (storeAbs s)" "entryID e = jID j" "live e (clock 0)" for e
    using assms(4) that by (auto simp: list_all_iff stateRank_terminal)
  have "stateRank (jsState (seDoc e)) < 2" if "e \<in> set (storeAbs s1)" "entryID e = jID j" for e
    using specRecord_processing [of "storeAbs s" "processingDoc (jID j)" "clock 0" e mx ttl] lru.bounded [OF i(1)] fresh that
    by (simp add: h(3))
  then have "\<exists>rest. storeAbs s2 = \<lparr>seDoc = terminalDoc (wParse w) (jID j) out, seExpires = clock 1 + ttl\<rparr> # rest"
    unfolding h(4) by (intro specRecord_replaces [OF assms(2)]) (simp add: terminalDoc_facts)
  then obtain rest where "storeAbs s2 = \<lparr>seDoc = terminalDoc (wParse w) (jID j) out, seExpires = clock 1 + ttl\<rparr> # rest" by blast
  from status_of_head [OF h(2) this assms(8)] show ?thesis
    using h(5-8) unfolding terminalDoc_facts(1) by (simp add: terminalDoc_def [symmetric] TrackerRecord_fields)
qed

definition demoServer :: ServerState where
  "demoServer = \<lparr>svBp = NewBackpressure 20 (Fin 50) (60 * Second) 5, svTracker = NewJobTracker 200, svResults = Some (newResultStore 10 100)\<rparr>"

theorem finished_job_is_reported_witness:
  "\<exists>st' h s'. serveHandler (\<lambda>_ _. Fin 0) (\<lambda>k. int k) demoPipeline demoWorld (demoJob ''j'') demoServer = (st', h) \<and>
     (\<exists>d. getStatus 50 (svResults st') ''j'' = (Some s', Some d) \<and> jsState d = stateDone)"
proof -
  obtain out where out: "ProcessJob demoPipeline demoWorld (demoJob ''j'') = Ret out" "oDisp out = Ack" using demo_processed by blast
  obtain st' h where h: "serveHandler (\<lambda>_ _. Fin 0) (\<lambda>k. int k) demoPipeline demoWorld (demoJob ''j'') demoServer = (st', h)" by force
  have "\<exists>s'. getStatus 50 (svResults st') (jID (demoJob ''j'')) = (Some s',
      Some \<lparr>jsJobID = jID (demoJob ''j''), jsState = stateDone, jsResult = Some (case oEnv out of Some e \<Rightarrow> e | None \<Rightarrow> zeroEnvelope), jsReason = []\<rparr>)"
    using finished_job_is_reported [OF storeReach.boot [of 10 100] _ _ _ out(1) _ h, of 50] out(2)
    by (simp add: demoServer_def storeAbs_def newResultStore_def)
  then obtain s' d where "getStatus 50 (svResults st') ''j'' = (Some s', Some d)" "jsState d = stateDone" by (auto simp: demoJob_def)
  then show ?thesis using h by blast
qed

text \<open>
  A job that dies outside the handler's last branch is never reported dead: when the pipeline panics, or asks
  for a retry with none left, the queue dead-letters the job, but the read side keeps answering ``processing''
  for as long as the record lives, and the operator statistics do not count it.
\<close>

theorem dead_job_reads_processing:
  assumes "storeReach mx ttl s" "1 \<le> mx" "svResults st = Some s" "list_all (\<lambda>e. entryID e = jID j \<longrightarrow> jsState (seDoc e) = stateQueued) (storeAbs s)"
    and "(\<exists>m. ProcessJob p w j = Panicked m) \<or> (\<exists>out. ProcessJob p w j = Ret out \<and> oDisp out = Retry)"
    and "serveHandler fdiv clock p w j st = (st', h)" "qjob qj = j" "MaxRetries (mcfg q) \<le> attempts qj" "t < clock 0 + ttl"
  shows "map dlJob (mdlq (Memq.process q qj h u)) = map dlJob (mdlq q) @ [j]
    \<and> (\<exists>s'. getStatus t (svResults st') (jID j) = (Some s', Some \<lparr>jsJobID = jID j, jsState = stateProcessing, jsResult = None, jsReason = []\<rparr>))
    \<and> svTracker st' = svTracker st"
proof -
  have i: "storeInv s" "rsMax s = mx" "rsTTL s = ttl" using storeReach_inv [OF assms(1)] assms(2) by auto
  obtain m where m: "ProcessJob p w j = Panicked m \<or> (\<exists>out. ProcessJob p w j = Ret out \<and> oDisp out = Retry)" using assms(5) by blast
  obtain s1 where h: "storeInv s1" "storeAbs s1 = specRecord mx ttl (clock 0) (processingDoc (jID j)) (storeAbs s)"
    "svResults st' = Some s1" "fst (runHandler h) \<noteq> Ack" "svTracker st' = svTracker st"
    using handler_unfinished [OF i(1) assms(3) m assms(6)] i(2,3) by auto
  have "\<exists>rest. storeAbs s1 = \<lparr>seDoc = processingDoc (jID j), seExpires = clock 0 + ttl\<rparr> # rest"
    unfolding h(2) using assms(4) by (intro specRecord_replaces [OF assms(2)]) (auto simp: list_all_iff stateRank_def)
  then obtain rest where "storeAbs s1 = \<lparr>seDoc = processingDoc (jID j), seExpires = clock 0 + ttl\<rparr> # rest" by blast
  note r = status_of_head [OF h(1) this assms(9)]
  obtain disp e where d: "runHandler h = (disp, e)" by force
  have "map dlJob (mdlq (Memq.process q qj h u)) = map dlJob (mdlq q) @ [j]"
    using h(4) assms(7,8) by (cases disp) (auto simp: Memq.process_def d Let_def deadLetter_def MemDLQ_Write_def)
  then show ?thesis using r h(3,5) by simp
qed

definition crashingPipeline :: Pipeline where
  "crashingPipeline = demoPipeline\<lparr>pModerator := demoModerator\<lparr>mAnalyzeImage := (\<lambda>i img. Panicked ''index out of range'')\<rparr>\<rparr>"

theorem dead_job_reads_processing_witness:
  "\<exists>st' h s' d. serveHandler (\<lambda>_ _. Fin 0) (\<lambda>k. int k) crashingPipeline demoWorld (demoJob ''j'') demoServer = (st', h)
     \<and> map dlJob (mdlq (Memq.process racePulled \<lparr>qjob = demoJob ''j'', attempts = 1\<rparr> h 0)) = [demoJob ''j'']
     \<and> getStatus 50 (svResults st') ''j'' = (Some s', Some d) \<and> jsState d = stateProcessing"
proof -
  have pan: "ProcessJob crashingPipeline demoWorld (demoJob ''j'') = Panicked ''index out of range''"
    by (simp add: ProcessJob_def evaluateJob_def resolveSource_def demoJob_def ValidateMetadata_def crashingPipeline_def
        demoPipeline_def demoModerator_def demoWorld_def processImage_def evaluateFrame_def sniffMIME_def Let_def)
  obtain st' h where h: "serveHandler (\<lambda>_ _. Fin 0) (\<lambda>k. int k) crashingPipeline demoWorld (demoJob ''j'') demoServer = (st', h)" by force
  have q: "mdlq racePulled = []" "MaxRetries (mcfg racePulled) = 1"
    by (simp_all add: racePulled_def raceSent_def pull_def Start_def enqueueSend_def enqueueCheck_def NewMemq_def demoCfg_def applyDefaults_def MemDLQ_Depth_def)
  have "map dlJob (mdlq (Memq.process racePulled \<lparr>qjob = demoJob ''j'', attempts = 1\<rparr> h 0)) = map dlJob (mdlq racePulled) @ [demoJob ''j'']
    \<and> (\<exists>s'. getStatus 50 (svResults st') (jID (demoJob ''j'')) = (Some s', Some (processingDoc (jID (demoJob ''j'')))))
    \<and> svTracker st' = svTracker demoServer"
    by (rule dead_job_reads_processing [OF storeReach.boot [of 10 100] _ _ _ _ h])
      (use pan q in \<open>simp_all add: demoServer_def storeAbs_def newResultStore_def\<close>)
  then obtain s' where "getStatus 50 (svResults st') ''j'' = (Some s', Some (processingDoc ''j''))"
    "map dlJob (mdlq (Memq.process racePulled \<lparr>qjob = demoJob ''j'', attempts = 1\<rparr> h 0)) = [demoJob ''j'']"
    using q by (auto simp: demoJob_def)
  then show ?thesis using h by (intro exI [of _ st'] exI [of _ h] exI [of _ s'] exI [of _ "processingDoc ''j''"]) simp
qed

text \<open>
  Intake recovers when work succeeds: whatever happened before, as many successes in a row as the recovery
  threshold asks for open intake again.
\<close>

theorem intake_recovers:
  assumes "list_all snd h" "h \<noteq> []" "m \<le> int (length h)"
  shows "Ready (bpRun fdiv (bpRun fdiv (NewBackpressure n r w m) past) h)"
proof -
  let ?b = "bpRun fdiv (NewBackpressure n r w m) past"
  have "0 \<le> consecOK ?b" "bpM ?b = m" by (simp_all add: bpRun_counters bpRun_fields)
  then show ?thesis using bpRun_successes [OF assms(1), of fdiv ?b] assms(2,3) by (auto simp: Ready_def)
qed

theorem intake_recovers_witness:
  "Ready (bpRun (\<lambda>_ _. Fin 100) (bpRun (\<lambda>_ _. Fin 100) (NewBackpressure 1 (Fin 50) Minute 2) [(0, False)]) [(1, True), (2, True)])
   \<and> \<not> Ready (bpRun (\<lambda>_ _. Fin 100) (NewBackpressure 1 (Fin 50) Minute 2) [(0, False)])"
  using intake_recovers [of "[(1, True), (2, True)]" 2 "\<lambda>_ _. Fin 100" 1 "Fin 50" Minute "[(0, False)]"]
  by (simp add: bpRun_def BackpressureRecord_def NewBackpressure_def prune_def Ready_def Let_def)


text \<open>A run into that state: a server that trips on one error loses its only job.\<close>

definition failedOnce :: Memq where
  "failedOnce = process racePulled \<lparr>qjob = demoJob ''j'', attempts = 0\<rparr> (Ret (DeadLetter, None)) 0"


end
