(* ===== verification/Workflow.thy ===== *)
theory Workflow
  imports Config Frames
begin

text \<open>
  Extraction workflows (\<open>internal/frames/workflow.go\<close>) and the FFmpeg frame source (\<open>internal/frames/ffmpeg.go\<close>):
  the guardrails on the argument templates, their rendering, and the run of the selected workflows within the
  extraction budget. The parser of \<open>text/template\<close> is an argument that yields the nodes of an argument; the
  outcome of each system call and of each process is an argument. Matching under \<open>(?i)\<close> folds ASCII letters and
  the one other character that folds to a letter of the expression.
\<close>

section \<open>Templates (text/template)\<close>

datatype TArg = FieldNode "string list" | OtherArgNode

record PipeNode =
  pnDecl :: nat
  pnCmds :: "TArg list list"

text \<open>A node carries its own text where a message quotes it.\<close>

datatype Node = TextNode string | ActionNode PipeNode string | OtherNode string

type_synonym templateParser = "string \<Rightarrow> Node list res"

record TemplateValues =
  tvInput :: string
  tvWorkDir :: string
  tvMaxFrames :: int
  tvMaxWidth :: int

definition allowedPlaceholders :: "string list" where
  "allowedPlaceholders = [''Input'', ''WorkDir'', ''MaxFrames'', ''MaxWidth'']"

definition fieldValue :: "TemplateValues \<Rightarrow> string \<Rightarrow> string res" where
  "fieldValue v f =
     (if f = ''Input'' then Inr (tvInput v) else if f = ''WorkDir'' then Inr (tvWorkDir v)
      else if f = ''MaxFrames'' then Inr (show_int (tvMaxFrames v)) else if f = ''MaxWidth'' then Inr (show_int (tvMaxWidth v))
      else Inl (errorf (''template: arg: can't evaluate field '' @ f @ '' in type frames.TemplateValues'')))"

section \<open>Guardrails (workflow.go)\<close>

definition forbiddenProtoAlternatives :: "string list" where
  "forbiddenProtoAlternatives =
     [''http'', ''https'', ''rtmp'', ''rtmps'', ''rtmpe'', ''rtmpes'', ''rtmpt'', ''rtmpts'', ''rtmpte'', ''rtmptes'', ''rtsp'', ''concat'',
      ''pipe'', ''subfile'', ''data'', ''tcp'', ''udp'', ''rtp'', ''srt'', ''srtp'', ''ftp'', ''sftp'', ''smb'', ''gopher'', ''crypto'', ''cache'',
      ''async'', ''hls'', ''tls'', ''unix'', ''fd'', ''file'']"

text \<open>U+017F folds to \<open>s\<close>.\<close>

fun foldRegexp :: "string \<Rightarrow> string" where
  "foldRegexp (c # d # s) = (if c = CHR 0xC5 \<and> d = CHR 0xBF then CHR ''s'' # foldRegexp s else lower_char c # foldRegexp (d # s))"
| "foldRegexp [c] = [lower_char c]"
| "foldRegexp [] = []"

definition forbiddenProtoRe :: "string \<Rightarrow> bool" where
  "forbiddenProtoRe arg \<longleftrightarrow>
     (let s = foldRegexp arg in
      list_ex (\<lambda>p. HasPrefix s p \<and> HasPrefix (dropWhile reSpace (drop (length p) s)) '':'') forbiddenProtoAlternatives)"

definition forbiddenProtoNames :: "string list" where
  "forbiddenProtoNames =
     [''http'', ''https'', ''rtmp'', ''rtmpe'', ''rtmps'', ''rtmpt'', ''rtmpte'', ''rtmpts'', ''rtsp'', ''concat'', ''concatf'', ''pipe'', ''subfile'',
      ''data'', ''tcp'', ''udp'', ''rtp'', ''srt'', ''srtp'', ''ftp'', ''sftp'', ''smb'', ''gopher'', ''gophers'', ''crypto'', ''cache'', ''async'',
      ''hls'', ''tls'', ''unix'', ''fd'', ''file'', ''ipfs'', ''ipns'', ''amqp'', ''zmq'', ''icecast'']"

definition wfErr :: "string \<Rightarrow> string \<Rightarrow> goerr" where
  "wfErr name msg = errorf (''workflow '' @ quoted name @ '': '' @ msg)"

definition forbiddenArg :: "string \<Rightarrow> bool" where
  "forbiddenArg arg \<longleftrightarrow>
     forbiddenProtoRe arg \<or> Contains arg ''://''
     \<or> (case IndexByte arg (CHR '':'') of
          None \<Rightarrow> False
        | Some idx \<Rightarrow> idx > 1 \<and> list_ex (\<lambda>tok. TrimSpace tok \<in> set forbiddenProtoNames) (SplitByte (ToLower (take idx arg)) (CHR '','')))"

definition checkForbidden :: "string \<Rightarrow> nat \<Rightarrow> string \<Rightarrow> goerr option" where
  "checkForbidden name i arg =
     (if forbiddenArg arg then
        Some (wfErr name (''arg '' @ show_nat i @ '' ('' @ quoted arg @ '') references a forbidden protocol '' @ emDash
          @ '' only plain local paths are permitted (SSRF/exfiltration guard)''))
      else None)"

definition looksAbsolutePath :: "string \<Rightarrow> bool" where
  "looksAbsolutePath arg \<longleftrightarrow>
     HasPrefix arg ''/''
     \<or> length arg \<ge> 3 \<and> arg ! 1 = CHR '':'' \<and> (arg ! 2 = CHR 0x5C \<or> arg ! 2 = CHR ''/'')"

definition bareField :: "PipeNode \<Rightarrow> string option" where
  "bareField pipe =
     (if pnDecl pipe \<noteq> 0 then None
      else case pnCmds pipe of [[FieldNode [f]]] \<Rightarrow> Some f | _ \<Rightarrow> None)"

definition shapeNode :: "string \<Rightarrow> nat \<Rightarrow> string \<Rightarrow> Node \<Rightarrow> goerr option" where
  "shapeNode name i arg n =
     (case n of
        TextNode s \<Rightarrow> None
      | ActionNode pipe str \<Rightarrow>
          (case bareField pipe of
             None \<Rightarrow> Some (wfErr name (''arg '' @ show_nat i @ '' ('' @ quoted arg
               @ ''): only bare placeholders are allowed, not template expressions like '' @ quoted str
               @ '' (allowed: Input, WorkDir, MaxFrames, MaxWidth)''))
           | Some f \<Rightarrow>
               if f \<in> set allowedPlaceholders then None
               else Some (wfErr name (''arg '' @ show_nat i @ '' uses unknown placeholder {{.'' @ f
                 @ ''}} (allowed: Input, WorkDir, MaxFrames, MaxWidth)'')))
      | OtherNode str \<Rightarrow> Some (wfErr name (''arg '' @ show_nat i @ '' ('' @ quoted arg
          @ ''): template control structures are not allowed ('' @ quoted str @ '')'')))"

fun firstErr :: "('a \<Rightarrow> goerr option) \<Rightarrow> 'a list \<Rightarrow> goerr option" where
  "firstErr f [] = None"
| "firstErr f (x # xs) = (case f x of Some e \<Rightarrow> Some e | None \<Rightarrow> firstErr f xs)"

definition checkTemplateShape :: "templateParser \<Rightarrow> string \<Rightarrow> nat \<Rightarrow> string \<Rightarrow> goerr option" where
  "checkTemplateShape tparse name i arg =
     (case tparse arg of
        Inl e \<Rightarrow> Some (wrapf (''workflow '' @ quoted name @ '': arg '' @ show_nat i @ '' ('' @ quoted arg @ ''): '') e)
      | Inr nodes \<Rightarrow> firstErr (shapeNode name i arg) nodes)"

section \<open>Rendering (workflow.go)\<close>

text \<open>Executing a node; what is not a bare field is outside, and validation refuses it.\<close>

definition execNode :: "(Node \<Rightarrow> TemplateValues \<Rightarrow> string res) \<Rightarrow> TemplateValues \<Rightarrow> Node \<Rightarrow> string res" where
  "execNode other v n =
     (case n of
        TextNode s \<Rightarrow> Inr s
      | ActionNode pipe str \<Rightarrow> (case bareField pipe of Some f \<Rightarrow> fieldValue v f | None \<Rightarrow> other n v)
      | OtherNode str \<Rightarrow> other n v)"

fun execNodes :: "(Node \<Rightarrow> TemplateValues \<Rightarrow> string res) \<Rightarrow> TemplateValues \<Rightarrow> Node list \<Rightarrow> string res" where
  "execNodes other v [] = Inr []"
| "execNodes other v (n # ns) =
     (case execNode other v n of
        Inl e \<Rightarrow> Inl e
      | Inr s \<Rightarrow> (case execNodes other v ns of Inl e \<Rightarrow> Inl e | Inr t \<Rightarrow> Inr (s @ t)))"

text \<open>The template package: its parser, and the execution of what is not a bare field.\<close>

record Templates =
  tmplParse :: templateParser
  tmplOther :: "Node \<Rightarrow> TemplateValues \<Rightarrow> string res"

definition renderArg :: "Templates \<Rightarrow> TemplateValues \<Rightarrow> nat \<Rightarrow> string \<Rightarrow> string res" where
  "renderArg tm v i arg =
     (if \<not> Contains arg ''{{'' then Inr arg
      else case (case tmplParse tm arg of Inl e \<Rightarrow> Inl e | Inr ns \<Rightarrow> execNodes (tmplOther tm) v ns) of
          Inl e \<Rightarrow> Inl (wrapf (''arg '' @ show_nat i @ '' ('' @ quoted arg @ ''): '') e)
        | Inr s \<Rightarrow> Inr s)"

fun renderArgs :: "Templates \<Rightarrow> TemplateValues \<Rightarrow> nat \<Rightarrow> string list \<Rightarrow> string list res" where
  "renderArgs tm v i [] = Inr []"
| "renderArgs tm v i (a # as) =
     (case renderArg tm v i a of
        Inl e \<Rightarrow> Inl e
      | Inr s \<Rightarrow> (case renderArgs tm v (i + 1) as of Inl e \<Rightarrow> Inl e | Inr ss \<Rightarrow> Inr (s # ss)))"

definition RenderWorkflow :: "Templates \<Rightarrow> WorkflowConfig \<Rightarrow> TemplateValues \<Rightarrow> string list res" where
  "RenderWorkflow tm wfc v =
     (case renderArgs tm v 0 (wfArgs wfc) of
        Inl e \<Rightarrow> Inl e
      | Inr out \<Rightarrow> Inr (if ''-nostdin'' \<in> set out then out else ''-nostdin'' # out))"

section \<open>Validation (workflow.go)\<close>

definition checkInput :: "string \<Rightarrow> string option \<Rightarrow> string \<Rightarrow> goerr option" where
  "checkInput name prev arg =
     (if Contains arg ''{{.Input}}'' then
        (if arg \<noteq> ''{{.Input}}'' then
           Some (wfErr name (''{{.Input}} must be a standalone argument, not embedded in '' @ quoted arg))
         else if prev \<noteq> Some ''-i'' then Some (wfErr name ''{{.Input}} may only appear immediately after -i'')
         else None)
      else None)"

fun checkArgs :: "templateParser \<Rightarrow> string \<Rightarrow> nat \<Rightarrow> string option \<Rightarrow> string list \<Rightarrow> goerr option" where
  "checkArgs tparse name i prev [] = None"
| "checkArgs tparse name i prev (arg # args) =
     (case checkTemplateShape tparse name i arg of
        Some e \<Rightarrow> Some e
      | None \<Rightarrow>
          (case checkInput name prev arg of
             Some e \<Rightarrow> Some e
           | None \<Rightarrow>
               (case checkForbidden name i arg of
                  Some e \<Rightarrow> Some e
                | None \<Rightarrow> checkArgs tparse name (i + 1) (Some arg) args)))"

definition checkOtherArg :: "string \<Rightarrow> nat \<times> string \<Rightarrow> goerr option" where
  "checkOtherArg name ia =
     (case ia of (i, arg) \<Rightarrow>
        if arg = ''{{.Input}}'' then None
        else if Contains arg ''{{.WorkDir}}'' then
          Some (wfErr name (''arg '' @ show_nat i @ '': {{.WorkDir}} is only permitted in the final output argument''))
        else if looksAbsolutePath arg then
          Some (wfErr name (''arg '' @ show_nat i @ '' ('' @ quoted arg @ ''): absolute paths other than {{.Input}}/{{.WorkDir}} are forbidden''))
        else None)"

definition checkRenderedArg :: "string \<Rightarrow> string \<Rightarrow> string \<Rightarrow> nat \<times> string \<Rightarrow> goerr option" where
  "checkRenderedArg name input workDir ia =
     (case ia of (i, arg) \<Rightarrow>
        case checkForbidden name i arg of
          Some e \<Rightarrow> Some e
        | None \<Rightarrow>
            if Contains arg ''..'' then
              Some (wfErr name (''rendered arg '' @ show_nat i @ '' ('' @ quoted arg @ '') contains path traversal''))
            else if arg = input \<or> HasPrefix arg workDir then None
            else if looksAbsolutePath arg then
              Some (wfErr name (''rendered arg '' @ show_nat i @ '' ('' @ quoted arg @ ''): absolute paths other than {{.Input}}/{{.WorkDir}} are forbidden''))
            else None)"

definition checkRenderedArgs :: "string \<Rightarrow> string list \<Rightarrow> string \<Rightarrow> string \<Rightarrow> goerr option" where
  "checkRenderedArgs name rendered input workDir =
     (case firstErr (checkRenderedArg name input workDir) (enumerate 0 rendered) of
        Some e \<Rightarrow> Some e
      | None \<Rightarrow>
          (let dashI = count_list rendered ''-i'' in
           if dashI \<noteq> 1 then
             Some (wfErr name (''rendered args contain '' @ show_nat dashI @ '' '' @ quoted ''-i'' @ '' (want exactly 1); users cannot inject a second input''))
           else if rendered = [] \<or> \<not> HasPrefix (last rendered) workDir then Some (wfErr name ''rendered output escapes the WorkDir'')
           else None))"

definition syntheticValues :: "FFmpegConfig \<Rightarrow> TemplateValues" where
  "syntheticValues cfg = \<lparr>tvInput = ''/synthetic/input.mp4'', tvWorkDir = ''/synthetic/workdir'', tvMaxFrames = MaxFrames cfg, tvMaxWidth = MaxWidth cfg\<rparr>"

definition ValidateWorkflow :: "Templates \<Rightarrow> string \<Rightarrow> WorkflowConfig \<Rightarrow> FFmpegConfig \<Rightarrow> goerr option" where
  "ValidateWorkflow tm name wfc cfg =
     (let args = wfArgs wfc in
      if args = [] then Some (wfErr name ''empty args'')
      else if MaxFrames cfg \<le> 0 then Some (wfErr name ''ffmpeg.max_frames must be > 0 (hard cost/disk cap)'')
      else case checkArgs (tmplParse tm) name 0 None args of
          Some e \<Rightarrow> Some e
        | None \<Rightarrow>
            (let inputCount = length (filter (\<lambda>a. Contains a ''{{.Input}}'') args); dashICount = count_list args ''-i''; out = last args in
             if dashICount \<noteq> 1 \<or> inputCount \<noteq> 1 then
               Some (wfErr name (''exactly one '' @ quoted ''-i'' @ '' '' @ quoted ''{{.Input}}'' @ '' pair is required (found '' @ show_nat dashICount
                 @ '' -i, '' @ show_nat inputCount @ '' {{.Input}}); users cannot inject a second input''))
             else if \<not> HasPrefix out ''{{.WorkDir}}/'' \<and> \<not> HasPrefix out (''{{.WorkDir}}'' @ [CHR 0x5C]) then
               Some (wfErr name (''output '' @ quoted out @ '' must live under {{.WorkDir}} (output confinement)''))
             else case firstErr (checkOtherArg name) (enumerate 0 (butlast args)) of
                 Some e \<Rightarrow> Some e
               | None \<Rightarrow>
                   (case RenderWorkflow tm wfc (syntheticValues cfg) of
                      Inl e \<Rightarrow> Some (wrapf (''workflow '' @ quoted name @ '': dry-render: '') e)
                    | Inr rendered \<Rightarrow> checkRenderedArgs name rendered ''/synthetic/input.mp4'' ''/synthetic/workdir'')))"

definition workflowNames :: "FFmpegConfig \<Rightarrow> string list" where
  "workflowNames cfg = map fst (FFmpegConfig.Workflows cfg)"

definition ValidateAll :: "Templates \<Rightarrow> FFmpegConfig \<Rightarrow> goerr option" where
  "ValidateAll tm cfg =
     (if FFmpegConfig.Workflows cfg = [] then Some (errorf ''no ffmpeg workflows configured'')
      else if map_of (FFmpegConfig.Workflows cfg) (DefaultWorkflow cfg) = None then
        Some (errorf (''default_workflow '' @ quoted (DefaultWorkflow cfg) @ '' is not defined (have: ['' @ Join (workflowNames cfg) '' '' @ ''])''))
      else firstErr (\<lambda>(name, wfc). ValidateWorkflow tm name wfc cfg) (FFmpegConfig.Workflows cfg))"

section \<open>Extraction (ffmpeg.go)\<close>

definition ValidateBinaries :: "(string \<Rightarrow> goerr option) \<Rightarrow> FFmpegConfig \<Rightarrow> goerr option" where
  "ValidateBinaries lookPath cfg =
     firstErr (\<lambda>bin. if bin = [] then Some (errorf ''ffmpeg/ffprobe path is empty'')
        else case lookPath bin of
            Some e \<Rightarrow> Some (wrapf (''required binary '' @ quoted bin @ '' not found on PATH (or configured path): '') e)
          | None \<Rightarrow> None) [FFmpegPath cfg, FFprobePath cfg]"

definition sanitizeDirName :: "string \<Rightarrow> string" where
  "sanitizeDirName name =
     map (\<lambda>r. let n = of_char (hd r) :: nat in
       if length r = 1 \<and> (97 \<le> n \<and> n \<le> 122 \<or> 65 \<le> n \<and> n \<le> 90 \<or> 48 \<le> n \<and> n \<le> 57 \<or> n = 45 \<or> n = 95)
       then hd r else CHR ''_'') (runes name)"

definition tailText :: "string \<Rightarrow> nat \<Rightarrow> string" where
  "tailText s n =
     (let t = TrimSpace s in if length t \<le> n then t else [CHR 0xE2, CHR 0x80, CHR 0xA6] @ drop (length t - n) t)"

text \<open>The outcomes of the calls of one extraction. A run of FFmpeg is numbered, gets the rendered arguments, and
  answers with its error and what it wrote to its standard error stream, in pieces; the listing after it is
  that of the directory.\<close>

record FFWorld =
  fwTemplates :: Templates
  fwAbs :: "string \<Rightarrow> string res"
  fwStat :: "string \<Rightarrow> goerr option"
  fwMkdirTemp :: "string res"
  fwMkdirAll :: "string \<Rightarrow> goerr option"
  fwProbe :: "string \<Rightarrow> goerr option"
  fwRun :: "nat \<Rightarrow> string list \<Rightarrow> goerr option \<times> string list"
  fwGlob :: "nat \<Rightarrow> string \<Rightarrow> string list res"

fun collectFrom :: "nat \<Rightarrow> string list \<Rightarrow> float64 list \<Rightarrow> Frame list" where
  "collectFrom i [] ts = []"
| "collectFrom i (p # ps) ts =
     \<lparr>fIndex = i, fTimestampSec = (if i < length ts then ts ! i else Fin (of_nat i)), fPath = p\<rparr> # collectFrom (i + 1) ps ts"

definition collect :: "FFWorld \<Rightarrow> nat \<Rightarrow> string \<Rightarrow> float64 list \<Rightarrow> Frame list res" where
  "collect w k workDir ts =
     (case fwGlob w k (workDir @ ''/*.png'') of Inl e \<Rightarrow> Inl e | Inr entries \<Rightarrow> Inr (collectFrom 0 (sort entries) ts))"

definition runWorkflow :: "FFWorld \<Rightarrow> FFmpegConfig \<Rightarrow> nat \<Rightarrow> string \<Rightarrow> string \<Rightarrow> string \<Rightarrow> int \<Rightarrow> Frame list res" where
  "runWorkflow w cfg k name input jobDir budget =
     (let wfc = (case map_of (FFmpegConfig.Workflows cfg) name of Some x \<Rightarrow> x | None \<Rightarrow> \<lparr>wfDescription = [], wfArgs = []\<rparr>);
          subDir = (if sanitizeDirName name = [] then jobDir else jobDir @ ''/'' @ sanitizeDirName name)
      in case fwMkdirAll w subDir of
          Some e \<Rightarrow> Inl (wrapf (''workflow '' @ quoted name @ '': workdir: '') e)
        | None \<Rightarrow>
            (case RenderWorkflow (fwTemplates w) wfc \<lparr>tvInput = input, tvWorkDir = subDir, tvMaxFrames = budget, tvMaxWidth = MaxWidth cfg\<rparr> of
               Inl e \<Rightarrow> Inl (wrapf (''render workflow '' @ quoted name @ '': '') e)
             | Inr args \<Rightarrow>
                 (let (err, chunks) = fwRun w k args; sc = scanChunks chunks in
                  case err of
                    Some e \<Rightarrow> Inl (e\<lparr>emsg := ''ffmpeg workflow '' @ quoted name @ '' failed: '' @ emsg e @ '' (stderr tail: '' @ tailText (stail sc) 400 @ '')''\<rparr>)
                  | None \<Rightarrow> collect w k subDir (timestamps sc))))"

text \<open>The loop over the selected workflows, then the cut to the budget: a negative budget panics in the slice.\<close>

fun runAll :: "FFWorld \<Rightarrow> FFmpegConfig \<Rightarrow> string \<Rightarrow> string \<Rightarrow> int \<Rightarrow> nat \<Rightarrow> string list \<Rightarrow> Frame list \<Rightarrow> Frame list res" where
  "runAll w cfg input workDir budget k [] frames = Inr frames"
| "runAll w cfg input workDir budget k (name # names) frames =
     (if int (length frames) \<ge> budget then Inr frames
      else case runWorkflow w cfg k name input workDir budget of
          Inl e \<Rightarrow> Inl e
        | Inr fs \<Rightarrow> runAll w cfg input workDir budget (k + 1) names (frames @ fs))"

text \<open>What one call leaves: the frames or the error, the directory its cleanup closure removes (none for the
  no-op), the temporary directory it made, and what it removed itself.\<close>

record FramesOut =
  foFrames :: "Frame list res"
  foCleanup :: "string option"
  foMade :: "string option"
  foRemoved :: "string list"

definition noopExit :: "goerr \<Rightarrow> FramesOut call" where
  "noopExit e = Ret \<lparr>foFrames = Inl e, foCleanup = None, foMade = None, foRemoved = []\<rparr>"

definition cutToBudget :: "int \<Rightarrow> Frame list \<Rightarrow> (Frame list \<times> string list) call" where
  "cutToBudget budget frames =
     (if int (length frames) > budget then
        (if budget < 0 then Panicked ''slice bounds out of range''
         else Ret (take (nat budget) frames, map fPath (drop (nat budget) frames)))
      else Ret (frames, []))"

text \<open>After the temporary directory is made. \<open>filepath.Abs\<close> answers the empty path with its error, so the removal on
  that branch names the empty path.\<close>

definition extractInto :: "FFWorld \<Rightarrow> FFmpegConfig \<Rightarrow> string \<Rightarrow> string list \<Rightarrow> string \<Rightarrow> FramesOut call" where
  "extractInto w cfg absPath workflows tmp =
     (case fwAbs w tmp of
        Inl e \<Rightarrow> Ret \<lparr>foFrames = Inl (wrapf ''resolve workdir: '' e), foCleanup = None, foMade = Some tmp, foRemoved = [[]]\<rparr>
      | Inr workDir \<Rightarrow>
          (case fwProbe w absPath of
             Some e \<Rightarrow> Ret \<lparr>foFrames = Inl (wrapf ''ffprobe: input is not parseable media: '' e), foCleanup = Some workDir, foMade = Some tmp, foRemoved = []\<rparr>
           | None \<Rightarrow>
               (case runAll w cfg absPath workDir (ExtractBudget cfg) 0 workflows [] of
                  Inl e \<Rightarrow> Ret \<lparr>foFrames = Inl e, foCleanup = Some workDir, foMade = Some tmp, foRemoved = []\<rparr>
                | Inr frames \<Rightarrow>
                    (case cutToBudget (ExtractBudget cfg) frames of
                       Panicked m \<Rightarrow> Panicked m
                     | Ret (fs, gone) \<Rightarrow>
                         Ret \<lparr>foFrames = Inr (reindex 0 fs), foCleanup = Some workDir, foMade = Some tmp, foRemoved = gone\<rparr>))))"

definition FramesOf :: "FFWorld \<Rightarrow> FFmpegConfig \<Rightarrow> string \<Rightarrow> string list \<Rightarrow> FramesOut call" where
  "FramesOf w cfg videoPath workflows0 =
     (case fwAbs w videoPath of
        Inl e \<Rightarrow> noopExit (wrapf ''resolve input: '' e)
      | Inr absPath \<Rightarrow>
          if Contains videoPath ''://'' \<or> forbiddenProtoRe videoPath then
            noopExit (errorf (''input '' @ quoted videoPath @ '' is not a plain local path''))
          else case fwStat w absPath of
              Some e \<Rightarrow> noopExit (wrapf ''input: '' e)
            | None \<Rightarrow>
                (let workflows = (if workflows0 = [] then [DefaultWorkflow cfg] else workflows0) in
                 case find (\<lambda>n. map_of (FFmpegConfig.Workflows cfg) n = None) workflows of
                   Some n \<Rightarrow> noopExit (errorf (''workflow '' @ quoted n @ '' not configured (have: ['' @ Join (workflowNames cfg) '' '' @ ''])''))
                 | None \<Rightarrow>
                     (case fwMkdirTemp w of
                        Inl e \<Rightarrow> noopExit (wrapf ''create workdir: '' e)
                      | Inr tmp \<Rightarrow> extractInto w cfg absPath workflows tmp)))"

section \<open>Facts about rendering\<close>

lemma firstErr_None: "firstErr f xs = None \<longleftrightarrow> (\<forall>x \<in> set xs. f x = None)"
  by (induction xs) (auto split: option.splits)

text \<open>The shape the guardrails leave: text and allowed bare fields.\<close>

definition plainNode :: "Node \<Rightarrow> bool" where
  "plainNode n = (case n of TextNode s \<Rightarrow> True | ActionNode p s \<Rightarrow> (\<exists>f \<in> set allowedPlaceholders. bareField p = Some f) | OtherNode s \<Rightarrow> False)"

definition plainArg :: "Templates \<Rightarrow> string \<Rightarrow> bool" where
  "plainArg tm a \<longleftrightarrow> (\<exists>ns. tmplParse tm a = Inr ns \<and> list_all plainNode ns)"

lemma shapeNode_plain: "shapeNode name i arg n = None \<Longrightarrow> plainNode n"
  by (cases n) (auto simp: shapeNode_def plainNode_def split: option.splits if_splits)

lemma shape_plain:
  assumes "checkTemplateShape (tmplParse tm) name i a = None"
  shows "plainArg tm a"
proof (cases "tmplParse tm a")
  case (Inr ns)
  then have "\<forall>n \<in> set ns. shapeNode name i a n = None" using assms by (simp add: checkTemplateShape_def firstErr_None)
  then have "list_all plainNode ns" unfolding list_all_iff using shapeNode_plain by blast
  then show ?thesis by (simp add: plainArg_def Inr)
qed (use assms in \<open>simp add: checkTemplateShape_def\<close>)

definition nodeText :: "TemplateValues \<Rightarrow> Node \<Rightarrow> string" where
  "nodeText v n = (case n of TextNode s \<Rightarrow> s | ActionNode p s \<Rightarrow> projr (fieldValue v (the (bareField p))) | OtherNode s \<Rightarrow> [])"

definition argText :: "Templates \<Rightarrow> TemplateValues \<Rightarrow> string \<Rightarrow> string" where
  "argText tm v a = (if Contains a ''{{'' then concat (map (nodeText v) (projr (tmplParse tm a))) else a)"

lemma fieldValue_ok: "f \<in> set allowedPlaceholders \<Longrightarrow> fieldValue v f = Inr (projr (fieldValue v f))"
  by (auto simp: allowedPlaceholders_def fieldValue_def)

lemma execNodes_plain: "list_all plainNode ns \<Longrightarrow> execNodes other v ns = Inr (concat (map (nodeText v) ns))"
proof (induction ns)
  case (Cons n ns)
  have "execNode other v n = Inr (nodeText v n)"
  proof (cases n)
    case (ActionNode p s)
    then obtain f where f: "f \<in> set allowedPlaceholders" "bareField p = Some f" using Cons.prems by (auto simp: plainNode_def)
    show ?thesis using fieldValue_ok [OF f(1), of v] f(2) by (simp add: ActionNode execNode_def nodeText_def)
  qed (use Cons.prems in \<open>auto simp: execNode_def nodeText_def plainNode_def\<close>)
  then show ?case using Cons by simp
qed simp

lemma renderArg_plain: "plainArg tm a \<Longrightarrow> renderArg tm v i a = Inr (argText tm v a)"
  by (auto simp: renderArg_def argText_def plainArg_def execNodes_plain)

lemma renderArgs_plain: "list_all (plainArg tm) as \<Longrightarrow> renderArgs tm v i as = Inr (map (argText tm v) as)"
  by (induction as arbitrary: i) (simp_all add: renderArg_plain)

text \<open>No value renders to a piece of \<open>-i\<close>: a path holds a slash, a number a digit.\<close>

lemma show_nat_digits: "show_nat n \<noteq> [] \<and> list_all digitChar (show_nat n)"
proof (induction n rule: show_nat.induct)
  case (1 n)
  have "digitChar (char_of (48 + m :: nat))" if "m < 10" for m :: nat using that by (simp add: digitChar_def Let_def)
  then show ?case using 1 by (cases "n < 10") (simp_all add: show_nat.simps [of n])
qed

lemma show_int_digit: "\<exists>c \<in> set (show_int n). digitChar c"
proof -
  have "\<exists>c \<in> set (show_nat k). digitChar c" for k using show_nat_digits [of k] by (cases "show_nat k") auto
  then show ?thesis by (auto simp: show_int_def)
qed

lemma digit_not_dash: "digitChar c \<Longrightarrow> c \<notin> set ''-i''"
  by (auto simp: digitChar_def)

lemma field_not_dash:
  assumes "f \<in> set allowedPlaceholders" "HasPrefix (tvInput v) ''/''" "HasPrefix (tvWorkDir v) ''/''"
  shows "\<exists>c \<in> set (projr (fieldValue v f)). c \<notin> set ''-i''"
proof -
  have p: "\<exists>c \<in> set s. c \<notin> set ''-i''" if "HasPrefix s ''/''" for s using that by (cases s) (auto simp: HasPrefix_def)
  have n: "\<exists>c \<in> set (show_int m). c \<notin> set ''-i''" for m
    using show_int_digit [of m] by (rule bexE) (blast dest: digit_not_dash)
  consider "f = ''Input''" | "f = ''WorkDir''" | "f = ''MaxFrames''" | "f = ''MaxWidth''"
    using assms(1) unfolding allowedPlaceholders_def by auto
  then show ?thesis
  proof cases
    case 1 show ?thesis using p [OF assms(2)] by (simp add: 1 fieldValue_def)
  next
    case 2 show ?thesis using p [OF assms(3)] by (simp add: 2 fieldValue_def)
  next
    case 3 show ?thesis using n [of "tvMaxFrames v"] by (simp add: 3 fieldValue_def)
  next
    case 4 show ?thesis using n [of "tvMaxWidth v"] by (simp add: 4 fieldValue_def)
  qed
qed

lemma argText_dash:
  assumes "plainArg tm a" "HasPrefix (tvInput v) ''/''" "HasPrefix (tvWorkDir v) ''/''" "argText tm v a = ''-i''"
  shows "argText tm v' a = ''-i''"
proof (cases "Contains a ''{{''")
  case True
  obtain ns where ns: "tmplParse tm a = Inr ns" "list_all plainNode ns" using assms(1) by (auto simp: plainArg_def)
  have t: "concat (map (nodeText v) ns) = ''-i''" using assms(4) True ns(1) by (simp add: argText_def)
  have "nodeText v n = nodeText v' n" if n: "n \<in> set ns" for n
  proof (cases n)
    case (ActionNode p s)
    have "plainNode n" using ns(2) n by (simp add: list_all_iff)
    then obtain f where f: "f \<in> set allowedPlaceholders" "bareField p = Some f" unfolding ActionNode by (auto simp: plainNode_def)
    obtain c where "c \<in> set (nodeText v n)" "c \<notin> set ''-i''" using field_not_dash [OF f(1) assms(2,3)] by (auto simp: ActionNode nodeText_def f(2))
    moreover have "set (nodeText v n) \<subseteq> set (concat (map (nodeText v) ns))" using n by auto
    ultimately show ?thesis unfolding t by blast
  qed (simp_all add: nodeText_def)
  then have "concat (map (nodeText v') ns) = ''-i''" unfolding t [symmetric] by (simp cong: map_cong)
  then show ?thesis using True ns(1) by (simp add: argText_def)
qed (use assms(4) in \<open>simp add: argText_def\<close>)

lemma count_list_le: "(\<And>a. a \<in> set xs \<Longrightarrow> f a = c \<Longrightarrow> g a = c) \<Longrightarrow> count_list (map f xs) c \<le> count_list (map g xs) c"
  by (induction xs) auto

section \<open>Facts about validation\<close>

lemma checkArgs_None:
  "checkArgs tp name i prev args = None \<Longrightarrow> k < length args \<Longrightarrow>
     checkTemplateShape tp name (i + k) (args ! k) = None \<and> checkInput name (if k = 0 then prev else Some (args ! (k - 1))) (args ! k) = None"
proof (induction args arbitrary: i prev k)
  case (Cons a args)
  then have h: "checkTemplateShape tp name i a = None" "checkInput name prev a = None" "checkArgs tp name (i + 1) (Some a) args = None"
    by (auto split: option.splits)
  show ?case
  proof (cases k)
    case (Suc m)
    then show ?thesis using Cons.IH [OF h(3), of m] Cons.prems(2) by (cases m) auto
  qed (simp add: h)
qed simp

lemma input_pair:
  assumes "checkArgs tp name 0 None args = None" "length (filter (\<lambda>a. Contains a ''{{.Input}}'') args) = 1"
  shows "\<exists>pre post. args = pre @ [''-i'', ''{{.Input}}''] @ post"
proof -
  have "filter (\<lambda>a. Contains a ''{{.Input}}'') args \<noteq> []" using assms(2) by force
  then obtain k where k: "k < length args" "Contains (args ! k) ''{{.Input}}''" by (auto simp: filter_empty_conv in_set_conv_nth)
  have "checkInput name (if k = 0 then None else Some (args ! (k - 1))) (args ! k) = None" using checkArgs_None [OF assms(1) k(1)] by simp
  then have i: "args ! k = ''{{.Input}}''" "k \<noteq> 0" "args ! (k - 1) = ''-i''" using k(2) by (auto simp: checkInput_def split: if_splits)
  obtain m where m: "k = Suc m" using i(2) by (cases k) auto
  have "drop m args = args ! m # args ! Suc m # drop (Suc (Suc m)) args"
    using k(1) by (simp add: m Cons_nth_drop_Suc)
  then have "args = take m args @ [''-i'', ''{{.Input}}''] @ drop (Suc (Suc m)) args"
    using i(1,3) append_take_drop_id [of m args] by (simp add: m)
  then show ?thesis by blast
qed

text \<open>The documented behaviour of the parser that the guardrails rely on.\<close>

definition barePipe :: "string \<Rightarrow> PipeNode" where
  "barePipe f = \<lparr>pnDecl = 0, pnCmds = [[FieldNode [f]]]\<rparr>"

definition templateLaws :: "templateParser \<Rightarrow> bool" where
  "templateLaws tparse \<longleftrightarrow>
     (\<exists>s. tparse ''{{.Input}}'' = Inr [ActionNode (barePipe ''Input'') s])
     \<and> (\<forall>c rest ns. c \<in> {CHR ''/'', CHR 0x5C} \<longrightarrow> tparse (''{{.WorkDir}}'' @ c # rest) = Inr ns \<longrightarrow>
          (\<exists>s t ns'. ns = ActionNode (barePipe ''WorkDir'') s # TextNode (c # t) # ns'))"

lemma bareField_barePipe [simp]: "bareField (barePipe f) = Some f"
  by (simp add: bareField_def barePipe_def)

lemma ValidateWorkflow_parts:
  assumes "ValidateWorkflow tm name wfc cfg = None"
  shows "wfArgs wfc \<noteq> []" "checkArgs (tmplParse tm) name 0 None (wfArgs wfc) = None" "count_list (wfArgs wfc) ''-i'' = 1"
    "length (filter (\<lambda>a. Contains a ''{{.Input}}'') (wfArgs wfc)) = 1"
    "HasPrefix (last (wfArgs wfc)) ''{{.WorkDir}}/'' \<or> HasPrefix (last (wfArgs wfc)) (''{{.WorkDir}}'' @ [CHR 0x5C])"
    "\<exists>rendered. RenderWorkflow tm wfc (syntheticValues cfg) = Inr rendered \<and> count_list rendered ''-i'' = 1"
proof -
  note v = assms [unfolded ValidateWorkflow_def Let_def]
  show ne: "wfArgs wfc \<noteq> []" using v by (auto split: if_splits)
  show c: "checkArgs (tmplParse tm) name 0 None (wfArgs wfc) = None" using v by (auto split: if_splits option.splits)
  show d: "count_list (wfArgs wfc) ''-i'' = 1" "length (filter (\<lambda>a. Contains a ''{{.Input}}'') (wfArgs wfc)) = 1"
    using v ne c by (auto split: if_splits)
  show "HasPrefix (last (wfArgs wfc)) ''{{.WorkDir}}/'' \<or> HasPrefix (last (wfArgs wfc)) (''{{.WorkDir}}'' @ [CHR 0x5C])"
    using v ne c d by (auto split: if_splits)
  show "\<exists>rendered. RenderWorkflow tm wfc (syntheticValues cfg) = Inr rendered \<and> count_list rendered ''-i'' = 1"
    using v ne c d by (auto simp: checkRenderedArgs_def Let_def split: if_splits option.splits sum.splits)
qed

lemma ValidateWorkflow_plain: "ValidateWorkflow tm name wfc cfg = None \<Longrightarrow> list_all (plainArg tm) (wfArgs wfc)"
  unfolding list_all_length using checkArgs_None ValidateWorkflow_parts(2) shape_plain by (metis add_0)

lemma RenderWorkflow_plain:
  "list_all (plainArg tm) (wfArgs wfc) \<Longrightarrow>
     RenderWorkflow tm wfc v = Inr ((if ''-nostdin'' \<in> set (map (argText tm v) (wfArgs wfc)) then [] else [''-nostdin'']) @ map (argText tm v) (wfArgs wfc))"
  by (simp add: RenderWorkflow_def renderArgs_plain)

lemma argText_workDir:
  assumes "templateLaws (tmplParse tm)" "plainArg tm a" "c \<in> {CHR ''/'', CHR 0x5C}" "HasPrefix a (''{{.WorkDir}}'' @ [c])"
  shows "HasPrefix (argText tm v a) (tvWorkDir v @ [c])"
proof -
  obtain rest where r: "a = ''{{.WorkDir}}'' @ c # rest" using assms(4) by (auto simp: HasPrefix_iff)
  obtain ns where ns: "tmplParse tm a = Inr ns" using assms(2) by (auto simp: plainArg_def)
  then obtain s t ns' where n: "ns = ActionNode (barePipe ''WorkDir'') s # TextNode (c # t) # ns'"
    using conjunct2 [OF assms(1) [unfolded templateLaws_def], rule_format, OF assms(3)] unfolding r by metis
  have "Contains a ''{{''" by (simp add: r HasPrefix_def)
  then have "argText tm v a = tvWorkDir v @ c # t @ concat (map (nodeText v) ns')"
    by (simp add: argText_def ns n nodeText_def fieldValue_def)
  then show ?thesis by (simp add: HasPrefix_def)
qed

lemma argText_input:
  assumes "templateLaws (tmplParse tm)"
  shows "argText tm v ''{{.Input}}'' = tvInput v"
proof -
  obtain s where "tmplParse tm ''{{.Input}}'' = Inr [ActionNode (barePipe ''Input'') s]" using assms unfolding templateLaws_def by blast
  then show ?thesis by (simp add: argText_def nodeText_def fieldValue_def HasPrefix_def)
qed

lemma count_split: "count_list (pre @ [c, d] @ post) c = 1 \<Longrightarrow> d \<noteq> c \<Longrightarrow> c \<notin> set pre \<union> set post"
  by (simp add: count_list_0_iff)

text \<open>The one \<open>-i\<close> of the dry render is the one of every render.\<close>

lemma one_dash:
  assumes "ValidateWorkflow tm name wfc cfg = None" "HasPrefix (tvInput v) ''/''" "HasPrefix (tvWorkDir v) ''/''"
  shows "count_list (map (argText tm v) (wfArgs wfc)) ''-i'' \<le> 1"
proof -
  note p = ValidateWorkflow_plain [OF assms(1)]
  let ?syn = "argText tm (syntheticValues cfg)"
  have "count_list (map (argText tm v) (wfArgs wfc)) ''-i'' \<le> count_list (map ?syn (wfArgs wfc)) ''-i''"
    using argText_dash [OF _ assms(2,3)] p by (intro count_list_le) (auto simp: list_all_iff)
  also have "\<dots> = 1" using ValidateWorkflow_parts(6) [OF assms(1)] by (auto simp: RenderWorkflow_plain [OF p] split: if_splits)
  finally show ?thesis .
qed

section \<open>Facts about extraction\<close>

lemma cutToBudget_bound:
  assumes "cutToBudget b fs = Ret (kept, gone)"
  shows "int (length kept) \<le> b" "map fPath fs = map fPath kept @ gone"
  using assms by (auto simp: cutToBudget_def map_append [symmetric] simp del: map_append split: if_splits)

lemma cutToBudget_total: "0 \<le> b \<Longrightarrow> \<exists>r. cutToBudget b fs = Ret r"
  by (simp add: cutToBudget_def)

lemma runAll_order:
  "runAll w cfg input d b k names acc = Inr fs \<Longrightarrow> \<exists>more. fs = acc @ more"
  by (induction names arbitrary: k acc) (fastforce split: if_splits sum.splits)+

text \<open>The extraction that follows once the directory exists.\<close>

lemma FramesOf_made:
  assumes "FramesOf w cfg video wfs = Ret out"
  shows "foMade out = None \<and> foCleanup out = None \<and> (\<exists>e. foFrames out = Inl e)
    \<or> (\<exists>absPath wfs' tmp. extractInto w cfg absPath wfs' tmp = Ret out)"
  using assms by (auto simp: FramesOf_def noopExit_def Let_def split: sum.splits option.splits if_splits)

lemma extractInto_owned:
  "extractInto w cfg absPath wfs tmp = Ret out \<Longrightarrow>
     foMade out = Some tmp \<and> foCleanup out = (case fwAbs w tmp of Inl e \<Rightarrow> None | Inr d \<Rightarrow> Some d)"
  by (auto simp: extractInto_def split: sum.splits option.splits call.splits prod.splits)

lemma extractInto_frames:
  assumes "extractInto w cfg absPath wfs tmp = Ret out" "foFrames out = Inr fs"
  shows "int (length fs) \<le> ExtractBudget cfg" "\<forall>k < length fs. fIndex (fs ! k) = k"
    "\<exists>d all. fwAbs w tmp = Inr d \<and> runAll w cfg absPath d (ExtractBudget cfg) 0 wfs [] = Inr all \<and> map fPath all = map fPath fs @ foRemoved out"
proof -
  obtain d all kept where e: "fwAbs w tmp = Inr d" "runAll w cfg absPath d (ExtractBudget cfg) 0 wfs [] = Inr all"
    "cutToBudget (ExtractBudget cfg) all = Ret (kept, foRemoved out)" "fs = reindex 0 kept"
    using assms by (auto simp: extractInto_def split: sum.splits option.splits call.splits prod.splits)
  note b = cutToBudget_bound [OF e(3)]
  show "int (length fs) \<le> ExtractBudget cfg" using b(1) by (simp add: e(4))
  show "\<forall>k < length fs. fIndex (fs ! k) = k" by (simp add: e(4) reindex_index)
  show "\<exists>d all. fwAbs w tmp = Inr d \<and> runAll w cfg absPath d (ExtractBudget cfg) 0 wfs [] = Inr all \<and> map fPath all = map fPath fs @ foRemoved out"
    using e b(2) by simp
qed

section \<open>A reader of the fragment in use\<close>

text \<open>Text and bare fields, spaces around the field allowed: enough of the template language for the shipped
  workflows, and an instance of the laws above.\<close>

fun cutAt2 :: "char \<Rightarrow> string \<Rightarrow> (string \<times> string) option" where
  "cutAt2 c (a # b # s) = (if a = c \<and> b = c then Some ([], s) else map_option (apfst ((#) a)) (cutAt2 c (b # s)))"
| "cutAt2 c _ = None"

definition miniField :: "string \<Rightarrow> string option" where
  "miniField s =
     (case TrimSpace s of
        [] \<Rightarrow> None
      | d # f \<Rightarrow> if d = CHR ''.'' \<and> f \<noteq> [] \<and> list_all (\<lambda>c. c \<in> set ''abcdefghijklmnopqrstuvwxyzABCDEFGHIJKLMNOPQRSTUVWXYZ'') f then Some f else None)"

definition textNodes :: "string \<Rightarrow> Node list" where
  "textNodes t = (if t = [] then [] else [TextNode t])"

fun miniParseN :: "nat \<Rightarrow> string \<Rightarrow> Node list res" where
  "miniParseN 0 s = Inr (textNodes s)"
| "miniParseN (Suc n) s =
     (case cutAt2 (CHR ''{'') s of
        None \<Rightarrow> Inr (textNodes s)
      | Some (t, rest) \<Rightarrow>
          (case cutAt2 (CHR ''}'') rest of
             None \<Rightarrow> Inl (errorf ''template: arg:1: unclosed action'')
           | Some (body, rest') \<Rightarrow>
               (case miniField body of
                  None \<Rightarrow> Inl (errorf ''template: arg:1: unexpected action'')
                | Some f \<Rightarrow>
                    (case miniParseN n rest' of
                       Inl e \<Rightarrow> Inl e
                     | Inr ns \<Rightarrow> Inr (textNodes t @ ActionNode (barePipe f) (''{{'' @ body @ ''}}'') # ns)))))"

definition miniParse :: templateParser where
  "miniParse s = miniParseN (length s) s"

definition miniTemplates :: Templates where
  "miniTemplates = \<lparr>tmplParse = miniParse, tmplOther = \<lambda>n v. Inl (errorf ''template: unsupported'')\<rparr>"

lemma miniField_WorkDir: "miniField ''.WorkDir'' = Some ''WorkDir''"
  by code_simp

lemma miniParseN_text:
  assumes "c \<noteq> CHR ''{''" "miniParseN n (c # rest) = Inr ns"
  shows "\<exists>t ns'. ns = TextNode (c # t) # ns'"
proof (cases "cutAt2 (CHR ''{'') (c # rest)")
  case None
  then show ?thesis using assms by (cases n) (auto simp: textNodes_def)
next
  case (Some p)
  then obtain t u where tu: "cutAt2 (CHR ''{'') (c # rest) = Some (c # t, u)"
    using assms(1) by (cases rest) (auto simp: apfst_def map_prod_def)
  show ?thesis using assms(2) tu by (cases n) (auto simp: textNodes_def split: option.splits sum.splits)
qed

lemma miniParse_laws: "templateLaws miniParse"
proof -
  have "miniParse ''{{.Input}}'' = Inr [ActionNode (barePipe ''Input'') ''{{.Input}}'']" by code_simp
  moreover have "\<exists>s t ns'. ns = ActionNode (barePipe ''WorkDir'') s # TextNode (c # t) # ns'"
    if c: "c \<in> {CHR ''/'', CHR 0x5C}" and p: "miniParse (''{{.WorkDir}}'' @ c # rest) = Inr ns" for c rest ns
  proof -
    obtain n m where n: "length (''{{.WorkDir}}'' @ c # rest) = Suc n" "n = Suc m" by simp
    obtain ns1 where ns1: "miniParseN n (c # rest) = Inr ns1" "ns = ActionNode (barePipe ''WorkDir'') ''{{.WorkDir}}'' # ns1"
      using p unfolding miniParse_def n(1) by (auto simp: miniField_WorkDir textNodes_def split: sum.splits)
    have "c \<noteq> CHR ''{''" using c by auto
    then show ?thesis using miniParseN_text [OF _ ns1(1)] ns1(2) by blast
  qed
  ultimately show ?thesis unfolding templateLaws_def by blast
qed

lemma ValidateAll_each: "ValidateAll tm cfg = None \<Longrightarrow> (n, wfc) \<in> set (FFmpegConfig.Workflows cfg) \<Longrightarrow> ValidateWorkflow tm n wfc cfg = None"
  by (auto simp: ValidateAll_def firstErr_None split: if_splits)

lemma defaults_pass_guardrails: "ValidateAll miniTemplates (cFFmpeg Defaults) = None"
  by code_simp

section \<open>Properties\<close>



definition spacedWorkflow :: WorkflowConfig where
  "spacedWorkflow = \<lparr>wfDescription = [], wfArgs = [''-i'', ''{{.Input}}'', ''-y'', ''{{ .Input }}'', ''{{.WorkDir}}/f.png'']\<rparr>"

text \<open>
  The check that pairs the input with \<open>-i\<close> reads the unspaced spelling of the placeholder only: a workflow that
  names the input again with spaces passes the guardrails, and FFmpeg gets the input file as an output to overwrite.
\<close>

theorem spaced_input_bypasses_guard:
  "ValidateWorkflow miniTemplates ''w'' spacedWorkflow (cFFmpeg Defaults) = None
   \<and> RenderWorkflow miniTemplates spacedWorkflow \<lparr>tvInput = ''/in.mp4'', tvWorkDir = ''/tmp/w'', tvMaxFrames = 9, tvMaxWidth = 8\<rparr>
     = Inr [''-nostdin'', ''-i'', ''/in.mp4'', ''-y'', ''/in.mp4'', ''/tmp/w/f.png'']"
  by code_simp

text \<open>
  C32. Extraction stays within its budget and gives up nothing it made: the frames returned are at most the budget,
  numbered from zero without gaps, and what was extracted beyond them is removed; whenever a temporary directory was
  made and its path resolved, the cleanup closure owns it, on the failing exits as well; with no directory made
  there is nothing to clean.
\<close>

theorem frames_within_budget:
  assumes "FramesOf w cfg video wfs = Ret out"
  shows "(\<forall>fs. foFrames out = Inr fs \<longrightarrow>
      int (length fs) \<le> ExtractBudget cfg \<and> (\<forall>k < length fs. fIndex (fs ! k) = k)
      \<and> (\<exists>abs d names all. runAll w cfg abs d (ExtractBudget cfg) 0 names [] = Inr all \<and> map fPath all = map fPath fs @ foRemoved out
           \<and> foCleanup out = Some d))
    \<and> (\<forall>tmp d. foMade out = Some tmp \<longrightarrow> fwAbs w tmp = Inr d \<longrightarrow> foCleanup out = Some d)
    \<and> (foMade out = None \<longrightarrow> foCleanup out = None)"
  using FramesOf_made [OF assms]
proof (elim disjE exE conjE)
  fix absPath wfs' tmp
  assume e: "extractInto w cfg absPath wfs' tmp = Ret out"
  note o = extractInto_owned [OF e] and f = extractInto_frames [OF e]
  have "foCleanup out = Some d" if "fwAbs w tmp = Inr d" for d using o that by simp
  then show ?thesis using o f by (metis option.discI option.inject)
qed simp

definition miniWorld :: FFWorld where
  "miniWorld = \<lparr>fwTemplates = miniTemplates, fwAbs = Inr, fwStat = \<lambda>_. None, fwMkdirTemp = Inr ''/tmp/v'', fwMkdirAll = \<lambda>_. None,
     fwProbe = \<lambda>_. None, fwRun = \<lambda>_ _. (None, []), fwGlob = \<lambda>_ _. Inr [''/b.png'', ''/a.png'', ''/c.png'']\<rparr>"

definition twoFrames :: FFmpegConfig where
  "twoFrames = \<lparr>FFmpegPath = ''ffmpeg'', FFprobePath = ''ffprobe'', DefaultWorkflow = ''w'', MaxFrames = 1, MaxExtractFrames = 2, MaxWidth = 8,
     ffTimeout = 0, Workflows = [(''w'', \<lparr>wfDescription = [], wfArgs = [''-i'', ''{{.Input}}'', ''{{.WorkDir}}/f.png'']\<rparr>)]\<rparr>"

theorem frames_within_budget_witness:
  "\<exists>out fs. FramesOf miniWorld twoFrames ''/in.mp4'' [] = Ret out \<and> foFrames out = Inr fs
     \<and> length fs \<le> 2 \<and> map fPath fs @ foRemoved out = [''/a.png'', ''/b.png'', ''/c.png''] \<and> foCleanup out = Some ''/tmp/v''"
proof -
  let ?cfg = twoFrames
  let ?out = "\<lparr>foFrames = Inr [\<lparr>fIndex = 0, fTimestampSec = Fin 0, fPath = ''/a.png''\<rparr>, \<lparr>fIndex = 1, fTimestampSec = Fin 1, fPath = ''/b.png''\<rparr>],
     foCleanup = Some ''/tmp/v'', foMade = Some ''/tmp/v'', foRemoved = [''/c.png'']\<rparr>"
  let ?wf = "\<lparr>wfDescription = [], wfArgs = [''-i'', ''{{.Input}}'', ''{{.WorkDir}}/f.png'']\<rparr>"
  let ?v = "\<lparr>tvInput = ''/in.mp4'', tvWorkDir = ''/tmp/v/w'', tvMaxFrames = 2, tvMaxWidth = 8\<rparr>"
  have r: "RenderWorkflow miniTemplates ?wf ?v = Inr [''-nostdin'', ''-i'', ''/in.mp4'', ''/tmp/v/w/f.png'']" by code_simp
  have c: "scanChunks [] = newScanner" by code_simp
  have d: "sanitizeDirName ''w'' = ''w''" by code_simp
  have s: "sort [''/b.png'', ''/a.png'', ''/c.png''] = [''/a.png'', ''/b.png'', ''/c.png'']" by code_simp
  have p: "forbiddenProtoRe ''/in.mp4'' = False" "Contains ''/in.mp4'' ''://'' = False" by code_simp+
  have f: "FramesOf miniWorld ?cfg ''/in.mp4'' [] = Ret ?out"
    by (simp add: FramesOf_def extractInto_def miniWorld_def twoFrames_def p d ExtractBudget_def runWorkflow_def r c newScanner_def collect_def s cutToBudget_def HasPrefix_def)
  show ?thesis using frames_within_budget [OF f] f by (intro exI [of _ ?out] exI [of _ "projr (foFrames ?out)"]) (simp add: ExtractBudget_def twoFrames_def)
qed

end
