(* ===== verification/Adapters.thy ===== *)
theory Adapters
  imports Wiring
begin

text \<open>
  The provider adapters under \<open>internal/moderate/adapters\<close>: how a provider answer becomes a result of the common
  schema, how each adapter is built from its options, the request it sends, and the managed-identity token cache.
  The decoders of \<open>encoding/json\<close> are arguments that yield the members of the documents the structs name, with a
  member that is absent or null as \<open>None\<close>; the zero value Go leaves in the struct is written out. The vision SDK,
  the transport, the clock and the operations on floating-point numbers are arguments too. The contract every
  adapter keeps is the locale \<open>adapter_contract\<close>, and each adapter interprets it.
\<close>

section \<open>Text encodings\<close>

definition base64Alphabet :: string where
  "base64Alphabet = ''ABCDEFGHIJKLMNOPQRSTUVWXYZabcdefghijklmnopqrstuvwxyz0123456789+/''"

text \<open>\<open>encoding/base64\<close>, the standard encoding with padding: three bytes at a time.\<close>

definition b64digit :: "nat \<Rightarrow> char" where
  "b64digit n = base64Alphabet ! (n mod 64)"

fun EncodeToString :: "string \<Rightarrow> string" where
  "EncodeToString (a # b # c # s) =
     (let n = of_char a * 65536 + of_char b * 256 + (of_char c :: nat)
      in b64digit (n div 262144) # b64digit (n div 4096) # b64digit (n div 64) # b64digit n # EncodeToString s)"
| "EncodeToString [a, b] =
     (let n = of_char a * 65536 + of_char b * 256 :: nat in [b64digit (n div 262144), b64digit (n div 4096), b64digit (n div 64), CHR ''=''])"
| "EncodeToString [a] =
     (let n = of_char a * 65536 :: nat in [b64digit (n div 262144), b64digit (n div 4096), CHR ''='', CHR ''=''])"
| "EncodeToString [] = []"

text \<open>A string value as \<open>json.Marshal\<close> writes it.\<close>

definition marshalString :: "string \<Rightarrow> string" where
  "marshalString s = escapeHTML (writeJCSString s)"

definition jmember :: "string \<Rightarrow> string \<Rightarrow> string" where
  "jmember k v = quoted k @ '':'' @ v"

section \<open>Requests and the transport\<close>

record Request =
  rqURL :: string
  rqBody :: string
  rqHeader :: "(string \<times> string) list"

text \<open>The outcomes of one call of an adapter, per attempt: waiting for the limiter, building the request, the token
  of the identity service, the round trip and the sleep after it. The multipart writer draws a boundary of its own.\<close>

record Transport =
  trWait :: "nat \<Rightarrow> goerr option"
  trNew :: "nat \<Rightarrow> goerr option"
  trToken :: "nat \<Rightarrow> string res"
  trMultipart :: "nat \<Rightarrow> string \<Rightarrow> string \<Rightarrow> string \<Rightarrow> string \<times> string"
  trSend :: "nat \<Rightarrow> Request \<Rightarrow> RoundTrip"
  trSleep :: "nat \<Rightarrow> goerr option"

definition NewJSONRequest :: "goerr option \<Rightarrow> string \<Rightarrow> string \<Rightarrow> Request res" where
  "NewJSONRequest err url body =
     (case err of Some e \<Rightarrow> Inl e | None \<Rightarrow> Inr \<lparr>rqURL = url, rqBody = body, rqHeader = [(''Content-Type'', ''application/json'')]\<rparr>)"

definition NewMultipartRequest :: "Transport \<Rightarrow> nat \<Rightarrow> string \<Rightarrow> string \<Rightarrow> string \<Rightarrow> string \<Rightarrow> Request res" where
  "NewMultipartRequest t a url field filename bytes =
     (case trNew t a of
        Some e \<Rightarrow> Inl e
      | None \<Rightarrow> (let (body, ctype) = trMultipart t a field filename bytes
                 in Inr \<lparr>rqURL = url, rqBody = body, rqHeader = [(''Content-Type'', ctype)]\<rparr>))"

definition setHeader :: "string \<Rightarrow> string \<Rightarrow> Request \<Rightarrow> Request" where
  "setHeader k v r = r\<lparr>rqHeader := AList.update k v (rqHeader r)\<rparr>"

text \<open>The world of \<open>DoJSON\<close> around the builder of an adapter.\<close>

definition worldOf :: "Transport \<Rightarrow> (nat \<Rightarrow> Request res) \<Rightarrow> HttpWorld" where
  "worldOf t build =
     \<lparr>hwBuild = (\<lambda>a. case build a of Inl e \<Rightarrow> Some e | Inr r \<Rightarrow> None),
      hwDo = (\<lambda>a. case build a of Inl e \<Rightarrow> NetErr e | Inr r \<Rightarrow> trSend t a r),
      hwSleep = trSleep t\<rparr>"

definition okResult :: "string \<Rightarrow> string \<Rightarrow> CategoryResult list \<Rightarrow> string \<Rightarrow> NormalizedResult" where
  "okResult provider version cats raw =
     zeroResult\<lparr>Provider := provider, nrModelVersion := version, nrFrames := [zeroFrame\<lparr>Status := FrameOK, Categories := cats\<rparr>], Raw := raw\<rparr>"

definition catResult :: "Category \<Rightarrow> string \<Rightarrow> float64 option \<Rightarrow> ScoreOrigin \<Rightarrow> CategoryResult" where
  "catResult cat label s origin =
     \<lparr>crCategory = cat, ProviderLabel = label, Score = s, crScoreOrigin = origin, Threshold = None, Flagged = False\<rparr>"

definition categoryOr :: "(string \<times> Category) list \<Rightarrow> string \<Rightarrow> Category" where
  "categoryOr m k = (case map_of m k of Some c \<Rightarrow> c | None \<Rightarrow> CategoryOther)"

section \<open>Google SafeSearch (google.go)\<close>

definition DefaultLikelihoodScores :: "(string \<times> float64) list" where
  "DefaultLikelihoodScores =
     [(''VERY_UNLIKELY'', Fin 0), (''UNLIKELY'', Fin (1 / 4)), (''POSSIBLE'', Fin (1 / 2)), (''LIKELY'', Fin (3 / 4)), (''VERY_LIKELY'', Fin 1)]"

definition googleCategoryMap :: "(string \<times> Category) list" where
  "googleCategoryMap =
     [(''adult'', CategorySexual), (''racy'', CategorySuggestiveRacy), (''violence'', CategoryViolence), (''medical'', CategoryMedical),
      (''spoof'', CategorySpoof)]"

record googleOptions =
  goRateLimitRPS :: float64
  goLikelihoodScores :: "(string \<times> float64) list"

record googleModerator =
  gmRPS :: float64
  gmLookup :: "(string \<times> float64) list"

text \<open>The values of an annotation are numbers of the protocol; the SDK names them.\<close>

record SafeSearchAnnotation =
  ssAdult :: int
  ssSpoof :: int
  ssMedical :: int
  ssViolence :: int
  ssRacy :: int

definition googleNewWith :: "googleOptions \<Rightarrow> googleModerator" where
  "googleNewWith opts =
     \<lparr>gmRPS = (if goRateLimitRPS opts = Fin 0 then Fin 15 else goRateLimitRPS opts),
      gmLookup = foldl (\<lambda>m kv. AList.update (ToUpper (fst kv)) (snd kv) m) DefaultLikelihoodScores (goLikelihoodScores opts)\<rparr>"

definition googleNew :: "googleOptions res \<Rightarrow> goerr option \<Rightarrow> googleModerator res" where
  "googleNew options clientErr =
     (case options of
        Inl e \<Rightarrow> Inl (wrapf ''google: options: '' e)
      | Inr opts \<Rightarrow>
          (case clientErr of
             Some e \<Rightarrow> Inl (wrapf ''google: vision client (check ADC / GOOGLE_APPLICATION_CREDENTIALS): '' e)
           | None \<Rightarrow> Inr (googleNewWith opts)))"

text \<open>A batch answer: the responses, each with the error it may carry and the annotation it may carry.\<close>

definition DetectSafeSearch :: "((int \<times> string) option \<times> SafeSearchAnnotation option) list res \<Rightarrow> SafeSearchAnnotation option res" where
  "DetectSafeSearch batch =
     (case batch of
        Inl e \<Rightarrow> Inl e
      | Inr [] \<Rightarrow> Inl (errorf ''empty batch response'')
      | Inr ((err, ann) # _) \<Rightarrow>
          (case err of Some (code, msg) \<Rightarrow> Inl (errorf (''annotate error '' @ show_int code @ '': '' @ msg)) | None \<Rightarrow> Inr ann))"

definition googleFields :: "SafeSearchAnnotation \<Rightarrow> (string \<times> int) list" where
  "googleFields ann =
     [(''adult'', ssAdult ann), (''spoof'', ssSpoof ann), (''medical'', ssMedical ann), (''violence'', ssViolence ann), (''racy'', ssRacy ann)]"

definition googleScore :: "googleModerator \<Rightarrow> string \<Rightarrow> float64 option" where
  "googleScore m name = (if name = ''UNKNOWN'' then None else map_of (gmLookup m) name)"

definition googleModelVersion :: string where "googleModelVersion = ''vision-v1-safesearch''"

definition googleNormalize ::
  "(int \<Rightarrow> string) \<Rightarrow> ((string \<times> string) list \<Rightarrow> string res) \<Rightarrow> googleModerator \<Rightarrow> SafeSearchAnnotation option \<Rightarrow> NormalizedResult res" where
  "googleNormalize lkString marshal m ann0 =
     (case ann0 of
        None \<Rightarrow> Inl (errorf ''google: nil SafeSearch annotation (could not evaluate)'')
      | Some ann \<Rightarrow>
          (let cats = map (\<lambda>(label, lk). catResult (categoryOr googleCategoryMap label) (label @ '':'' @ lkString lk)
                              (googleScore m (lkString lk)) OriginLikelihoodEnum) (googleFields ann);
               rawMap = map (\<lambda>(label, lk). (label, lkString lk)) (googleFields ann)
           in case marshal rawMap of Inl e \<Rightarrow> Inl e | Inr raw \<Rightarrow> Inr (okResult ''google'' googleModelVersion cats raw)))"

definition googleAnalyze ::
  "(int \<Rightarrow> string) \<Rightarrow> ((string \<times> string) list \<Rightarrow> string res) \<Rightarrow> goerr option
   \<Rightarrow> ((int \<times> string) option \<times> SafeSearchAnnotation option) list res \<Rightarrow> googleModerator \<Rightarrow> NormalizedResult res" where
  "googleAnalyze lkString marshal waitErr batch m =
     (case waitErr of
        Some e \<Rightarrow> Inl e
      | None \<Rightarrow>
          (case DetectSafeSearch batch of
             Inl e \<Rightarrow> Inl (markRetryable (wrapf ''google: safesearch: '' e))
           | Inr ann \<Rightarrow> googleNormalize lkString marshal m ann))"

definition googleCaps :: Caps where
  "googleCaps = \<lparr>SupportsVideo = False, MaxImageBytes = 20971520,
     capCategories = [CategorySexual, CategorySuggestiveRacy, CategoryViolence, CategoryMedical, CategorySpoof]\<rparr>"

definition googleWired ::
  "(int \<Rightarrow> string) \<Rightarrow> ((string \<times> string) list \<Rightarrow> string res) \<Rightarrow> (nat \<Rightarrow> goerr option)
   \<Rightarrow> (nat \<Rightarrow> ((int \<times> string) option \<times> SafeSearchAnnotation option) list res) \<Rightarrow> googleModerator \<Rightarrow> WiredModerator" where
  "googleWired lkString marshal waitErr batch m =
     \<lparr>mName = ''google'', mCaps = googleCaps,
      mAnalyzeImage = (\<lambda>i img. Ret (googleAnalyze lkString marshal (waitErr i) (batch i) m)),
      mAnalyzeVideo = None, mModelVersion = Some googleModelVersion, mProviderLabels = None\<rparr>"

section \<open>Hive (hive.go)\<close>

definition defaultClassMap :: "(string \<times> Category) list" where
  "defaultClassMap =
     map (\<lambda>k. (k, CategorySexual))
       [''general_nsfw'', ''yes_sexual_activity'', ''yes_realistic_nsfw'', ''yes_sexual_intent'', ''yes_undressed'', ''yes_female_nudity'',
        ''yes_male_nudity'', ''yes_genitals'', ''yes_breast'', ''yes_sex_toy'', ''animal_genitalia_and_human'']
     @ map (\<lambda>k. (k, CategorySuggestiveRacy))
       [''general_suggestive'', ''yes_female_underwear'', ''yes_male_underwear'', ''yes_bra'', ''yes_panties'', ''yes_negligee'', ''yes_cleavage'',
        ''yes_bulge'', ''yes_butt'', ''kissing'', ''licking'']
     @ map (\<lambda>k. (k, CategoryGoreGraphic)) [''very_bloody'', ''a_little_bloody'', ''other_blood'', ''human_corpse'', ''animated_corpse'']
     @ map (\<lambda>k. (k, CategoryViolence)) [''yes_fight'', ''yes_animal_abuse'']
     @ map (\<lambda>k. (k, CategorySelfHarm)) [''hanging'', ''noose'', ''yes_self_harm'', ''yes_emaciated_body'']
     @ map (\<lambda>k. (k, CategoryHate)) [''yes_nazi'', ''yes_kkk'', ''yes_confederate'', ''yes_terrorist'']
     @ [(''yes_middle_finger'', CategoryOffensiveGesture)]
     @ map (\<lambda>k. (k, CategoryDrugs)) [''illicit_injectables'', ''yes_pills'', ''yes_marijuana'']
     @ map (\<lambda>k. (k, CategoryAlcoholTobacco)) [''yes_alcohol'', ''yes_drinking_alcohol'', ''animated_alcohol'', ''yes_smoking'']
     @ [(''yes_gambling'', CategoryGambling)]
     @ map (\<lambda>k. (k, CategoryWeapons)) [''gun_in_hand'', ''gun_not_in_hand'', ''animated_gun'', ''knife_in_hand'', ''knife_not_in_hand'']
     @ map (\<lambda>k. (k, CategoryOther)) [''culinary_knife_in_hand'', ''culinary_knife_not_in_hand'']
     @ map (\<lambda>k. (k, CategoryAnimatedSynthetic)) [''animated'', ''hybrid'', ''natural'', ''yes_drawing'', ''animated_animal_genitalia'']
     @ [(''medical_injectables'', CategoryMedical)]"

record hiveOptions =
  hoEndpoint :: string
  hoRateLimitRPS :: float64
  hoMaxAttempts :: int
  hoClassMap :: "(string \<times> string) list"

record hiveModerator =
  hmOpts :: hiveOptions
  hmToken :: string
  hmClassMap :: "(string \<times> Category) list"

definition hiveDefaultEndpoint :: string where "hiveDefaultEndpoint = ''https://api.thehive.ai/api/v2/task/sync''"

definition hiveNew :: "hiveOptions res \<Rightarrow> AdapterConfig \<Rightarrow> hiveModerator res" where
  "hiveNew options cfg =
     (case options of
        Inl e \<Rightarrow> Inl (wrapf ''hive: options: '' e)
      | Inr o0 \<Rightarrow>
          (let o1 = (if hoEndpoint o0 = [] then o0\<lparr>hoEndpoint := hiveDefaultEndpoint\<rparr> else o0);
               o2 = (if hoRateLimitRPS o1 = Fin 0 then o1\<lparr>hoRateLimitRPS := Fin 10\<rparr> else o1);
               token = acSecret cfg ''hive.api_token''
           in if token = [] then Inl (errorf ''hive: secret VISMOD_HIVE_API_TOKEN is required'')
              else Inr \<lparr>hmOpts = o2, hmToken = token,
                hmClassMap = foldl (\<lambda>m kv. AList.update (ToLower (fst kv)) (Canonicalize (ToUpper (snd kv))) m) defaultClassMap (hoClassMap o2)\<rparr>))"

text \<open>The members of the documents, and the struct they are read into.\<close>

record hiveClassDoc =
  hdClass :: "string option"
  hdScore :: "float64 option"

record hiveClass =
  hcClass :: string
  hcScore :: float64

definition orZero :: "'a \<Rightarrow> 'a option \<Rightarrow> 'a" where
  "orZero z v = (case v of Some x \<Rightarrow> x | None \<Rightarrow> z)"

definition fillHiveClass :: "hiveClassDoc \<Rightarrow> hiveClass" where
  "fillHiveClass d = \<lparr>hcClass = orZero [] (hdClass d), hcScore = orZero (Fin 0) (hdScore d)\<rparr>"

text \<open>An output is its time and its classes; a status holds its outputs.\<close>

type_synonym hiveOutput = "float64 \<times> hiveClass list"

type_synonym hiveDoc = "(float64 option \<times> hiveClassDoc list) list list"

definition fillHive :: "hiveDoc \<Rightarrow> hiveOutput list list" where
  "fillHive doc = map (map (\<lambda>(t, cs). (orZero (Fin 0) t, map fillHiveClass cs))) doc"

definition mediaFilename :: "string \<Rightarrow> string" where
  "mediaFilename mimeType =
     (let t = ToLower mimeType in
      if t = ''image/png'' then ''frame.png'' else if t = ''image/webp'' then ''frame.webp'' else if t = ''image/gif'' then ''frame.gif'' else ''frame.jpg'')"

definition hiveModelVersion :: string where "hiveModelVersion = ''visual-moderation-v2''"

definition hiveNormalize :: "(hiveOutput \<Rightarrow> string res) \<Rightarrow> hiveModerator \<Rightarrow> hiveOutput list list \<Rightarrow> NormalizedResult res" where
  "hiveNormalize marshal m rsp =
     (case rsp of
        (out # _) # _ \<Rightarrow>
          (let cats = map (\<lambda>c. catResult (categoryOr (hmClassMap m) (ToLower (hcClass c))) (hcClass c) (Some (hcScore c)) OriginProbability) (snd out)
           in case marshal out of Inl e \<Rightarrow> Inl e | Inr raw \<Rightarrow> Inr (okResult ''hive'' hiveModelVersion cats raw))
      | _ \<Rightarrow> Inl (errorf ''hive: response contained no output (could not evaluate)''))"

definition hiveRequest :: "Transport \<Rightarrow> hiveModerator \<Rightarrow> Image \<Rightarrow> nat \<Rightarrow> Request res" where
  "hiveRequest t m img a =
     (case trWait t a of
        Some e \<Rightarrow> Inl e
      | None \<Rightarrow>
          (case NewMultipartRequest t a (hoEndpoint (hmOpts m)) ''media'' (mediaFilename (MIME img)) (Bytes img) of
             Inl e \<Rightarrow> Inl e
           | Inr r \<Rightarrow> Inr (setHeader ''Authorization'' (''Token '' @ hmToken m) r)))"

record hiveWorld =
  hwTransport :: Transport
  hwDecode :: "string \<Rightarrow> hiveDoc res"
  hwMarshal :: "hiveOutput \<Rightarrow> string res"

definition hiveAnalyze :: "hiveWorld \<Rightarrow> hiveModerator \<Rightarrow> Image \<Rightarrow> NormalizedResult res" where
  "hiveAnalyze w m img =
     (case fst (DoJSON (worldOf (hwTransport w) (hiveRequest (hwTransport w) m img)) (hoMaxAttempts (hmOpts m)) 0 []) of
        Inl e \<Rightarrow> Inl (wrapf ''hive: '' e)
      | Inr body \<Rightarrow>
          (case hwDecode w body of
             Inl e \<Rightarrow> Inl (wrapf ''hive: decode response: '' e)
           | Inr doc \<Rightarrow> hiveNormalize (hwMarshal w) m (fillHive doc)))"

definition hiveCaps :: Caps where
  "hiveCaps = \<lparr>SupportsVideo = False, MaxImageBytes = 20971520,
     capCategories = [CategorySexual, CategorySuggestiveRacy, CategoryViolence, CategoryGoreGraphic, CategoryWeapons, CategorySelfHarm,
       CategoryHate, CategoryOffensiveGesture, CategoryDrugs, CategoryAlcoholTobacco, CategoryGambling, CategoryMedical,
       CategoryAnimatedSynthetic, CategoryOther]\<rparr>"

definition hiveWired :: "(nat \<Rightarrow> hiveWorld) \<Rightarrow> hiveModerator \<Rightarrow> WiredModerator" where
  "hiveWired w m =
     \<lparr>mName = ''hive'', mCaps = hiveCaps, mAnalyzeImage = (\<lambda>i img. Ret (hiveAnalyze (w i) m img)),
      mAnalyzeVideo = None, mModelVersion = Some hiveModelVersion, mProviderLabels = None\<rparr>"

section \<open>Azure Content Safety (microsoft.go)\<close>

record msOptions =
  moEndpoint :: string
  moAPIVersion :: string
  moAuthMode :: string
  moRateLimitRPS :: float64
  moMaxAttempts :: int

text \<open>The token source of the field \<open>tokens\<close>.\<close>

datatype tokenSource = NoTokens | StaticToken string | IMDSTokens

record msModerator =
  mmOpts :: msOptions
  mmKey :: string
  mmTokens :: tokenSource

definition msNew :: "msOptions res \<Rightarrow> AdapterConfig \<Rightarrow> msModerator res" where
  "msNew options cfg =
     (case options of
        Inl e \<Rightarrow> Inl (wrapf ''microsoft: options: '' e)
      | Inr o0 \<Rightarrow>
          if moEndpoint o0 = [] then
            Inl (errorf ''microsoft: adapter.options.endpoint is required (https://<resource>.cognitiveservices.azure.com)'')
          else
            (let o1 = o0\<lparr>moEndpoint := rev (dropWhile (\<lambda>c. c = CHR ''/'') (rev (moEndpoint o0)))\<rparr>;
                 o2 = (if moAPIVersion o1 = [] then o1\<lparr>moAPIVersion := ''2024-09-01''\<rparr> else o1);
                 o3 = (if moRateLimitRPS o2 = Fin 0 then o2\<lparr>moRateLimitRPS := Fin 4\<rparr> else o2)
             in if moAuthMode o3 = [] \<or> moAuthMode o3 = ''key'' then
                  (if acSecret cfg ''microsoft.api_key'' = [] then
                     Inl (errorf ''microsoft: secret VISMOD_MICROSOFT_API_KEY is required for auth_mode=key'')
                   else Inr \<lparr>mmOpts = o3, mmKey = acSecret cfg ''microsoft.api_key'', mmTokens = NoTokens\<rparr>)
                else if moAuthMode o3 = ''entra'' then
                  Inr \<lparr>mmOpts = o3, mmKey = [],
                    mmTokens = (let tok = acSecret cfg ''microsoft.access_token'' in if tok \<noteq> [] then StaticToken tok else IMDSTokens)\<rparr>
                else Inl (errorf (''microsoft: unknown auth_mode '' @ quoted (moAuthMode o3) @ '' (key|entra)''))))"

definition encodeAnalyzeRequest :: "string \<Rightarrow> string" where
  "encodeAnalyzeRequest raw =
     ''{'' @ quoted ''image'' @ '':{'' @ quoted ''content'' @ '':'' @ [CHR 0x22] @ EncodeToString raw
     @ [CHR 0x22] @ ''},'' @ quoted ''outputType'' @ '':'' @ quoted ''FourSeverityLevels'' @ ''}''"

text \<open>The struct \<open>analyzeRequest\<close> and its form under \<open>json.Marshal\<close>, which the one-pass encoder replaces.\<close>

record analyzeRequest =
  arContent :: string
  arOutputType :: string

definition marshalAnalyzeRequest :: "analyzeRequest \<Rightarrow> string" where
  "marshalAnalyzeRequest r =
     ''{'' @ jmember ''image'' (''{'' @ jmember ''content'' (marshalString (arContent r)) @ ''}'') @ '',''
     @ jmember ''outputType'' (marshalString (arOutputType r)) @ ''}''"

definition msCategoryMap :: "(string \<times> Category) list" where
  "msCategoryMap = [(''Hate'', CategoryHate), (''Sexual'', CategorySexual), (''Violence'', CategoryViolence), (''SelfHarm'', CategorySelfHarm)]"

record analysisDoc =
  adCategory :: "string option"
  adSeverity :: "int option"

record analysis =
  anCategory :: string
  anSeverity :: int

definition fillAnalysis :: "analysisDoc \<Rightarrow> analysis" where
  "fillAnalysis d = \<lparr>anCategory = orZero [] (adCategory d), anSeverity = orZero 0 (adSeverity d)\<rparr>"

record msWorld =
  mwTransport :: Transport
  mwDecode :: "string \<Rightarrow> analysisDoc list res"
  mwMarshal :: "analysis list \<Rightarrow> string res"
  mwDiv :: "int \<Rightarrow> float64"

text \<open>\<open>mwDiv\<close> is the quotient of a severity by six as a float64.\<close>

definition msNormalize :: "msWorld \<Rightarrow> msModerator \<Rightarrow> analysis list \<Rightarrow> NormalizedResult res" where
  "msNormalize w m rsp =
     (let cats = map (\<lambda>a. catResult (categoryOr msCategoryMap (anCategory a)) (anCategory a) (Some (mwDiv w (anSeverity a))) OriginSeverity) rsp
      in case mwMarshal w rsp of Inl e \<Rightarrow> Inl e | Inr raw \<Rightarrow> Inr (okResult ''microsoft'' (moAPIVersion (mmOpts m)) cats raw))"

text \<open>A moderator that \<open>msNew\<close> built has a key or a token source: the case of neither is not reached.\<close>

definition msAuthorize :: "msModerator \<Rightarrow> string res \<Rightarrow> Request \<Rightarrow> Request res" where
  "msAuthorize m imds r =
     (if mmKey m \<noteq> [] then Inr (setHeader ''Ocp-Apim-Subscription-Key'' (mmKey m) r)
      else case (case mmTokens m of StaticToken s \<Rightarrow> Inr s | IMDSTokens \<Rightarrow> imds | NoTokens \<Rightarrow> Inl (errorf ''nil token source'')) of
          Inl e \<Rightarrow> Inl (wrapf ''entra token: '' e)
        | Inr tok \<Rightarrow> Inr (setHeader ''Authorization'' (''Bearer '' @ tok) r))"

definition msRequest :: "Transport \<Rightarrow> msModerator \<Rightarrow> Image \<Rightarrow> nat \<Rightarrow> Request res" where
  "msRequest t m img a =
     (case trWait t a of
        Some e \<Rightarrow> Inl e
      | None \<Rightarrow>
          (case NewJSONRequest (trNew t a) (moEndpoint (mmOpts m) @ ''/contentsafety/image:analyze?api-version='' @ moAPIVersion (mmOpts m))
               (encodeAnalyzeRequest (Bytes img)) of
             Inl e \<Rightarrow> Inl e
           | Inr r \<Rightarrow> msAuthorize m (trToken t a) r))"

definition msMaxImageBytes :: nat where "msMaxImageBytes = 4194304"

definition msAnalyze :: "msWorld \<Rightarrow> msModerator \<Rightarrow> Image \<Rightarrow> NormalizedResult res" where
  "msAnalyze w m img =
     (if length (Bytes img) > msMaxImageBytes then
        Inl (errorf (''microsoft: image '' @ show_nat (length (Bytes img)) @ '' bytes exceeds 4 MB limit (terminal)''))
      else case fst (DoJSON (worldOf (mwTransport w) (msRequest (mwTransport w) m img)) (moMaxAttempts (mmOpts m)) 0 ''x-ms-error-code'') of
          Inl e \<Rightarrow> Inl (wrapf ''microsoft: '' e)
        | Inr body \<Rightarrow>
            (case mwDecode w body of
               Inl e \<Rightarrow> Inl (wrapf ''microsoft: decode response: '' e)
             | Inr doc \<Rightarrow> msNormalize w m (map fillAnalysis doc)))"

definition msCaps :: Caps where
  "msCaps = \<lparr>SupportsVideo = False, MaxImageBytes = int msMaxImageBytes,
     capCategories = [CategoryHate, CategorySelfHarm, CategorySexual, CategoryViolence]\<rparr>"

definition msWired :: "(nat \<Rightarrow> msWorld) \<Rightarrow> msModerator \<Rightarrow> WiredModerator" where
  "msWired w m =
     \<lparr>mName = ''microsoft'', mCaps = msCaps, mAnalyzeImage = (\<lambda>i img. Ret (msAnalyze (w i) m img)),
      mAnalyzeVideo = None, mModelVersion = Some (moAPIVersion (mmOpts m)), mProviderLabels = None\<rparr>"

section \<open>Managed identity tokens (entra.go)\<close>

record imdsTokenSource =
  itToken :: string
  itExpiry :: int

record imdsWorld =
  iwNow :: int
  iwNewErr :: "goerr option"
  iwDo :: RoundTrip
  iwDecode :: "string \<Rightarrow> (string option \<times> string option) res"
  iwNowAfter :: int

definition imdsFetch :: "imdsWorld \<Rightarrow> (string \<times> int) res" where
  "imdsFetch w =
     (case iwNewErr w of
        Some e \<Rightarrow> Inl e
      | None \<Rightarrow>
          (case iwDo w of
             NetErr e \<Rightarrow> Inl (wrapf ''IMDS request (managed identity requires Azure compute): '' e)
           | GotResp r \<Rightarrow>
               (case rReadErr r of
                  Some e \<Rightarrow> Inl e
                | None \<Rightarrow>
                    if rStatus r \<noteq> 200 then Inl (errorf (''IMDS returned '' @ show_int (rStatus r)))
                    else case iwDecode w (take 1048576 (rBody r)) of
                        Inl e \<Rightarrow> Inl e
                      | Inr (tok, expires) \<Rightarrow>
                          if orZero [] tok = [] then Inl (errorf ''IMDS returned empty token'')
                          else Inr (orZero [] tok, case Atoi (orZero [] expires) of Some secs \<Rightarrow> secs * Second | None \<Rightarrow> iwNowAfter w + 30 * Minute))))"

definition TokenOf :: "imdsTokenSource \<Rightarrow> imdsWorld \<Rightarrow> imdsTokenSource \<times> string res" where
  "TokenOf s w =
     (if itToken s \<noteq> [] \<and> iwNow w < itExpiry s - 2 * Minute then (s, Inr (itToken s))
      else case imdsFetch w of
          Inl e \<Rightarrow> (s, Inl e)
        | Inr (tok, expiry) \<Rightarrow> (s\<lparr>itToken := tok, itExpiry := expiry\<rparr>, Inr tok))"

section \<open>ShieldGemma (shieldgemma.go, endpoint.go)\<close>

abbreviation policySexuallyExplicit :: string where "policySexuallyExplicit \<equiv> ''sexually_explicit''"
abbreviation policyDangerousContent :: string where "policyDangerousContent \<equiv> ''dangerous_content''"
abbreviation policyViolenceGore :: string where "policyViolenceGore \<equiv> ''violence_gore''"

definition policyPrompts :: "(string \<times> string) list" where
  "policyPrompts =
     [(policySexuallyExplicit, ''The image shall not contain content that depicts explicit or graphic sexual acts (e.g., pornography, erotic nudity, depictions of rape or sexual assault).''),
      (policyDangerousContent, ''The image shall not contain content that facilitates or encourages activities that could cause real-world harm (e.g., building firearms and explosive devices, promotion of terrorism, instructions for suicide).''),
      (policyViolenceGore, ''The image shall not contain content that depicts shocking, sensational, or gratuitous violence (e.g., excessive blood and gore, gratuitous violence against animals, extreme injury or moment of death).'')]"

definition policyCategories :: "(string \<times> Category) list" where
  "policyCategories = [(policySexuallyExplicit, CategorySexual), (policyViolenceGore, CategoryGoreGraphic), (policyDangerousContent, CategoryOther)]"

record sgOptions =
  soEndpoint :: string
  soModelVersion :: string
  soPolicies :: "string list"
  soRateLimitRPS :: float64
  soMaxAttempts :: int
  soTimeoutSeconds :: int

record sgModerator =
  smOpts :: sgOptions
  smPolicies :: "string list"
  smTimeout :: int

text \<open>\<open>net.ParseIP\<close> is an argument, as \<open>url.Parse\<close> is.\<close>

definition validateEndpoint :: "urlParser \<Rightarrow> addrParser \<Rightarrow> string \<Rightarrow> goerr option" where
  "validateEndpoint parse parseIP raw =
     (if TrimSpace raw = [] then Some (errorf ''endpoint is required'')
      else case parse raw of
          Inl e \<Rightarrow> Some (wrapf (''endpoint '' @ quoted raw @ '' is not a valid URL: '') e)
        | Inr u \<Rightarrow>
            if uScheme u \<noteq> ''http'' \<and> uScheme u \<noteq> ''https'' then
              Some (errorf (''endpoint scheme '' @ quoted (uScheme u) @ '' not allowed (http or https only)''))
            else if uUser u \<noteq> None then
              Some (errorf ''endpoint must not carry userinfo (credentials in yaml are forbidden; use VISMOD_* env)'')
            else (let host = uHostname u; ip = parseIP host in
              if host = [] then Some (errorf (''endpoint '' @ quoted raw @ '' has no host''))
              else if (case ip of Some a \<Rightarrow> IsLinkLocalUnicast a | None \<Rightarrow> False) then
                Some (errorf (''endpoint host '' @ host @ '' is in the link-local/cloud-metadata range, which is never a valid inference server''))
              else if uScheme u = ''https'' then None
              else if isLocalHostname host then None
              else if (case ip of Some a \<Rightarrow> IsLoopback a \<or> IsPrivate a | None \<Rightarrow> False) then None
              else Some (errorf (''endpoint host '' @ host @ '' requires https (http is permitted only for loopback and private ranges)''))))"

definition newHTTPClientTimeout :: "int \<Rightarrow> int" where
  "newHTTPClientTimeout timeout = (if timeout \<le> 0 then 120 * Second else timeout)"

text \<open>The client refuses every redirect.\<close>

definition sgRedirect :: "string \<Rightarrow> goerr" where
  "sgRedirect target = errorf (''shieldgemma: refusing redirect to '' @ target @ '' (endpoint is config-only)'')"

definition knownPolicies :: "string list" where
  "knownPolicies = sort (map fst policyPrompts)"

fun selectPolicies :: "string list \<Rightarrow> string list res" where
  "selectPolicies [] = Inr []"
| "selectPolicies (p # ps) =
     (let name = ToLower (TrimSpace p) in
      if map_of policyPrompts name = None then
        Inl (errorf (''shieldgemma: unknown policy '' @ quoted p @ '' (known: ['' @ Join knownPolicies '' '' @ ''])''))
      else case selectPolicies ps of Inl e \<Rightarrow> Inl e | Inr names \<Rightarrow> Inr (name # names))"

definition sgNew :: "urlParser \<Rightarrow> addrParser \<Rightarrow> sgOptions res \<Rightarrow> AdapterConfig \<Rightarrow> sgModerator res" where
  "sgNew parse parseIP options cfg =
     (case options of
        Inl e \<Rightarrow> Inl (wrapf ''shieldgemma: options: '' e)
      | Inr o0 \<Rightarrow>
          (case validateEndpoint parse parseIP (soEndpoint o0) of
             Some e \<Rightarrow> Inl (wrapf ''shieldgemma: '' e)
           | None \<Rightarrow>
               (let o1 = o0\<lparr>soModelVersion := TrimSpace (soModelVersion o0)\<rparr> in
                if soModelVersion o1 = [] then
                  Inl (errorf (''shieldgemma: model_version is required and has no default '' @ emDash @ '' a self-hosted server exposes no vendor-pinned version, ''
                    @ ''so the operator must state what they are running (it is recorded in config_hash)''))
                else if ToLower (TrimSpace (acProviderThresholdMode cfg)) \<noteq> ''override'' then
                  Inl (errorf (''shieldgemma: provider_thresholds.mode must be '' @ quoted ''override'' @ '', got '' @ quoted (acProviderThresholdMode cfg) @ '' ''
                    @ emDash @ '' category and default thresholds hold cloud-vendor magnitudes (severity/6, likelihood buckets) that a self-hosted probability must not inherit''))
                else case (if soPolicies o1 = [] then Inr (map fst policyPrompts) else selectPolicies (soPolicies o1)) of
                    Inl e \<Rightarrow> Inl e
                  | Inr policies \<Rightarrow>
                      Inr \<lparr>smOpts = o1, smPolicies = sort policies,
                        smTimeout = newHTTPClientTimeout (wrapInt64 (soTimeoutSeconds o1 * Second))\<rparr>)))"

definition dataURI :: "Image \<Rightarrow> string" where
  "dataURI img =
     (let mime = ToLower (TrimSpace (MIME img))
      in ''data:'' @ (if mime = [] then ''image/jpeg'' else mime) @ '';base64,'' @ EncodeToString (Bytes img))"

text \<open>The chat-completions body: the image, the text of the policy, one token with its alternatives.\<close>

definition chatBody :: "string \<Rightarrow> string \<Rightarrow> string \<Rightarrow> string" where
  "chatBody model uri prompt =
     ''{'' @ jmember ''model'' (marshalString model) @ '','' @ jmember ''messages'' (''[{'' @ jmember ''role'' (marshalString ''user'') @ '',''
       @ jmember ''content'' (''[{'' @ jmember ''type'' (marshalString ''image_url'') @ '','' @ jmember ''image_url'' (''{'' @ jmember ''url'' (marshalString uri) @ ''}'')
         @ ''},{'' @ jmember ''type'' (marshalString ''text'') @ (if prompt = [] then [] else '','' @ jmember ''text'' (marshalString prompt)) @ ''}]'') @ ''}]'')
     @ '','' @ jmember ''max_tokens'' ''1'' @ '','' @ jmember ''temperature'' ''0'' @ '','' @ jmember ''logprobs'' ''true'' @ '','' @ jmember ''top_logprobs'' ''8'' @ ''}''"

text \<open>What the answer says of the first generated token: the alternatives, in the order of the server. The operations
  on floats are the machine's.\<close>

record logprobDoc =
  ldToken :: "string option"
  ldLogprob :: "float64 option"

type_synonym chatDoc = "logprobDoc list list list"

record sgWorld =
  swTransport :: "string \<Rightarrow> Transport"
  swDecode :: "string \<Rightarrow> chatDoc res"
  swMarshal :: "(string \<times> float64) list \<Rightarrow> string res"
  swExp :: "float64 \<Rightarrow> float64"
  swAdd :: "float64 \<Rightarrow> float64 \<Rightarrow> float64"
  swDiv :: "float64 \<Rightarrow> float64 \<Rightarrow> float64"

definition clamp01 :: "float64 \<Rightarrow> string \<Rightarrow> float64 res" where
  "clamp01 v policy =
     (case v of
        Fin q \<Rightarrow> Inr (Fin (min 1 (max 0 q)))
      | _ \<Rightarrow> Inl (errorf (''shieldgemma: '' @ policy @ '': logprobs yielded a non-finite probability (could not evaluate)'')))"

fun readYesNo :: "(float64 \<Rightarrow> float64) \<Rightarrow> logprobDoc list \<Rightarrow> float64 option \<times> float64 option \<Rightarrow> float64 option \<times> float64 option" where
  "readYesNo ex [] yn = yn"
| "readYesNo ex (a # as) (y, n) =
     (let tok = ToLower (TrimSpace (orZero [] (ldToken a))); p = ex (orZero (Fin 0) (ldLogprob a)) in
      readYesNo ex as
        (if tok = ''yes'' then (if y = None then (Some p, n) else (y, n))
         else if tok = ''no'' then (if n = None then (y, Some p) else (y, n))
         else (y, n)))"

definition yesProbability :: "sgWorld \<Rightarrow> chatDoc \<Rightarrow> string \<Rightarrow> float64 res" where
  "yesProbability w doc policy =
     (case doc of
        (alts # _) # _ \<Rightarrow>
          (case readYesNo (swExp w) alts (None, None) of
             (Some y, Some n) \<Rightarrow>
               if f64_le (swAdd w y n) (Fin 0) then
                 Inl (errorf (''shieldgemma: '' @ policy @ '': response did not report both a Yes and a No token among the alternatives (could not evaluate)''))
               else clamp01 (swDiv w y (swAdd w y n)) policy
           | _ \<Rightarrow> Inl (errorf (''shieldgemma: '' @ policy @ '': response did not report both a Yes and a No token among the alternatives (could not evaluate)'')))
      | _ \<Rightarrow> Inl (errorf (''shieldgemma: '' @ policy @ '': response carried no logprobs (could not evaluate)'')))"

definition sgRequest :: "Transport \<Rightarrow> sgModerator \<Rightarrow> string \<Rightarrow> nat \<Rightarrow> Request res" where
  "sgRequest t m body a = (case trWait t a of Some e \<Rightarrow> Inl e | None \<Rightarrow> NewJSONRequest (trNew t a) (soEndpoint (smOpts m)) body)"

definition scorePolicy :: "sgWorld \<Rightarrow> sgModerator \<Rightarrow> string \<Rightarrow> string \<Rightarrow> float64 res" where
  "scorePolicy w m policy uri =
     (let t = swTransport w policy; body = chatBody (soModelVersion (smOpts m)) uri (orZero [] (map_of policyPrompts policy)) in
      case fst (DoJSON (worldOf t (sgRequest t m body)) (soMaxAttempts (smOpts m)) 0 []) of
        Inl e \<Rightarrow> Inl (wrapf (''shieldgemma: '' @ policy @ '': '') e)
      | Inr rb \<Rightarrow>
          (case swDecode w rb of
             Inl e \<Rightarrow> Inl (wrapf (''shieldgemma: '' @ policy @ '': decode response: '') e)
           | Inr doc \<Rightarrow> yesProbability w doc policy))"

fun scorePolicies :: "sgWorld \<Rightarrow> sgModerator \<Rightarrow> string \<Rightarrow> string list \<Rightarrow> (string \<times> float64) list res" where
  "scorePolicies w m uri [] = Inr []"
| "scorePolicies w m uri (p # ps) =
     (case scorePolicy w m p uri of
        Inl e \<Rightarrow> Inl e
      | Inr s \<Rightarrow> (case scorePolicies w m uri ps of Inl e \<Rightarrow> Inl e | Inr rest \<Rightarrow> Inr ((p, s) # rest)))"

definition sgAnalyze :: "sgWorld \<Rightarrow> sgModerator \<Rightarrow> Image \<Rightarrow> NormalizedResult res" where
  "sgAnalyze w m img =
     (case scorePolicies w m (dataURI img) (smPolicies m) of
        Inl e \<Rightarrow> Inl e
      | Inr ps \<Rightarrow>
          (let cats = map (\<lambda>(p, s). catResult (orZero [] (map_of policyCategories p)) p (Some s) OriginProbability) ps
           in case swMarshal w (foldl (\<lambda>m ps. AList.update (fst ps) (snd ps) m) [] ps) of
               Inl e \<Rightarrow> Inl e
             | Inr raw \<Rightarrow> Inr (okResult ''shieldgemma'' (soModelVersion (smOpts m)) cats raw)))"

definition sgCaps :: Caps where
  "sgCaps = \<lparr>SupportsVideo = False, MaxImageBytes = 20971520, capCategories = [CategorySexual, CategoryGoreGraphic, CategoryOther]\<rparr>"

definition sgWired :: "(nat \<Rightarrow> sgWorld) \<Rightarrow> sgModerator \<Rightarrow> WiredModerator" where
  "sgWired w m =
     \<lparr>mName = ''shieldgemma'', mCaps = sgCaps, mAnalyzeImage = (\<lambda>i img. Ret (sgAnalyze (w i) m img)),
      mAnalyzeVideo = None, mModelVersion = Some (soModelVersion (smOpts m)), mProviderLabels = Some (smPolicies m)\<rparr>"

section \<open>The contract of an adapter\<close>

text \<open>What the pipeline relies on: a call does not panic, and an answer is one evaluated frame whose categories are
  canonical, of one origin, and carry no thresholds yet.\<close>

locale adapter_contract =
  fixes analyze :: "nat \<Rightarrow> Image \<Rightarrow> NormalizedResult res call"
    and origin :: ScoreOrigin
  assumes returns: "\<exists>r. analyze i img = Ret r"
    and answer: "analyze i img = Ret (Inr r) \<Longrightarrow>
      \<exists>cs. nrFrames r = [zeroFrame\<lparr>Status := FrameOK, Categories := cs\<rparr>]
        \<and> (\<forall>c \<in> set cs. crCategory c \<in> set canonicalCategories \<and> crScoreOrigin c = origin)"
begin

lemma frame_returns:
  assumes "mAnalyzeImage (pModerator p) = analyze"
  shows "\<exists>r. evaluateFrame p w gone i path ts = Ret r"
proof -
  obtain r where "analyze i \<lparr>Bytes = projr (wReadFile w gone path), MIME = sniffMIME w (projr (wReadFile w gone path))\<rparr> = Ret r" using returns by blast
  then show ?thesis using assms by (auto simp: evaluateFrame_def Let_def split: sum.splits list.splits)
qed

lemma frame_evaluated:
  assumes "mAnalyzeImage (pModerator p) = analyze" "evaluateFrame p w gone i path ts = Ret (Inr (fr, raw))"
  shows "\<exists>b r cs. wReadFile w gone path = Inr b \<and> analyze i \<lparr>Bytes = b, MIME = sniffMIME w b\<rparr> = Ret (Inr r)
    \<and> nrFrames r = [zeroFrame\<lparr>Status := FrameOK, Categories := cs\<rparr>]
    \<and> fr = zeroFrame\<lparr>TimestampSec := ts, Status := FrameOK, Categories := ApplyThresholds cs (pThresholds p)\<rparr>
    \<and> (\<forall>c \<in> set cs. crCategory c \<in> set canonicalCategories \<and> crScoreOrigin c = origin)"
proof -
  obtain b r f fs where b: "wReadFile w gone path = Inr b" "analyze i \<lparr>Bytes = b, MIME = sniffMIME w b\<rparr> = Ret (Inr r)" "nrFrames r = f # fs"
    "fr = f\<lparr>TimestampSec := ts, Status := FrameOK, Categories := ApplyThresholds (Categories f) (pThresholds p)\<rparr>"
    using assms by (auto simp: evaluateFrame_def Let_def split: sum.splits list.splits if_splits call.splits)
  obtain cs where "nrFrames r = [zeroFrame\<lparr>Status := FrameOK, Categories := cs\<rparr>]"
    "\<forall>c \<in> set cs. crCategory c \<in> set canonicalCategories \<and> crScoreOrigin c = origin" using answer [OF b(2)] by blast
  then show ?thesis using b by (intro exI [of _ b] exI [of _ r] exI [of _ cs]) simp
qed

text \<open>Each category of the frame is judged by its own label and category.\<close>

lemma frame_judged:
  assumes "mAnalyzeImage (pModerator p) = analyze" "evaluateFrame p w gone i path ts = Ret (Inr (fr, raw))" "c \<in> set (Categories fr)"
  shows "crCategory c \<in> set canonicalCategories" "crScoreOrigin c = origin"
    "Threshold c = FlagAt (ResolveFor (pThresholds p) (crCategory c) (ProviderLabel c))"
    "Flagged c \<longleftrightarrow> reaches (Score c) (FlagAt (ResolveFor (pThresholds p) (crCategory c) (ProviderLabel c)))"
proof -
  obtain cs where fr: "Categories fr = ApplyThresholds cs (pThresholds p)"
    and cs: "\<forall>c \<in> set cs. crCategory c \<in> set canonicalCategories \<and> crScoreOrigin c = origin"
    using frame_evaluated [OF assms(1,2)] by auto
  obtain d where d: "d \<in> set cs" "c = d\<lparr>Threshold := FlagAt (ResolveFor (pThresholds p) (Canonicalize (crCategory d)) (ProviderLabel d)),
      Flagged := reaches (Score d) (FlagAt (ResolveFor (pThresholds p) (Canonicalize (crCategory d)) (ProviderLabel d)))\<rparr>"
    using assms(3) by (auto simp: fr ApplyThresholds_def Let_def)
  have k: "Canonicalize (crCategory d) = crCategory d" using cs d(1) Canonicalize_id by blast
  show "crCategory c \<in> set canonicalCategories" "crScoreOrigin c = origin"
    "Threshold c = FlagAt (ResolveFor (pThresholds p) (crCategory c) (ProviderLabel c))"
    "Flagged c \<longleftrightarrow> reaches (Score c) (FlagAt (ResolveFor (pThresholds p) (crCategory c) (ProviderLabel c)))"
    using cs d by (simp_all add: k)
qed

end

lemma unscored_error:
  assumes "\<forall>c \<in> set (Categories fr). Score c = None"
  shows "ovVerdict (Rollup [fr] th) = VerdictError"
  using assms by (auto simp: Rollup_simps okCats_def list_ex_iff scored_def blocks_def reaches_def)

section \<open>The adapters keep the contract\<close>

lemma okResult_frames [simp]: "nrFrames (okResult p v cs raw) = [zeroFrame\<lparr>Status := FrameOK, Categories := cs\<rparr>]"
  by (simp add: okResult_def)

lemma one_frame:
  "nrFrames r = [zeroFrame\<lparr>Status := FrameOK, Categories := cs\<rparr>] \<Longrightarrow> \<forall>c \<in> set cs. Q c \<Longrightarrow>
     \<exists>cs'. nrFrames r = [zeroFrame\<lparr>Status := FrameOK, Categories := cs'\<rparr>] \<and> (\<forall>c \<in> set cs'. Q c)"
  by blast

lemma frame_inject:
  "[zeroFrame\<lparr>Status := s, Categories := a\<rparr>] = [zeroFrame\<lparr>Status := s, Categories := b\<rparr>] \<Longrightarrow> a = b"
  by (drule arg_cong [where f = "\<lambda>fs. Categories (hd fs)"]) simp

lemma catResult_simps [simp]:
  "crCategory (catResult k l s og) = k" "ProviderLabel (catResult k l s og) = l" "Score (catResult k l s og) = s" "crScoreOrigin (catResult k l s og) = og"
  by (simp_all add: catResult_def)

lemma categoryOr_in: "\<forall>v \<in> snd ` set m. v \<in> set canonicalCategories \<Longrightarrow> categoryOr m k \<in> set canonicalCategories"
proof (cases "map_of m k")
  case None
  then show ?thesis by (simp add: categoryOr_def canonicalCategories_def)
next
  case (Some v)
  moreover assume "\<forall>v \<in> snd ` set m. v \<in> set canonicalCategories"
  ultimately show ?thesis by (force simp: categoryOr_def dest: map_of_SomeD)
qed

lemma google_canonical: "categoryOr googleCategoryMap k \<in> set canonicalCategories"
  by (rule categoryOr_in) (simp add: googleCategoryMap_def canonicalCategories_def)

lemma ms_canonical: "categoryOr msCategoryMap k \<in> set canonicalCategories"
  by (rule categoryOr_in) (simp add: msCategoryMap_def canonicalCategories_def)

lemma defaultClassMap_canonical: "\<forall>v \<in> snd ` set defaultClassMap. v \<in> set canonicalCategories"
proof -
  have "list_all (\<lambda>v. v \<in> set canonicalCategories) (map snd defaultClassMap)" by code_simp
  then show ?thesis by (simp add: list_all_iff)
qed

lemma update_values: "snd ` set (AList.update k v m) \<subseteq> insert v (snd ` set m)"
  by (induction m) auto

lemma fold_update_values:
  "snd ` set (foldl (\<lambda>m kv. AList.update (f kv) (Canonicalize (g kv)) m) m0 kvs) \<subseteq> set canonicalCategories \<union> snd ` set m0"
proof (induction kvs arbitrary: m0)
  case (Cons kv kvs)
  let ?m = "AList.update (f kv) (Canonicalize (g kv)) m0"
  have "snd ` set ?m \<subseteq> set canonicalCategories \<union> snd ` set m0"
    using update_values [of "f kv" "Canonicalize (g kv)" m0] Canonicalize_in [of "g kv"] by auto
  then show ?case using Cons.IH [of ?m] by (simp only: foldl.simps) blast
qed simp

lemma hive_canonical:
  assumes "hiveNew o0 cfg = Inr m"
  shows "categoryOr (hmClassMap m) k \<in> set canonicalCategories"
proof (rule categoryOr_in)
  obtain kvs where m: "hmClassMap m = foldl (\<lambda>m kv. AList.update (ToLower (fst kv)) (Canonicalize (ToUpper (snd kv))) m) defaultClassMap kvs"
    using assms by (auto simp: hiveNew_def Let_def split: sum.splits if_splits)
  have "snd ` set (hmClassMap m) \<subseteq> set canonicalCategories \<union> snd ` set defaultClassMap" unfolding m by (rule fold_update_values)
  moreover have "snd ` set defaultClassMap \<subseteq> set canonicalCategories" using defaultClassMap_canonical by (simp only: subset_eq)
  ultimately have "snd ` set (hmClassMap m) \<subseteq> set canonicalCategories" by (simp only: sup.absorb1)
  then show "\<forall>v \<in> snd ` set (hmClassMap m). v \<in> set canonicalCategories" by (simp only: subset_eq)
qed

lemma sg_canonical: "orZero [] (map_of policyCategories p) \<in> set canonicalCategories \<or> map_of policyCategories p = None"
  by (auto simp: policyCategories_def orZero_def canonicalCategories_def)

lemma selectPolicies_known: "selectPolicies ps = Inr names \<Longrightarrow> \<forall>n \<in> set names. map_of policyPrompts n \<noteq> None"
  by (induction ps arbitrary: names) (auto simp: Let_def split: if_splits sum.splits)

lemma policies_category: "map_of policyPrompts n \<noteq> None \<Longrightarrow> map_of policyCategories n \<noteq> None"
  by (auto simp: policyPrompts_def policyCategories_def split: if_splits)

lemma prompts_known: "\<forall>p \<in> set (map fst policyPrompts). map_of policyPrompts p \<noteq> None"
  by (simp add: policyPrompts_def)

lemma sgNew_policies:
  assumes "sgNew parse pip o0 cfg = Inr m"
  shows "\<forall>p \<in> set (smPolicies m). map_of policyPrompts p \<noteq> None" "sorted (smPolicies m)"
proof -
  have "smPolicies m = sort (map fst policyPrompts) \<or> (\<exists>os ps. smPolicies m = sort ps \<and> selectPolicies os = Inr ps)"
    using assms by (auto simp: sgNew_def Let_def split: sum.splits option.splits if_splits)
  then show "\<forall>p \<in> set (smPolicies m). map_of policyPrompts p \<noteq> None" "sorted (smPolicies m)"
    using selectPolicies_known prompts_known by auto
qed

lemma clamp01_unit: "clamp01 v p = Inr s \<Longrightarrow> \<exists>q. s = Fin q \<and> 0 \<le> q \<and> q \<le> 1"
  by (auto simp: clamp01_def split: float64.splits)

lemma scorePolicy_unit: "scorePolicy w m p uri = Inr s \<Longrightarrow> \<exists>q. s = Fin q \<and> 0 \<le> q \<and> q \<le> 1"
  by (auto simp: scorePolicy_def Let_def yesProbability_def dest: clamp01_unit
      split: sum.splits list.splits option.splits prod.splits if_splits)

lemma scorePolicies_all:
  "scorePolicies w m uri ps = Inr rs \<Longrightarrow> map fst rs = ps \<and> (\<forall>r \<in> set rs. \<exists>q. snd r = Fin q \<and> 0 \<le> q \<and> q \<le> 1)"
proof (induction ps arbitrary: rs)
  case (Cons p ps)
  then obtain s rest where r: "scorePolicy w m p uri = Inr s" "scorePolicies w m uri ps = Inr rest" "rs = (p, s) # rest"
    by (auto split: sum.splits)
  show ?case using Cons.IH [OF r(2)] scorePolicy_unit [OF r(1)] by (simp add: r(3))
qed simp

lemma sgAnalyze_answer:
  assumes "sgAnalyze w m img = Inr r"
  shows "\<exists>ps. scorePolicies w m (dataURI img) (smPolicies m) = Inr ps
    \<and> nrFrames r = [zeroFrame\<lparr>Status := FrameOK, Categories := map (\<lambda>(p, s). catResult (orZero [] (map_of policyCategories p)) p (Some s) OriginProbability) ps\<rparr>]"
  using assms by (auto simp: sgAnalyze_def Let_def split: sum.splits)

text \<open>The registered factories: what \<open>New\<close> returns as a moderator. An adapter that was not built has no calls.\<close>

definition googleFactory ::
  "(int \<Rightarrow> string) \<Rightarrow> ((string \<times> string) list \<Rightarrow> string res) \<Rightarrow> (nat \<Rightarrow> goerr option)
   \<Rightarrow> (nat \<Rightarrow> ((int \<times> string) option \<times> SafeSearchAnnotation option) list res) \<Rightarrow> googleOptions res \<Rightarrow> goerr option \<Rightarrow> WiredModerator res" where
  "googleFactory lk ms wt bt options clientErr = (case googleNew options clientErr of Inl e \<Rightarrow> Inl e | Inr m \<Rightarrow> Inr (googleWired lk ms wt bt m))"

definition hiveFactory :: "(nat \<Rightarrow> hiveWorld) \<Rightarrow> hiveOptions res \<Rightarrow> AdapterConfig \<Rightarrow> WiredModerator res" where
  "hiveFactory w options cfg = (case hiveNew options cfg of Inl e \<Rightarrow> Inl e | Inr m \<Rightarrow> Inr (hiveWired w m))"

definition msFactory :: "(nat \<Rightarrow> msWorld) \<Rightarrow> msOptions res \<Rightarrow> AdapterConfig \<Rightarrow> WiredModerator res" where
  "msFactory w options cfg = (case msNew options cfg of Inl e \<Rightarrow> Inl e | Inr m \<Rightarrow> Inr (msWired w m))"

definition sgFactory :: "urlParser \<Rightarrow> addrParser \<Rightarrow> (nat \<Rightarrow> sgWorld) \<Rightarrow> sgOptions res \<Rightarrow> AdapterConfig \<Rightarrow> WiredModerator res" where
  "sgFactory parse pip w options cfg = (case sgNew parse pip options cfg of Inl e \<Rightarrow> Inl e | Inr m \<Rightarrow> Inr (sgWired w m))"

definition callOf :: "WiredModerator res \<Rightarrow> nat \<Rightarrow> Image \<Rightarrow> NormalizedResult res call" where
  "callOf r i img = (case r of Inl e \<Rightarrow> Ret (Inl e) | Inr m \<Rightarrow> mAnalyzeImage m i img)"

interpretation google: adapter_contract "callOf (googleFactory lk ms wt bt options clientErr)" OriginLikelihoodEnum
  for lk ms wt bt options clientErr
proof
  fix i img
  show "\<exists>r. callOf (googleFactory lk ms wt bt options clientErr) i img = Ret r"
    by (simp add: callOf_def googleFactory_def googleWired_def split: sum.splits)
next
  fix i img r
  assume "callOf (googleFactory lk ms wt bt options clientErr) i img = Ret (Inr r)"
  then obtain m ann raw where "r = okResult ''google'' googleModelVersion (map (\<lambda>(label, lv). catResult (categoryOr googleCategoryMap label) (label @ '':'' @ lk lv)
      (googleScore m (lk lv)) OriginLikelihoodEnum) (googleFields ann)) raw"
    by (auto simp: callOf_def googleFactory_def googleWired_def googleAnalyze_def googleNormalize_def Let_def split: sum.splits option.splits)
  then show "\<exists>cs. nrFrames r = [zeroFrame\<lparr>Status := FrameOK, Categories := cs\<rparr>]
      \<and> (\<forall>c \<in> set cs. crCategory c \<in> set canonicalCategories \<and> crScoreOrigin c = OriginLikelihoodEnum)"
    by (simp only:) (rule one_frame, rule okResult_frames, auto simp: google_canonical)
qed

interpretation hive: adapter_contract "callOf (hiveFactory w options cfg)" OriginProbability for w options cfg
proof
  fix i img
  show "\<exists>r. callOf (hiveFactory w options cfg) i img = Ret r"
    by (simp add: callOf_def hiveFactory_def hiveWired_def split: sum.splits)
next
  fix i img r
  assume "callOf (hiveFactory w options cfg) i img = Ret (Inr r)"
  then obtain m out raw where "hiveNew options cfg = Inr m"
    "r = okResult ''hive'' hiveModelVersion
       (map (\<lambda>c. catResult (categoryOr (hmClassMap m) (ToLower (hcClass c))) (hcClass c) (Some (hcScore c)) OriginProbability) (snd (out :: hiveOutput))) raw"
    by (auto simp: callOf_def hiveFactory_def hiveWired_def hiveAnalyze_def hiveNormalize_def Let_def split: sum.splits list.splits)
  then show "\<exists>cs. nrFrames r = [zeroFrame\<lparr>Status := FrameOK, Categories := cs\<rparr>]
      \<and> (\<forall>c \<in> set cs. crCategory c \<in> set canonicalCategories \<and> crScoreOrigin c = OriginProbability)"
    by (simp only:) (rule one_frame, rule okResult_frames, auto simp: hive_canonical)
qed

interpretation ms: adapter_contract "callOf (msFactory w options cfg)" OriginSeverity for w options cfg
proof
  fix i img
  show "\<exists>r. callOf (msFactory w options cfg) i img = Ret r"
    by (simp add: callOf_def msFactory_def msWired_def split: sum.splits)
next
  fix i img r
  assume "callOf (msFactory w options cfg) i img = Ret (Inr r)"
  then obtain m rs where "msNormalize (w i) m rs = Inr r"
    by (auto simp: callOf_def msFactory_def msWired_def msAnalyze_def split: sum.splits if_splits)
  then obtain raw where "r = okResult ''microsoft'' (moAPIVersion (mmOpts m))
       (map (\<lambda>a. catResult (categoryOr msCategoryMap (anCategory a)) (anCategory a) (Some (mwDiv (w i) (anSeverity a))) OriginSeverity) rs) raw"
    by (auto simp: msNormalize_def Let_def split: sum.splits)
  then show "\<exists>cs. nrFrames r = [zeroFrame\<lparr>Status := FrameOK, Categories := cs\<rparr>]
      \<and> (\<forall>c \<in> set cs. crCategory c \<in> set canonicalCategories \<and> crScoreOrigin c = OriginSeverity)"
    by (simp only:) (rule one_frame, rule okResult_frames, auto simp: ms_canonical)
qed

lemma sg_known_category: "map_of policyPrompts p \<noteq> None \<Longrightarrow> orZero [] (map_of policyCategories p) \<in> set canonicalCategories"
  using policies_category sg_canonical by blast

interpretation sg: adapter_contract "callOf (sgFactory parse pip w options cfg)" OriginProbability for parse pip w options cfg
proof
  fix i img
  show "\<exists>r. callOf (sgFactory parse pip w options cfg) i img = Ret r"
    by (simp add: callOf_def sgFactory_def sgWired_def split: sum.splits)
next
  fix i img r
  assume "callOf (sgFactory parse pip w options cfg) i img = Ret (Inr r)"
  then obtain m where m: "sgNew parse pip options cfg = Inr m" "sgAnalyze (w i) m img = Inr r"
    by (auto simp: callOf_def sgFactory_def sgWired_def split: sum.splits)
  obtain ps where ps: "scorePolicies (w i) m (dataURI img) (smPolicies m) = Inr ps"
    "nrFrames r = [zeroFrame\<lparr>Status := FrameOK, Categories := map (\<lambda>(p, s). catResult (orZero [] (map_of policyCategories p)) p (Some s) OriginProbability) ps\<rparr>]"
    using sgAnalyze_answer [OF m(2)] by blast
  have "fst ` set ps = set (smPolicies m)" using scorePolicies_all [OF ps(1)] by (metis list.set_map)
  then have "\<forall>q \<in> set ps. orZero [] (map_of policyCategories (fst q)) \<in> set canonicalCategories"
    using sgNew_policies(1) [OF m(1)] sg_known_category by blast
  then show "\<exists>cs. nrFrames r = [zeroFrame\<lparr>Status := FrameOK, Categories := cs\<rparr>]
      \<and> (\<forall>c \<in> set cs. crCategory c \<in> set canonicalCategories \<and> crScoreOrigin c = OriginProbability)"
    by (intro one_frame [OF ps(2)]) (auto simp: case_prod_beta)
qed

section \<open>Base64 and the request body\<close>

text \<open>A reading of the encoding, as a specification of the encoder.\<close>

fun indexIn :: "string \<Rightarrow> char \<Rightarrow> nat" where
  "indexIn [] c = 0"
| "indexIn (d # ds) c = (if c = d then 0 else Suc (indexIn ds c))"

definition b64value :: "char \<Rightarrow> nat" where
  "b64value c = indexIn base64Alphabet c"

fun DecodeString :: "string \<Rightarrow> string" where
  "DecodeString (a # b # c # d # s) =
     (let n = b64value a * 262144 + b64value b * 4096 + (if c = CHR ''='' then 0 else b64value c * 64) + (if d = CHR ''='' then 0 else b64value d)
      in char_of (n div 65536) # (if c = CHR ''='' then [] else [char_of (n div 256)]) @ (if d = CHR ''='' then [] else [char_of n]) @ DecodeString s)"
| "DecodeString _ = []"

lemma length_alphabet: "length base64Alphabet = 64"
  by (simp add: base64Alphabet_def)

lemma b64value_digit: "b64value (b64digit n) = n mod 64"
proof -
  have "list_all (\<lambda>k. indexIn base64Alphabet (base64Alphabet ! k) = k) [0..<64]" by code_simp
  moreover have "n mod 64 \<in> set [0..<64]" by simp
  ultimately show ?thesis unfolding b64value_def b64digit_def by (simp only: list_all_iff)
qed

lemma b64digit_in: "b64digit n \<in> set base64Alphabet"
  unfolding b64digit_def by (rule nth_mem) (simp add: length_alphabet)

lemma b64digit_pad: "b64digit n \<noteq> CHR ''=''"
proof -
  have "CHR ''='' \<notin> set base64Alphabet" by (simp add: base64Alphabet_def)
  then show ?thesis using b64digit_in [of n] by auto
qed

lemma regroup:
  assumes "(n::nat) < 16777216"
  shows "n div 262144 mod 64 * 262144 + n div 4096 mod 64 * 4096 + n div 64 mod 64 * 64 + n mod 64 = n"
proof -
  obtain q1 r0 where 0: "n = 64 * q1 + r0" "r0 < 64" by (metis mod_less_divisor mult_div_mod_eq zero_less_numeral)
  obtain q2 r1 where 1: "q1 = 64 * q2 + r1" "r1 < 64" by (metis mod_less_divisor mult_div_mod_eq zero_less_numeral)
  obtain q3 r2 where 2: "q2 = 64 * q3 + r2" "r2 < 64" by (metis mod_less_divisor mult_div_mod_eq zero_less_numeral)
  have "n div 64 = q1" "n mod 64 = r0" using 0 by simp_all
  moreover have "n div 4096 = q2" using 0 1 by simp
  moreover have "n div 262144 = q3" using 0 1 2 by simp
  moreover have "q1 mod 64 = r1" using 1 by simp
  moreover have "q2 mod 64 = r2" using 2 by simp
  moreover have "q3 mod 64 = q3" using assms 0 1 2 by simp
  ultimately show ?thesis using 0 1 2 by simp
qed

lemma nat_parts:
  assumes "y < 256" "z < (256 :: nat)"
  shows "(x * 65536 + y * 256 + z) mod 256 = z" "(x * 65536 + y * 256 + z) div 256 = x * 256 + y" "(x * 65536 + y * 256 + z) div 65536 = x"
proof -
  have e: "x * 65536 + y * 256 + z = z + (x * 256 + y) * 256" by simp
  show "(x * 65536 + y * 256 + z) mod 256 = z" unfolding e using assms(2) by (simp only: mod_mult_self1 mod_less)
  show q: "(x * 65536 + y * 256 + z) div 256 = x * 256 + y" unfolding e using assms(2) by simp
  have "(x * 65536 + y * 256 + z) div 65536 = (x * 65536 + y * 256 + z) div 256 div 256" by (simp only: div_mult2_eq [symmetric]) simp
  then show "(x * 65536 + y * 256 + z) div 65536 = x" unfolding q using assms(1) by simp
qed

lemma char_mod: "(char_of k :: char) = c" if "k mod 256 = (of_char c :: nat)"
  using that by (metis char_of_char char_of_mod_256)

lemma char_parts:
  "(char_of (of_char a * 65536 + of_char b * 256 + of_char c :: nat) :: char) = c"
  "(char_of ((of_char a * 65536 + of_char b * 256 + of_char c :: nat) div 256) :: char) = b"
  "(char_of ((of_char a * 65536 + of_char b * 256 + of_char c :: nat) div 65536) :: char) = a"
proof -
  have lt: "(of_char x :: nat) < 256" for x :: char by simp
  note p = nat_parts [OF lt lt, of "of_char a" b c]
  show "(char_of (of_char a * 65536 + of_char b * 256 + of_char c :: nat) :: char) = c" by (rule char_mod) (rule p(1))
  show "(char_of ((of_char a * 65536 + of_char b * 256 + of_char c :: nat) div 256) :: char) = b"
    unfolding p(2) by (rule char_mod) (use lt [of b] in simp)
  show "(char_of ((of_char a * 65536 + of_char b * 256 + of_char c :: nat) div 65536) :: char) = a" unfolding p(3) by simp
qed

lemma triple_bound: "of_char (a :: char) * 65536 + of_char (b :: char) * 256 + of_char (c :: char) < (16777216 :: nat)"
proof -
  have "(of_char x :: nat) < 256" for x :: char by simp
  from this [of a] this [of b] this [of c] show ?thesis by linarith
qed

lemma Decode_Encode: "DecodeString (EncodeToString s) = s"
proof (induction s rule: EncodeToString.induct)
  case (1 a b c s)
  let ?n = "of_char a * 65536 + of_char b * 256 + (of_char c :: nat)"
  show ?case using 1 regroup [OF triple_bound [of a b c]]
    by (simp only: EncodeToString.simps DecodeString.simps Let_def b64value_digit b64digit_pad char_parts simp_thms if_False append_Cons append_Nil)
next
  case (2 a b)
  let ?n = "of_char a * 65536 + of_char b * 256 :: nat"
  have z: "?n mod 64 = 0" by (simp add: mod_eq_0_iff_dvd)
  have "?n < 16777216" using triple_bound [of a b "CHR 0x00"] by simp
  then have "?n div 262144 mod 64 * 262144 + ?n div 4096 mod 64 * 4096 + ?n div 64 mod 64 * 64 = ?n" using regroup [of ?n] z by simp
  moreover have "(char_of (?n div 256) :: char) = b" "(char_of (?n div 65536) :: char) = a"
    using char_parts(2,3) [of a b "CHR 0x00"] by simp_all
  ultimately show ?case
    by (simp only: EncodeToString.simps DecodeString.simps Let_def b64value_digit b64digit_pad simp_thms if_True if_False add_0_right append_Cons append_Nil)
next
  case (3 a)
  let ?n = "of_char a * 65536 :: nat"
  have "?n div 64 = 64 * (of_char a * 16)" by simp
  then have z: "?n mod 64 = 0" "?n div 64 mod 64 = 0" by (simp_all only: mod_mult_self1_is_0) (simp add: mod_eq_0_iff_dvd)
  have "?n < 16777216" using triple_bound [of a "CHR 0x00" "CHR 0x00"] by simp
  then have "?n div 262144 mod 64 * 262144 + ?n div 4096 mod 64 * 4096 = ?n" using regroup [of ?n] unfolding z by (simp only: mult_0 add_0_right)
  moreover have "(char_of (?n div 65536) :: char) = a" using char_parts(3) [of a "CHR 0x00" "CHR 0x00"] by simp
  ultimately show ?case
    by (simp only: EncodeToString.simps DecodeString.simps Let_def b64value_digit b64digit_pad simp_thms if_True if_False add_0_right append_Cons append_Nil)
qed simp

lemma Encode_length: "length (EncodeToString s) = (length s + 2) div 3 * 4"
proof (induction s rule: EncodeToString.induct)
  case (1 a b c s)
  have "(length (a # b # c # s) + 2) div 3 = (length s + 2) div 3 + 1" by simp
  then show ?case using 1 by (simp add: Let_def)
qed (simp_all add: Let_def)

lemma Encode_chars: "set (EncodeToString s) \<subseteq> insert (CHR ''='') (set base64Alphabet)"
  by (induction s rule: EncodeToString.induct) (auto simp: Let_def b64digit_in)

definition plainJSONChar :: "char \<Rightarrow> bool" where
  "plainJSONChar c \<longleftrightarrow> 0x20 \<le> (of_char c :: nat) \<and> (of_char c :: nat) < 0x80 \<and> c \<notin> {CHR 0x22, CHR 0x5C, CHR ''<'', CHR ''>'', CHR ''&''}"

lemma json_escape_plain: "list_all plainJSONChar s \<Longrightarrow> json_escape s = s"
  by (induction s) (auto simp: plainJSONChar_def escape_ascii_def Let_def)

lemma escapeHTML_plain: "list_all (\<lambda>c. c \<notin> {CHR ''<'', CHR ''>'', CHR ''&'', CHR 0xE2}) s \<Longrightarrow> escapeHTML s = s"
  by (induction s rule: escapeHTML.induct) simp_all

lemma plain_html: "plainJSONChar c \<Longrightarrow> c \<notin> {CHR ''<'', CHR ''>'', CHR ''&'', CHR 0xE2}"
proof -
  assume p: "plainJSONChar c"
  have "c \<noteq> CHR 0xE2"
  proof
    assume "c = CHR 0xE2"
    then show False using p by (simp add: plainJSONChar_def)
  qed
  then show ?thesis using p by (simp only: plainJSONChar_def insert_iff empty_iff) blast
qed

lemma marshalString_plain:
  assumes "list_all plainJSONChar s"
  shows "marshalString s = quoted s"
proof -
  have "list_all (\<lambda>c. c \<notin> {CHR ''<'', CHR ''>'', CHR ''&'', CHR 0xE2}) s"
    using assms by (rule list.pred_mono_strong) (rule plain_html)
  then have "list_all (\<lambda>c. c \<notin> {CHR ''<'', CHR ''>'', CHR ''&'', CHR 0xE2}) (quoted s)" by (simp add: quoted_def)
  then show ?thesis using escapeHTML_plain json_escape_plain [OF assms] by (simp add: marshalString_def writeJCSString_def quoted_def)
qed

lemma Encode_plain: "list_all plainJSONChar (EncodeToString s)"
proof -
  have "list_all plainJSONChar (CHR ''='' # base64Alphabet)" by code_simp
  then show ?thesis using Encode_chars [of s] by (auto simp: list_all_iff)
qed

section \<open>The token cache\<close>

fun runTokens :: "imdsTokenSource \<Rightarrow> imdsWorld list \<Rightarrow> string res list" where
  "runTokens s [] = []"
| "runTokens s (w # ws) = (let (s', r) = TokenOf s w in r # runTokens s' ws)"

lemma TokenOf_state: "fst (TokenOf s w) = s \<or> (\<exists>ex. imdsFetch w = Inr (itToken (fst (TokenOf s w)), ex) \<and> itExpiry (fst (TokenOf s w)) = ex)"
  by (auto simp: TokenOf_def split: sum.splits)

lemma runTokens_issued:
  "k < length ws \<Longrightarrow> runTokens s ws ! k = Inr tok \<Longrightarrow>
     itToken s = tok \<and> tok \<noteq> [] \<and> iwNow (ws ! k) < itExpiry s - 2 * Minute
     \<or> (\<exists>j \<le> k. \<exists>ex. imdsFetch (ws ! j) = Inr (tok, ex) \<and> (j = k \<or> iwNow (ws ! k) < ex - 2 * Minute))"
proof (induction ws arbitrary: s k)
  case (Cons w ws)
  let ?s = "fst (TokenOf s w)"
  show ?case
  proof (cases k)
    case 0
    then show ?thesis using Cons.prems(2) by (auto simp: TokenOf_def split: sum.splits if_splits)
  next
    case (Suc m)
    have h: "m < length ws" "runTokens ?s ws ! m = Inr tok" using Cons.prems Suc by (simp_all add: case_prod_beta)
    consider (cached) "itToken ?s = tok" "tok \<noteq> []" "iwNow (ws ! m) < itExpiry ?s - 2 * Minute"
      | (fetched) j ex where "j \<le> m" "imdsFetch (ws ! j) = Inr (tok, ex)" "j = m \<or> iwNow (ws ! m) < ex - 2 * Minute"
      using Cons.IH [OF h] by blast
    then show ?thesis
    proof cases
      case cached
      show ?thesis using TokenOf_state [of s w] cached Suc by (metis nth_Cons_0 nth_Cons_Suc zero_le)
    next
      case (fetched j ex)
      then show ?thesis using Suc by (intro disjI2 exI [of _ "Suc j"]) auto
    qed
  qed
qed simp

section \<open>Properties\<close>

text \<open>The moderators the registered factories build, with the origin of their scores.\<close>

inductive builtAdapter :: "WiredModerator \<Rightarrow> ScoreOrigin \<Rightarrow> bool" where
  built_google: "googleFactory lk ms wt bt options clientErr = Inr m \<Longrightarrow> builtAdapter m OriginLikelihoodEnum"
| built_hive: "hiveFactory w options cfg = Inr m \<Longrightarrow> builtAdapter m OriginProbability"
| built_ms: "msFactory w' options' cfg = Inr m \<Longrightarrow> builtAdapter m OriginSeverity"
| built_sg: "sgFactory parse pip w'' options'' cfg = Inr m \<Longrightarrow> builtAdapter m OriginProbability"

lemma callOf_Inr: "r = Inr m \<Longrightarrow> callOf r = mAnalyzeImage m"
  by (simp add: callOf_def fun_eq_iff)

lemma built_contract: "builtAdapter m og \<Longrightarrow> adapter_contract (mAnalyzeImage m) og"
proof (induction rule: builtAdapter.induct)
  case (built_google lk ms wt bt options clientErr m)
  then show ?case using google.adapter_contract_axioms [of lk ms wt bt options clientErr] by (simp only: callOf_Inr)
next
  case (built_hive w options cfg m)
  then show ?case using hive.adapter_contract_axioms [of w options cfg] by (simp only: callOf_Inr)
next
  case (built_ms w options cfg m)
  then show ?case using ms.adapter_contract_axioms [of w options cfg] by (simp only: callOf_Inr)
next
  case (built_sg parse pip w options cfg m)
  then show ?case using sg.adapter_contract_axioms [of parse pip w options cfg] by (simp only: callOf_Inr)
qed


text \<open>
  C34. What ShieldGemma reports is a probability for every policy it declares: an answered image has one category per
  declared policy, in order, each with a score in the unit interval whatever the numbers the server sent; every
  declared policy is a known one, and after the boot check each has an entry under the provider thresholds.
\<close>

theorem policies_scored_and_armed:
  assumes "sgNew parse pip options acfg = Inr m" "sgAnalyze w m img = Inr r"
  shows "\<exists>cs. nrFrames r = [zeroFrame\<lparr>Status := FrameOK, Categories := cs\<rparr>] \<and> map ProviderLabel cs = smPolicies m
    \<and> (\<forall>c \<in> set cs. \<exists>q. Score c = Some (Fin q) \<and> 0 \<le> q \<and> q \<le> 1)
    \<and> (\<forall>l \<in> set (map ProviderLabel cs). map_of policyPrompts l \<noteq> None)
    \<and> (validateProviderLabelBoot cfg (sgWired ws m) = None \<longrightarrow>
         (\<forall>l \<in> set (map ProviderLabel cs). ToLower l \<in> configuredLabels (cProviderThresholds cfg)))"
proof -
  obtain ps where ps: "scorePolicies w m (dataURI img) (smPolicies m) = Inr ps"
    "nrFrames r = [zeroFrame\<lparr>Status := FrameOK, Categories := map (\<lambda>(p, s). catResult (orZero [] (map_of policyCategories p)) p (Some s) OriginProbability) ps\<rparr>]"
    using sgAnalyze_answer [OF assms(2)] by blast
  note a = scorePolicies_all [OF ps(1)]
  let ?cs = "map (\<lambda>(p, s). catResult (orZero [] (map_of policyCategories p)) p (Some s) OriginProbability) ps"
  have l: "map ProviderLabel ?cs = smPolicies m" using a by (auto simp: comp_def case_prod_beta)
  have "\<forall>c \<in> set ?cs. \<exists>q. Score c = Some (Fin q) \<and> 0 \<le> q \<and> q \<le> 1" using a by (auto simp: case_prod_beta)
  moreover have "validateProviderLabelBoot cfg (sgWired ws m) = None \<longrightarrow>
      (\<forall>l \<in> set (smPolicies m). ToLower l \<in> configuredLabels (cProviderThresholds cfg))"
    by (auto simp: validateProviderLabelBoot_def sgWired_def Let_def filter_empty_conv split: if_splits)
  ultimately show ?thesis using ps(2) l sgNew_policies(1) [OF assms(1)] by (intro exI [of _ ?cs]) (simp only: simp_thms)
qed

text \<open>
  C37. The body of an analyze request, written in one pass, is byte for byte what marshalling the struct gives; the
  image takes exactly the encoded length, and decoding it gives the image back.
\<close>

theorem analyze_body_is_marshal:
  "encodeAnalyzeRequest raw = marshalAnalyzeRequest \<lparr>arContent = EncodeToString raw, arOutputType = ''FourSeverityLevels''\<rparr>
   \<and> length (EncodeToString raw) = (length raw + 2) div 3 * 4 \<and> DecodeString (EncodeToString raw) = raw"
proof -
  have "list_all plainJSONChar ''FourSeverityLevels''" by code_simp
  then have "marshalString ''FourSeverityLevels'' = quoted ''FourSeverityLevels''" by (rule marshalString_plain)
  then have "encodeAnalyzeRequest raw = marshalAnalyzeRequest \<lparr>arContent = EncodeToString raw, arOutputType = ''FourSeverityLevels''\<rparr>"
    using marshalString_plain [OF Encode_plain [of raw]]
    by (simp add: encodeAnalyzeRequest_def marshalAnalyzeRequest_def jmember_def quoted_def)
  then show ?thesis using Encode_length Decode_Encode by simp
qed

text \<open>
  C36. Every token the identity source hands out was issued to it: at that call, or at an earlier one with an expiry
  more than two minutes ahead of the time it is handed out at. A failed refresh never hands out a stale token.
\<close>

theorem tokens_are_fresh:
  assumes "k < length ws" "runTokens \<lparr>itToken = [], itExpiry = 0\<rparr> ws ! k = Inr tok"
  shows "\<exists>j \<le> k. \<exists>ex. imdsFetch (ws ! j) = Inr (tok, ex) \<and> (j = k \<or> iwNow (ws ! k) < ex - 2 * Minute)"
  using runTokens_issued [OF assms] by auto

text \<open>
  A head without a score, and a category without a severity, read as the score zero: the answer passes as allowed
  under the default thresholds, where the result schema keeps an unknown value apart from zero.
\<close>

theorem missing_score_reads_as_zero:
  "hiveNormalize (\<lambda>out. Inr []) \<lparr>hmOpts = ho, hmToken = tok, hmClassMap = defaultClassMap\<rparr>
      (fillHive [[(None, [\<lparr>hdClass = Some ''general_nsfw'', hdScore = None\<rparr>])]])
    = Inr (okResult ''hive'' hiveModelVersion [catResult CategorySexual ''general_nsfw'' (Some (Fin 0)) OriginProbability] [])
   \<and> ovVerdict (Rollup [zeroFrame\<lparr>Status := FrameOK, Categories := ApplyThresholds
        [catResult CategorySexual ''general_nsfw'' (Some (Fin 0)) OriginProbability] (cThresholds Defaults)\<rparr>] (cThresholds Defaults)) = VerdictAllow
   \<and> fillAnalysis \<lparr>adCategory = Some ''Hate'', adSeverity = None\<rparr> = fillAnalysis \<lparr>adCategory = Some ''Hate'', adSeverity = Some 0\<rparr>"
proof (intro conjI)
  have "categoryOr defaultClassMap (ToLower ''general_nsfw'') = CategorySexual" by code_simp
  then show "hiveNormalize (\<lambda>out. Inr []) \<lparr>hmOpts = ho, hmToken = tok, hmClassMap = defaultClassMap\<rparr>
      (fillHive [[(None, [\<lparr>hdClass = Some ''general_nsfw'', hdScore = None\<rparr>])]])
    = Inr (okResult ''hive'' hiveModelVersion [catResult CategorySexual ''general_nsfw'' (Some (Fin 0)) OriginProbability] [])"
    by (simp add: hiveNormalize_def fillHive_def fillHiveClass_def orZero_def)
  show "ovVerdict (Rollup [zeroFrame\<lparr>Status := FrameOK, Categories := ApplyThresholds
        [catResult CategorySexual ''general_nsfw'' (Some (Fin 0)) OriginProbability] (cThresholds Defaults)\<rparr>] (cThresholds Defaults)) = VerdictAllow"
    by code_simp
qed (simp add: fillAnalysis_def orZero_def)

text \<open>
  C35. An image the provider could not rate is an error, never allowed: when every likelihood is unknown, no matter
  which scores the options assign to the names of likelihoods, the frame keeps its five categories without a score
  and the verdict is error.
\<close>

theorem unknown_likelihoods_are_error:
  assumes "googleFactory lk ms wt bt options clientErr = Inr m" "pModerator p = moderatorOf (InstrumentModerator m)"
    "evaluateFrame p w gone i path ts = Ret (Inr (fr, raw))"
    "\<forall>e ann rest. bt i = Inr ((e, Some ann) # rest) \<longrightarrow> (\<forall>f \<in> set (googleFields ann). lk (snd f) = ''UNKNOWN'')"
  shows "length (Categories fr) = 5 \<and> ovVerdict (Rollup [fr] (pThresholds p)) = VerdictError"
proof -
  have p: "mAnalyzeImage (pModerator p) = mAnalyzeImage m" by (simp add: assms(2) moderatorOf_def InstrumentModerator_fields)
  obtain gm where gm: "m = googleWired lk ms wt bt gm" using assms(1) by (auto simp: googleFactory_def split: sum.splits)
  obtain b r cs where e: "mAnalyzeImage m i b = Ret (Inr r)" "nrFrames r = [zeroFrame\<lparr>Status := FrameOK, Categories := cs\<rparr>]"
    "fr = zeroFrame\<lparr>TimestampSec := ts, Status := FrameOK, Categories := ApplyThresholds cs (pThresholds p)\<rparr>"
    using adapter_contract.frame_evaluated [OF built_contract [OF built_google [OF assms(1)]] p assms(3)] by blast
  obtain er ann rest raw' where a: "bt i = Inr ((er, Some ann) # rest)"
    "r = okResult ''google'' googleModelVersion (map (\<lambda>(label, lv). catResult (categoryOr googleCategoryMap label) (label @ '':'' @ lk lv)
      (googleScore gm (lk lv)) OriginLikelihoodEnum) (googleFields ann)) raw'"
    using e(1) by (auto simp: gm googleWired_def googleAnalyze_def googleNormalize_def DetectSafeSearch_def Let_def
        split: sum.splits option.splits list.splits prod.splits)
  have u: "\<forall>f \<in> set (googleFields ann). lk (snd f) = ''UNKNOWN''" using assms(4) a(1) by blast
  have cs: "cs = map (\<lambda>(label, lv). catResult (categoryOr googleCategoryMap label) (label @ '':'' @ lk lv) (googleScore gm (lk lv)) OriginLikelihoodEnum) (googleFields ann)"
    using frame_inject [OF trans [OF e(2) [symmetric]], OF arg_cong [OF a(2), of nrFrames, unfolded okResult_frames]] .
  have "\<forall>c \<in> set cs. Score c = None" using u by (auto simp: cs googleScore_def)
  then have "\<forall>c \<in> set (Categories fr). Score c = None" by (auto simp: e(3) ApplyThresholds_def Let_def)
  moreover have "length (Categories fr) = 5" by (simp add: e(3) ApplyThresholds_simps cs googleFields_def)
  ultimately show ?thesis using unscored_error by blast
qed

section \<open>Witnesses\<close>

text \<open>The names the service documents for its likelihoods, and an image rated on all of them.\<close>

definition likelihoodName :: "int \<Rightarrow> string" where
  "likelihoodName n =
     (if 1 \<le> n \<and> n \<le> 5 then [''VERY_UNLIKELY'', ''UNLIKELY'', ''POSSIBLE'', ''LIKELY'', ''VERY_LIKELY''] ! nat (n - 1) else ''UNKNOWN'')"

definition demoOptions :: googleOptions where
  "demoOptions = \<lparr>goRateLimitRPS = Fin 0, goLikelihoodScores = [(''unknown'', Fin 0)]\<rparr>"

definition demoGoogle :: "SafeSearchAnnotation \<Rightarrow> WiredModerator" where
  "demoGoogle ann = googleWired likelihoodName (\<lambda>m. Inr []) (\<lambda>i. None) (\<lambda>i. Inr [(None, Some ann)]) (googleNewWith demoOptions)"

definition googlePipeline :: "SafeSearchAnnotation \<Rightarrow> Pipeline" where
  "googlePipeline ann = demoPipeline\<lparr>pModerator := moderatorOf (InstrumentModerator (demoGoogle ann)), pThresholds := cThresholds Defaults\<rparr>"

definition annotated :: "int \<Rightarrow> SafeSearchAnnotation" where
  "annotated n = \<lparr>ssAdult = n, ssSpoof = n, ssMedical = n, ssViolence = n, ssRacy = n\<rparr>"

lemma demoGoogle_built:
  "googleFactory likelihoodName (\<lambda>m. Inr []) (\<lambda>i. None) (\<lambda>i. Inr [(None, Some ann)]) (Inr demoOptions) None = Inr (demoGoogle ann)"
  by (simp add: googleFactory_def googleNew_def demoGoogle_def)

lemma googlePipeline_moderator: "pModerator (googlePipeline ann) = moderatorOf (InstrumentModerator (demoGoogle ann))"
  by (simp add: googlePipeline_def)

lemma demoGoogle_evaluates: "\<exists>fr. evaluateFrame (googlePipeline ann) demoWorld [] 0 ''a'' None = Ret (Inr (fr, []))"
  by (simp add: evaluateFrame_def googlePipeline_def demoPipeline_def demoWorld_def moderatorOf_def InstrumentModerator_fields demoGoogle_def
      googleWired_def googleCaps_def googleAnalyze_def DetectSafeSearch_def googleNormalize_def Let_def) (simp add: okResult_def)


theorem unknown_likelihoods_are_error_witness:
  "\<exists>fr. evaluateFrame (googlePipeline (annotated 0)) demoWorld [] 0 ''a'' None = Ret (Inr (fr, []))
     \<and> ovVerdict (Rollup [fr] (pThresholds (googlePipeline (annotated 0)))) = VerdictError"
proof -
  obtain fr where fr: "evaluateFrame (googlePipeline (annotated 0)) demoWorld [] 0 ''a'' None = Ret (Inr (fr, []))"
    using demoGoogle_evaluates by blast
  have "likelihoodName 0 = ''UNKNOWN''" by (simp add: likelihoodName_def)
  then show ?thesis
    using unknown_likelihoods_are_error [OF demoGoogle_built googlePipeline_moderator fr] fr by (auto simp: annotated_def googleFields_def)
qed

definition demoTransport :: Transport where
  "demoTransport = \<lparr>trWait = \<lambda>a. None, trNew = \<lambda>a. None, trToken = \<lambda>a. Inr ''t'', trMultipart = \<lambda>a f n b. (b, ''multipart/form-data''),
     trSend = \<lambda>a r. GotResp \<lparr>rStatus = 200, rHeader = \<lambda>h. [], rBody = ''{}'', rReadErr = None\<rparr>, trSleep = \<lambda>a. None\<rparr>"

text \<open>A server that answers with the odds of three to one, written as the exponential of a label.\<close>

definition demoExp :: "float64 \<Rightarrow> float64" where
  "demoExp x = (if x = Fin 0 then Fin (3 / 4) else Fin (1 / 4))"

fun finiteOp :: "(rat \<Rightarrow> rat \<Rightarrow> rat) \<Rightarrow> float64 \<Rightarrow> float64 \<Rightarrow> float64" where
  "finiteOp f (Fin x) (Fin y) = Fin (f x y)"
| "finiteOp f x y = NaN"

definition demoServerWorld :: sgWorld where
  "demoServerWorld = \<lparr>swTransport = \<lambda>p. demoTransport,
     swDecode = \<lambda>b. Inr [[[\<lparr>ldToken = Some ''Yes'', ldLogprob = Some (Fin 0)\<rparr>, \<lparr>ldToken = Some '' no'', ldLogprob = Some (Fin (- 1))\<rparr>]]],
     swMarshal = \<lambda>m. Inr [], swExp = demoExp, swAdd = finiteOp (+), swDiv = finiteOp (/)\<rparr>"

definition demoShield :: sgModerator where
  "demoShield = \<lparr>smOpts = \<lparr>soEndpoint = ''https://gpu/v1'', soModelVersion = ''v1'', soPolicies = [''violence_gore''], soRateLimitRPS = Fin 0,
     soMaxAttempts = 0, soTimeoutSeconds = 0\<rparr>, smPolicies = [''violence_gore''], smTimeout = 120 * Second\<rparr>"

definition overrideConfig :: AdapterConfig where
  "overrideConfig = \<lparr>acOptions = [], acSecret = \<lambda>k. [], acProviderThresholdMode = ''override''\<rparr>"

theorem policies_scored_and_armed_witness:
  "\<exists>r cs. sgAnalyze demoServerWorld demoShield \<lparr>Bytes = ''x'', MIME = []\<rparr> = Inr r
     \<and> nrFrames r = [zeroFrame\<lparr>Status := FrameOK, Categories := cs\<rparr>] \<and> map ProviderLabel cs = [''violence_gore'']
     \<and> (\<forall>c \<in> set cs. \<exists>q. Score c = Some (Fin q) \<and> 0 \<le> q \<and> q \<le> 1)"
proof -
  have v: "validateEndpoint (\<lambda>s. Inr (demoURL [])) (\<lambda>h. None) ''https://gpu/v1'' = None" by code_simp
  have p: "selectPolicies [''violence_gore''] = Inr [''violence_gore'']" by code_simp
  have t: "TrimSpace ''v1'' = ''v1''" "ToLower (TrimSpace ''override'') = ''override''" by code_simp+
  have n: "sgNew (\<lambda>s. Inr (demoURL [])) (\<lambda>h. None) (Inr (smOpts demoShield)) overrideConfig = Inr demoShield"
    by (simp add: sgNew_def demoShield_def overrideConfig_def v p t newHTTPClientTimeout_def wrapInt64_def Let_def del: selectPolicies.simps)
  have j: "fst (DoJSON (worldOf demoTransport (sgRequest demoTransport demoShield body)) 0 0 []) = Inr ''{}''" for body
    by (simp add: DoJSON_def effAttempts_def doLoop.simps attemptResult_def worldOf_def sgRequest_def NewJSONRequest_def demoTransport_def maxBody_def)
  have l: "smPolicies demoShield = [''violence_gore'']" by (simp add: demoShield_def)
  have y: "ToLower (TrimSpace ''Yes'') = ''yes''" "ToLower (TrimSpace '' no'') = ''no''" by code_simp+
  have "scorePolicy demoServerWorld demoShield ''violence_gore'' uri = Inr (Fin (3 / 4))" for uri
    using j by (simp add: scorePolicy_def Let_def demoServerWorld_def demoShield_def yesProbability_def orZero_def y demoExp_def clamp01_def)
  then obtain r where r: "sgAnalyze demoServerWorld demoShield \<lparr>Bytes = ''x'', MIME = []\<rparr> = Inr r"
    by (simp add: sgAnalyze_def demoShield_def demoServerWorld_def)
  show ?thesis
    using policies_scored_and_armed [OF n r, of Defaults "\<lambda>i. demoServerWorld"] r l by metis
qed

definition imdsAnswers :: "imdsWorld list" where
  "imdsAnswers =
     [\<lparr>iwNow = 0, iwNewErr = None, iwDo = GotResp \<lparr>rStatus = 200, rHeader = \<lambda>h. [], rBody = ''{}'', rReadErr = None\<rparr>,
        iwDecode = \<lambda>b. Inr (Some ''tok'', Some ''600''), iwNowAfter = 0\<rparr>,
      \<lparr>iwNow = 60 * Second, iwNewErr = None, iwDo = NetErr (errorf ''down''), iwDecode = \<lambda>b. Inr (None, None), iwNowAfter = 0\<rparr>,
      \<lparr>iwNow = 540 * Second, iwNewErr = None, iwDo = NetErr (errorf ''down''), iwDecode = \<lambda>b. Inr (None, None), iwNowAfter = 0\<rparr>]"

theorem tokens_are_fresh_witness:
  "runTokens \<lparr>itToken = [], itExpiry = 0\<rparr> imdsAnswers ! 1 = Inr ''tok'' \<and> isl (runTokens \<lparr>itToken = [], itExpiry = 0\<rparr> imdsAnswers ! 2)
   \<and> (\<exists>j \<le> 1. \<exists>ex. imdsFetch (imdsAnswers ! j) = Inr (''tok'', ex) \<and> (j = 1 \<or> iwNow (imdsAnswers ! 1) < ex - 2 * Minute))"
proof -
  have a: "Atoi ''600'' = Some 600" by code_simp
  have r: "runTokens \<lparr>itToken = [], itExpiry = 0\<rparr> imdsAnswers ! 1 = Inr ''tok''"
    "isl (runTokens \<lparr>itToken = [], itExpiry = 0\<rparr> imdsAnswers ! 2)"
    by (simp_all add: imdsAnswers_def TokenOf_def imdsFetch_def orZero_def a)
  have "1 < length imdsAnswers" by (simp add: imdsAnswers_def)
  then show ?thesis using tokens_are_fresh [OF _ r(1)] r by blast
qed

end
