(* ===== verification/Boot.thy ===== *)
theory Boot
  imports Serve Redisq Workflow Adapters
begin

text \<open>
  Boot of the worker (\<open>newServer\<close>, \<open>newQueue\<close>, \<open>close\<close> and \<open>Serve\<close> of \<open>internal/cli/serve.go\<close> and \<open>boot.go\<close>) with the
  resources it holds open, and the one-shot command of \<open>internal/cli/scan.go\<close> with its exit code. The outcomes of
  opening files and of reaching Redis are arguments; logging, metrics and the listeners are left out.
\<close>

section \<open>Boot (serve.go, wire.go)\<close>

datatype Resource = RModerator | RAudit | RSinkFile nat | RRedis

record BootWorld =
  bwTemplates :: Templates
  bwLookPath :: "string \<Rightarrow> goerr option"
  bwFactories :: "(string \<Rightarrow> AdapterConfig \<Rightarrow> WiredModerator res) registry"
  bwGetenv :: "string \<Rightarrow> string"
  bwDisk :: Disk
  bwAuditErr :: "goerr option"
  bwDecoders :: Decoders
  bwSinkErr :: "nat \<Rightarrow> goerr option"
  bwPing :: "goerr option"
  bwInstance :: string
  bwNumber :: "rat \<Rightarrow> string"

definition validateFrameBoot :: "Templates \<Rightarrow> (string \<Rightarrow> goerr option) \<Rightarrow> Config \<Rightarrow> goerr option" where
  "validateFrameBoot tm lookPath cfg =
     (case ValidateBinaries lookPath (cFFmpeg cfg) of Some e \<Rightarrow> Some e | None \<Rightarrow> ValidateAll tm (cFFmpeg cfg))"

datatype BuiltQueue = QMem Memq | QRedis Replica

definition queueConfigOf :: "QueueSection \<Rightarrow> QueueConfig" where
  "queueConfigOf q =
     \<lparr>Workers = qsWorkers q, Buffer = qsBuffer q, MaxRetries = qsMaxRetries q, RetryBackoff = qsRetryBackoff q,
      DrainTimeout = qsDrainTimeout q, JobTimeout = qsJobTimeout q, DeadLetterMax = qsDeadLetterMax q\<rparr>"

text \<open>The first component is what is left open: the client of a Redis that did not answer is not closed.\<close>

definition newQueue :: "BootWorld \<Rightarrow> Config \<Rightarrow> Resource list \<times> BuiltQueue res" where
  "newQueue w cfg =
     (let qc = queueConfigOf (cQueue cfg) in
      if qsDriver (cQueue cfg) = ''memory'' then ([], Inr (QMem (NewMemq qc)))
      else if qsDriver (cQueue cfg) = ''redis'' then
        (case bwPing w of
           Some e \<Rightarrow> ([RRedis], Inl (wrapf (''queue.driver=redis: cannot reach '' @ redisAddr (qsRedis (cQueue cfg)) @ '': '') e))
         | None \<Rightarrow> ([RRedis], Inr (QRedis (NewRedisq qc (bwInstance w)))))
      else ([], Inl (errorf (''unknown queue.driver '' @ quoted (qsDriver (cQueue cfg))))))"

record BuiltServer =
  bsModerator :: WiredModerator
  bsPipeline :: Pipeline
  bsFetcher :: Fetcher
  bsQueue :: BuiltQueue
  bsBackpressure :: Backpressure
  bsTracker :: JobTracker
  bsResults :: "resultStore option"
  bsAudit :: "Log option"
  bsFanout :: "(SinkState \<times> string) list"
  bsSinkFiles :: "nat list"

text \<open>The decorator is absent, or a hook that may be nil. Every exit names what is still open.\<close>

definition newServer ::
  "BootWorld \<Rightarrow> (WiredModerator \<Rightarrow> WiredModerator option) option option \<Rightarrow> Config \<Rightarrow> Resource list \<times> BuiltServer res" where
  "newServer w decorator cfg =
     (case validateFrameBoot (bwTemplates w) (bwLookPath w) cfg of
        Some e \<Rightarrow> ([], Inl (wrapf ''boot validation: '' e))
      | None \<Rightarrow>
     (case buildModerator (bwFactories w) (bwGetenv w) cfg of
        Inl e \<Rightarrow> ([], Inl e)
      | Inr m0 \<Rightarrow>
     (let opened = [RModerator]; closeMod = removeAll RModerator in
      case validateProviderLabelBoot cfg m0 of
        Some e \<Rightarrow> (closeMod opened, Inl (wrapf ''boot validation: '' e))
      | None \<Rightarrow>
     (case (case decorator of None \<Rightarrow> Inr m0 | Some fn \<Rightarrow> applyModeratorDecorator m0 fn) of
        Inl e \<Rightarrow> (closeMod opened, Inl e)
      | Inr m1 \<Rightarrow>
     (let m = InstrumentModerator m1 in
      case openAudit (bwDisk w) (bwAuditErr w) cfg of
        Inl e \<Rightarrow> (closeMod opened, Inl e)
      | Inr alog \<Rightarrow>
     (let opened2 = opened @ (if alog = None then [] else [RAudit]);
          closeAudit = (\<lambda>rs. if alog = None then rs else removeAll RAudit rs) in
      case buildSinks (bwDecoders w) (bwSinkErr w) (cOutput cfg) of
        (left, Inl e) \<Rightarrow> (closeAudit (closeMod (opened2 @ map RSinkFile left)), Inl e)
      | (left, Inr (fan, closers)) \<Rightarrow>
     (let opened3 = opened2 @ map RSinkFile left;
          closeSinks = filter (\<lambda>r. \<forall>f \<in> set closers. r \<noteq> RSinkFile f) in
      case newQueue w cfg of
        (qs, Inl e) \<Rightarrow> (closeSinks (closeAudit (closeMod (opened3 @ qs))), Inl e)
      | (qs, Inr q) \<Rightarrow>
          (opened3 @ qs,
           Inr \<lparr>bsModerator = m, bsPipeline = buildPipeline (bwNumber w) cfg m, bsFetcher = newFetcher cfg, bsQueue = q,
             bsBackpressure = NewBackpressure (bpConsecutiveErrors (cBackpressure cfg)) (bpErrorRatePct (cBackpressure cfg))
               (bpWindow (cBackpressure cfg)) (bpRecoverySuccesses (cBackpressure cfg)),
             bsTracker = NewJobTracker 200,
             bsResults = (if raEnabled (cResultAPI cfg) then Some (newResultStore (raMaxEntries (cResultAPI cfg)) (raTTL (cResultAPI cfg))) else None),
             bsAudit = alog, bsFanout = fan, bsSinkFiles = closers\<rparr>))))))))"

text \<open>\<open>close\<close> of the server.\<close>

definition closeServer :: "BuiltServer \<Rightarrow> Resource list \<Rightarrow> Resource list" where
  "closeServer s rs =
     (let rs1 = removeAll RModerator rs;
          rs2 = (if bsAudit s = None then rs1 else removeAll RAudit rs1)
      in filter (\<lambda>r. \<forall>f \<in> set (bsSinkFiles s). r \<noteq> RSinkFile f) rs2)"

section \<open>The one-shot command (scan.go)\<close>

record scanOptions =
  scWorkflows :: "string list"
  scDedupThreshold :: "int option"
  scMetadata :: string

definition scanOptionsFrom :: "string list \<Rightarrow> int option \<Rightarrow> string option \<Rightarrow> scanOptions" where
  "scanOptionsFrom workflows dedupFlag metadataFlag =
     \<lparr>scWorkflows = workflows, scDedupThreshold = dedupFlag, scMetadata = (case metadataFlag of Some m \<Rightarrow> m | None \<Rightarrow> [])\<rparr>"

record ScanWorld =
  swAbs :: "string \<Rightarrow> string res"
  swStat :: "string \<Rightarrow> goerr option"
  swNow :: "nat \<Rightarrow> int"
  swJob :: "nat \<Rightarrow> JobWorld"

definition scanJob :: "ScanWorld \<Rightarrow> scanOptions \<Rightarrow> string \<Rightarrow> nat \<Rightarrow> string \<Rightarrow> Job" where
  "scanJob w opts meta i absPath =
     \<lparr>jID = ''scan-'' @ show_int (swNow w i) @ ''-'' @ show_nat i,
      jSource = \<lparr>Kind = ''file'', Ref = absPath, RefDigest = [], srcMediaType = mediaTypeFor absPath\<rparr>,
      Workflows = scWorkflows opts, DedupThreshold = scDedupThreshold opts, jMetadata = meta, SubmittedAt = swNow w i\<rparr>"

definition scanExit :: "JobOutcome \<Rightarrow> int \<Rightarrow> int" where
  "scanExit out exit =
     (if oDisp out \<noteq> Ack then 2
      else if (\<exists>env. oEnv out = Some env \<and> (\<exists>r. eResult env = Some r \<and> ovVerdict (Overall r) \<noteq> VerdictAllow)) \<and> exit = 0 then 1
      else exit)"

text \<open>The outcomes so far and the exit code, or the error an input stopped the command with.\<close>

fun scanLoop :: "Pipeline \<Rightarrow> ScanWorld \<Rightarrow> scanOptions \<Rightarrow> string \<Rightarrow> nat \<Rightarrow> string list \<Rightarrow> int \<Rightarrow> (JobOutcome list \<times> int res) call" where
  "scanLoop p w opts meta i [] exit = Ret ([], Inr exit)"
| "scanLoop p w opts meta i (path # paths) exit =
     (case swAbs w path of
        Inl e \<Rightarrow> Ret ([], Inl (wrapf (''resolve '' @ path @ '': '') e))
      | Inr absPath \<Rightarrow>
          (case swStat w absPath of
             Some e \<Rightarrow> Ret ([], Inl (wrapf (''input '' @ path @ '': '') e))
           | None \<Rightarrow>
               (case ProcessJob p (swJob w i) (scanJob w opts meta i absPath) of
                  Panicked m \<Rightarrow> Panicked m
                | Ret out \<Rightarrow>
                    (case scanLoop p w opts meta (i + 1) paths (scanExit out exit) of
                       Panicked m \<Rightarrow> Panicked m
                     | Ret (outs, r) \<Rightarrow> Ret (out # outs, r)))))"

definition runScan :: "BootWorld \<Rightarrow> ScanWorld \<Rightarrow> Config \<Rightarrow> string list \<Rightarrow> scanOptions \<Rightarrow> (JobOutcome list \<times> int res) call" where
  "runScan bw w cfg args opts =
     (let stop = (\<lambda>e. Ret ([], Inl e)) in
      case (if list_ex (\<lambda>path. mediaTypeFor path = ''video'') args then validateFrameBoot (bwTemplates bw) (bwLookPath bw) cfg else None) of
        Some e \<Rightarrow> stop (wrapf ''boot validation: '' e)
      | None \<Rightarrow>
     (case validateWorkflowSelection cfg (scWorkflows opts) of
        Some e \<Rightarrow> stop e
      | None \<Rightarrow>
     (case validateDedupThreshold (scDedupThreshold opts) (HammingThreshold (fcDedup (cFrames cfg))) of
        Some e \<Rightarrow> stop e
      | None \<Rightarrow>
     (case ValidateMetadata (scMetadata opts) of
        Inl e \<Rightarrow> stop e
      | Inr meta \<Rightarrow>
     (case buildModerator (bwFactories bw) (bwGetenv bw) cfg of
        Inl e \<Rightarrow> stop e
      | Inr m \<Rightarrow>
     (case validateProviderLabelBoot cfg m of
        Some e \<Rightarrow> stop (wrapf ''boot validation: '' e)
      | None \<Rightarrow>
     (case openAudit (bwDisk bw) (bwAuditErr bw) cfg of
        Inl e \<Rightarrow> stop e
      | Inr alog \<Rightarrow>
     (case snd (buildSinks (bwDecoders bw) (bwSinkErr bw) (cOutput cfg)) of
        Inl e \<Rightarrow> stop e
      | Inr fan \<Rightarrow> scanLoop (buildPipeline (bwNumber bw) cfg m) w opts meta 0 args 0))))))))"

section \<open>Facts\<close>

lemma newQueue_open:
  "newQueue w cfg = (qs, r) \<Longrightarrow> set qs \<subseteq> {RRedis} \<and> (qs \<noteq> [] \<longleftrightarrow> qsDriver (cQueue cfg) = ''redis'')
     \<and> (\<forall>e. r = Inl e \<longrightarrow> qs \<noteq> [] \<longrightarrow> bwPing w \<noteq> None) \<and> (\<forall>q. r = Inr q \<longrightarrow> (qs \<noteq> [] \<longleftrightarrow> (\<exists>x. q = QRedis x)))"
  by (auto simp: newQueue_def Let_def split: if_splits option.splits)

text \<open>The two ways \<open>newServer\<close> ends.\<close>

lemma newServer_failed:
  assumes "newServer w deco cfg = (left, Inl e)"
  shows "left = [] \<or> (\<exists>qs e'. newQueue w cfg = (qs, Inl e') \<and> set left \<subseteq> set qs)"
proof -
  have s: "l = []" if "buildSinks (bwDecoders w) (bwSinkErr w) (cOutput cfg) = (l, Inl x)" for l x
    using buildSinks_closed [of "bwDecoders w" "bwSinkErr w" "cOutput cfg"] by (simp add: that)
  have c: "l = cl" if "buildSinks (bwDecoders w) (bwSinkErr w) (cOutput cfg) = (l, Inr (fan, cl))" for l fan cl
    using buildSinks_closed [of "bwDecoders w" "bwSinkErr w" "cOutput cfg"] by (simp add: that)
  show ?thesis using assms unfolding newServer_def Let_def
    by (auto split: option.splits sum.splits prod.splits if_splits dest!: s c simp: removeAll_filter_not_eq)
qed

lemma newServer_built:
  assumes "newServer w deco cfg = (rs, Inr s)"
  obtains m0 m1 left qs where "validateFrameBoot (bwTemplates w) (bwLookPath w) cfg = None" "buildModerator (bwFactories w) (bwGetenv w) cfg = Inr m0"
    "validateProviderLabelBoot cfg m0 = None" "(case deco of None \<Rightarrow> Inr m0 | Some fn \<Rightarrow> applyModeratorDecorator m0 fn) = Inr m1"
    "bsModerator s = InstrumentModerator m1" "bsPipeline s = buildPipeline (bwNumber w) cfg (InstrumentModerator m1)"
    "rs = RModerator # (if bsAudit s = None then [] else [RAudit]) @ map RSinkFile (bsSinkFiles s) @ qs" "newQueue w cfg = (qs, Inr (bsQueue s))"
proof -
  have c: "l = cl" if "buildSinks (bwDecoders w) (bwSinkErr w) (cOutput cfg) = (l, Inr (fan, cl))" for l fan cl
    using buildSinks_closed [of "bwDecoders w" "bwSinkErr w" "cOutput cfg"] by (simp add: that)
  show thesis using assms unfolding newServer_def Let_def
    by (auto split: option.splits sum.splits prod.splits dest!: c intro!: that)
qed

lemma decorator_keeps:
  assumes "(case deco of None \<Rightarrow> Inr m0 | Some fn \<Rightarrow> applyModeratorDecorator m0 fn) = Inr m1"
  shows "mModelVersion m0 \<noteq> None \<longrightarrow> mModelVersion m1 \<noteq> None" "mAnalyzeVideo m0 \<noteq> None \<longrightarrow> mAnalyzeVideo m1 \<noteq> None"
  using assms by (auto simp: applyModeratorDecorator_def split: option.splits if_splits)

definition reportsHarm :: "JobOutcome \<Rightarrow> bool" where
  "reportsHarm out \<longleftrightarrow> (\<exists>env r. oEnv out = Some env \<and> eResult env = Some r \<and> ovVerdict (Overall r) \<noteq> VerdictAllow)"

lemma scanExit_simp: "scanExit out exit = (if oDisp out \<noteq> Ack then 2 else if reportsHarm out \<and> exit = 0 then 1 else exit)"
  by (simp add: scanExit_def reportsHarm_def)

text \<open>One input, then the rest.\<close>

lemma scanLoop_Cons:
  assumes "scanLoop p w opts meta i (path # paths) exit = Ret (outs, Inr code)"
  obtains absPath out rest where "swAbs w path = Inr absPath" "swStat w absPath = None"
    "ProcessJob p (swJob w i) (scanJob w opts meta i absPath) = Ret out"
    "scanLoop p w opts meta (i + 1) paths (scanExit out exit) = Ret (rest, Inr code)" "outs = out # rest"
  using assms by (auto split: sum.splits option.splits call.splits prod.splits)

lemma scanLoop_code:
  "scanLoop p w opts meta i paths exit = Ret (outs, Inr code) \<Longrightarrow>
     code = (if list_ex (\<lambda>x. oDisp x \<noteq> Ack) outs then 2 else if exit \<noteq> 0 then exit else if list_ex reportsHarm outs then 1 else 0)"
proof (induction paths arbitrary: i exit outs)
  case (Cons path paths)
  obtain out rest where r: "scanLoop p w opts meta (i + 1) paths (scanExit out exit) = Ret (rest, Inr code)" "outs = out # rest"
    using scanLoop_Cons [OF Cons.prems] by blast
  show ?case using Cons.IH [OF r(1)] by (auto simp: r(2) scanExit_simp)
qed simp

lemma scanLoop_outcomes:
  "scanLoop p w opts meta i paths exit = Ret (outs, Inr code) \<Longrightarrow>
     length outs = length paths \<and> (\<forall>k < length outs. \<exists>absPath. swAbs w (paths ! k) = Inr absPath \<and> swStat w absPath = None
       \<and> ProcessJob p (swJob w (i + k)) (scanJob w opts meta (i + k) absPath) = Ret (outs ! k))"
proof (induction paths arbitrary: i exit outs)
  case (Cons path paths)
  obtain absPath out rest where r: "swAbs w path = Inr absPath" "swStat w absPath = None"
    "ProcessJob p (swJob w i) (scanJob w opts meta i absPath) = Ret out"
    "scanLoop p w opts meta (i + 1) paths (scanExit out exit) = Ret (rest, Inr code)" "outs = out # rest"
    using scanLoop_Cons [OF Cons.prems] by blast
  show ?case using Cons.IH [OF r(4)] r(1,2,3) by (auto simp: r(5) nth_Cons split: nat.split)
qed simp

lemma runScan_scans:
  assumes "runScan bw w cfg args opts = Ret (outs, Inr code)"
  obtains m meta where "buildModerator (bwFactories bw) (bwGetenv bw) cfg = Inr m" "validateProviderLabelBoot cfg m = None"
    "ValidateMetadata (scMetadata opts) = Inr meta" "scanLoop (buildPipeline (bwNumber bw) cfg m) w opts meta 0 args 0 = Ret (outs, Inr code)"
  using assms by (auto simp: runScan_def Let_def split: option.splits sum.splits if_splits)

section \<open>Properties\<close>

text \<open>
  C38. Boot is all or nothing. A failed boot leaves nothing open, except the client of a Redis that did not answer;
  closing a booted server leaves nothing open but the Redis client. A booted server has passed the guardrails on
  every workflow and the label check on the adapter itself, and neither a decorator nor the metrics wrapper has
  taken the model version or the video path away from what the pipeline sees.
\<close>

theorem boot_all_or_nothing:
  "(\<forall>left e. newServer w deco cfg = (left, Inl e) \<longrightarrow>
      left = [] \<or> set left = {RRedis} \<and> qsDriver (cQueue cfg) = ''redis'' \<and> bwPing w \<noteq> None)
   \<and> (\<forall>rs s. newServer w deco cfg = (rs, Inr s) \<longrightarrow>
      set (closeServer s rs) = (if \<exists>r. bsQueue s = QRedis r then {RRedis} else {})
      \<and> (\<forall>(n, wfc) \<in> set (FFmpegConfig.Workflows (cFFmpeg cfg)). ValidateWorkflow (bwTemplates w) n wfc (cFFmpeg cfg) = None)
      \<and> (\<exists>m. buildModerator (bwFactories w) (bwGetenv w) cfg = Inr m \<and> validateProviderLabelBoot cfg m = None
           \<and> (mModelVersion m \<noteq> None \<longrightarrow> mModelVersion (bsModerator s) \<noteq> None)
           \<and> (mAnalyzeVideo m \<noteq> None \<longrightarrow> mAnalyzeVideo (pModerator (bsPipeline s)) \<noteq> None)))"
proof (intro conjI allI impI)
  fix left e
  assume f: "newServer w deco cfg = (left, Inl e)"
  show "left = [] \<or> set left = {RRedis} \<and> qsDriver (cQueue cfg) = ''redis'' \<and> bwPing w \<noteq> None"
    using newServer_failed [OF f] newQueue_open by (metis empty_iff empty_set set_empty subset_empty subset_singleton_iff)
next
  fix rs s
  assume "newServer w deco cfg = (rs, Inr s)"
  then obtain m0 m1 qs where b: "validateFrameBoot (bwTemplates w) (bwLookPath w) cfg = None" "buildModerator (bwFactories w) (bwGetenv w) cfg = Inr m0"
    "validateProviderLabelBoot cfg m0 = None" "(case deco of None \<Rightarrow> Inr m0 | Some fn \<Rightarrow> applyModeratorDecorator m0 fn) = Inr m1"
    "bsModerator s = InstrumentModerator m1" "bsPipeline s = buildPipeline (bwNumber w) cfg (InstrumentModerator m1)"
    "rs = RModerator # (if bsAudit s = None then [] else [RAudit]) @ map RSinkFile (bsSinkFiles s) @ qs" "newQueue w cfg = (qs, Inr (bsQueue s))"
    by (rule newServer_built)
  note q = newQueue_open [OF b(8)]
  have "set (closeServer s rs) = set qs" using q by (auto simp: closeServer_def Let_def b(7) split: if_splits)
  then show "set (closeServer s rs) = (if \<exists>r. bsQueue s = QRedis r then {RRedis} else {})" using q by (cases qs) auto
  show "\<forall>(n, wfc) \<in> set (FFmpegConfig.Workflows (cFFmpeg cfg)). ValidateWorkflow (bwTemplates w) n wfc (cFFmpeg cfg) = None"
    using b(1) ValidateAll_each by (fastforce simp: validateFrameBoot_def split: option.splits)
  show "\<exists>m. buildModerator (bwFactories w) (bwGetenv w) cfg = Inr m \<and> validateProviderLabelBoot cfg m = None
      \<and> (mModelVersion m \<noteq> None \<longrightarrow> mModelVersion (bsModerator s) \<noteq> None)
      \<and> (mAnalyzeVideo m \<noteq> None \<longrightarrow> mAnalyzeVideo (pModerator (bsPipeline s)) \<noteq> None)"
    using b(2,3) decorator_keeps [OF b(4)] by (auto simp: b(5,6) buildPipeline_def moderatorOf_def InstrumentModerator_fields)
qed

text \<open>
  C39. The exit code of a scan tells the worst outcome: every input was resolved and processed, in order; the code is
  2 when some job was not acknowledged, otherwise 1 when some verdict is not allow, and 0 only when every job was
  acknowledged and no result says anything but allow.
\<close>

theorem scan_exit_tells_worst:
  assumes "runScan bw w cfg args opts = Ret (outs, Inr code)"
  shows "length outs = length args
    \<and> (\<exists>p meta. \<forall>k < length outs. \<exists>absPath. swAbs w (args ! k) = Inr absPath \<and> swStat w absPath = None
         \<and> ProcessJob p (swJob w k) (scanJob w opts meta k absPath) = Ret (outs ! k))
    \<and> code = (if list_ex (\<lambda>x. oDisp x \<noteq> Ack) outs then 2 else if list_ex reportsHarm outs then 1 else 0)"
proof -
  obtain p meta where l: "scanLoop p w opts meta 0 args 0 = Ret (outs, Inr code)" using runScan_scans [OF assms] by blast
  have "code = (if list_ex (\<lambda>x. oDisp x \<noteq> Ack) outs then 2 else if list_ex reportsHarm outs then 1 else 0)"
    using scanLoop_code [OF l] by simp
  then show ?thesis using scanLoop_outcomes [OF l] by (metis add_0)
qed

section \<open>Witnesses\<close>

text \<open>A worker with no adapter linked in, the default workflows, no audit log and the standard output.\<close>

definition bootConfig :: Config where
  "bootConfig = Defaults\<lparr>cAudit := \<lparr>acEnabled = False, acPath = []\<rparr>\<rparr>"

definition bootWorld :: BootWorld where
  "bootWorld = \<lparr>bwTemplates = miniTemplates, bwLookPath = \<lambda>b. None, bwFactories = [], bwGetenv = \<lambda>k. [], bwDisk = undefined, bwAuditErr = None,
     bwDecoders = demoDecoders, bwSinkErr = \<lambda>i. None, bwPing = None, bwInstance = ''i-0'', bwNumber = \<lambda>q. []\<rparr>"

lemma bootConfig_fields: "cFFmpeg bootConfig = cFFmpeg Defaults" "cOutput bootConfig = \<lparr>ocSinks = [stdoutSink], AllowUnrouted = False\<rparr>"
  "cAudit bootConfig = \<lparr>acEnabled = False, acPath = []\<rparr>" "cAdapter bootConfig = \<lparr>asName = [], asOptions = []\<rparr>"
  "qsDriver (cQueue bootConfig) = ''memory''"
  by (simp_all add: bootConfig_def Defaults_def)

lemma boot_passes:
  "validateFrameBoot miniTemplates (\<lambda>b. None) bootConfig = None" "buildModerator [] g bootConfig = Inr devFakeModerator"
  "validateProviderLabelBoot bootConfig devFakeModerator = None" "openAudit d x bootConfig = Inr None"
proof -
  have "FFmpegPath (cFFmpeg Defaults) = ''ffmpeg''" "FFprobePath (cFFmpeg Defaults) = ''ffprobe''" by (simp_all add: Defaults_def)
  then show "validateFrameBoot miniTemplates (\<lambda>b. None) bootConfig = None"
    by (simp add: validateFrameBoot_def ValidateBinaries_def bootConfig_fields defaults_pass_guardrails)
qed (simp_all add: buildModerator_def bootConfig_fields Registered_def validateProviderLabelBoot_def devFakeModerator_def openAudit_def)

lemma boot_sinks: "\<exists>fan. buildSinks demoDecoders (\<lambda>i. None) (cOutput bootConfig) = ([], Inr (fan, []))"
  using demo_formatter by (simp add: buildSinks_def bootConfig_fields stdoutSink_def buildTransport_def addSink_def NewMultiSink_def
      emptyPredicate_def PredicateIsEmpty_def Let_def string_eval)

theorem boot_all_or_nothing_witness:
  "\<exists>rs s. newServer bootWorld None bootConfig = (rs, Inr s) \<and> rs = [RModerator] \<and> set (closeServer s rs) = {}"
proof -
  obtain fan where fan: "buildSinks demoDecoders (\<lambda>i. None) (cOutput bootConfig) = ([], Inr (fan, []))" using boot_sinks by blast
  obtain rs s where b: "newServer bootWorld None bootConfig = (rs, Inr s)" "rs = [RModerator]" "\<exists>q. bsQueue s = QMem q"
    using boot_passes fan by (simp add: newServer_def bootWorld_def newQueue_def bootConfig_fields Let_def)
  then show ?thesis using boot_all_or_nothing [of bootWorld None bootConfig] by auto
qed

definition demoScan :: ScanWorld where
  "demoScan = \<lparr>swAbs = Inr, swStat = \<lambda>p. None, swNow = \<lambda>i. 7, swJob = \<lambda>i. demoWorld\<rparr>"

theorem scan_exit_tells_worst_witness:
  "\<exists>outs code. runScan bootWorld demoScan bootConfig [''/a.png''] (scanOptionsFrom [] None None) = Ret (outs, Inr code)
     \<and> length outs = 1 \<and> code = (if list_ex (\<lambda>x. oDisp x \<noteq> Ack) outs then 2 else if list_ex reportsHarm outs then 1 else 0)"
proof -
  have m: "mediaTypeFor ''/a.png'' = ''image''" by code_simp
  obtain fan where fan: "buildSinks demoDecoders (\<lambda>i. None) (cOutput bootConfig) = ([], Inr (fan, []))" using boot_sinks by blast
  let ?p = "buildPipeline (\<lambda>q. []) bootConfig devFakeModerator"
  let ?o = "scanOptionsFrom [] None None"
  obtain out where out: "ProcessJob ?p demoWorld (scanJob demoScan ?o [] 0 ''/a.png'') = Ret out"
    by (simp add: ProcessJob_def evaluateJob_def resolveSource_def scanJob_def scanOptionsFrom_def demoScan_def ValidateMetadata_def m
        buildPipeline_def moderatorOf_def devFakeModerator_def demoWorld_def processImage_def evaluateFrame_def sniffMIME_def Let_def)
  have v: "validateWorkflowSelection bootConfig (scWorkflows ?o) = None" "validateDedupThreshold (scDedupThreshold ?o) h = None"
    "ValidateMetadata (scMetadata ?o) = Inr []" for h
    by (simp_all add: scanOptionsFrom_def validateWorkflowSelection_def firstBad_def validateDedupThreshold_def ValidateMetadata_def)
  have l: "scanLoop ?p demoScan ?o [] 0 [''/a.png''] 0 = Ret ([out], Inr (scanExit out 0))"
    using out by (simp add: demoScan_def)
  have r: "runScan bootWorld demoScan bootConfig [''/a.png''] ?o = Ret ([out], Inr (scanExit out 0))"
    using l boot_passes fan v by (simp add: runScan_def bootWorld_def m Let_def del: scanLoop.simps)
  show ?thesis using scan_exit_tells_worst [OF r] r by auto
qed

text \<open>A later input that is missing stops the command with an error after the earlier ones were processed.\<close>

lemma missing_input_stops_late:
  assumes "ProcessJob p (swJob w 0) (scanJob w opts meta 0 a) = Ret out" "swAbs w x = Inr a" "swStat w a = None"
    "swAbs w y = Inr b" "swStat w b = Some e"
  shows "scanLoop p w opts meta 0 [x, y] 0 = Ret ([out], Inl (wrapf (''input '' @ y @ '': '') e))"
  using assms by simp

end
