(* ===== verification/Ui.thy ===== *)
theory Ui
  imports Redisq Serve
begin

text \<open>
  The operator page (\<open>internal/ui/ui.go\<close>): its authentication, the status document it computes from the queue, the
  statistics and the configuration, and the switch that pauses and resumes intake. The facts follow the switch into
  the intake of \<open>Intake\<close>. The embedded page, the encoding of the document and the listener are left out; a status
  request is answered from one instant.
\<close>

section \<open>The server (ui.go)\<close>

record uiServer =
  suConfig :: Config
  suUser :: string
  suPass :: string

definition uiNew :: "(string \<Rightarrow> string) \<Rightarrow> Config \<Rightarrow> uiServer" where
  "uiNew getenv cfg = \<lparr>suConfig = cfg, suUser = getenv ''VISMOD_UI_USER'', suPass = getenv ''VISMOD_UI_PASSWORD''\<rparr>"

text \<open>What the server reads through the queue, its dead-letter sink, \<open>statesOf\<close> and \<open>activeOf\<close>. A view the driver
  does not offer is \<open>None\<close>; \<open>uvUptime\<close> is the whole seconds since the start.\<close>

record uiViews =
  uvUptime :: int
  uvDepth :: "int res"
  uvDLQ :: "int res option"
  uvActive :: "int option"
  uvStates :: "(JobID \<times> string) list option"
  uvTracker :: "JobTracker option"

definition memViews :: "int \<Rightarrow> Memq \<Rightarrow> JobTracker option \<Rightarrow> uiViews" where
  "memViews up q tr =
     \<lparr>uvUptime = up, uvDepth = Inr (QueueDepth q), uvDLQ = Some (Inr (MemDLQ_Depth (mdlq q))), uvActive = Some (ActiveWorkers q),
      uvStates = Some (mstates q), uvTracker = tr\<rparr>"

text \<open>The number of busy workers of a replica is an argument, and so is the answer of its server.\<close>

definition redisViews :: "int \<Rightarrow> 'r Redis \<Rightarrow> int \<Rightarrow> 'r \<Rightarrow> JobTracker option \<Rightarrow> uiViews" where
  "redisViews up R busy r tr =
     \<lparr>uvUptime = up, uvDepth = Inr (int (rQueueDepth R r)), uvDLQ = Some (Inr (redisDLQ_Depth R r)), uvActive = Some busy, uvStates = None, uvTracker = tr\<rparr>"

section \<open>The status document (ui.go)\<close>

record statusPayload =
  UptimeSec :: int
  spQueueDriver :: string
  spQueueDepth :: int
  spDLQDepth :: int
  spWorkersActive :: int
  spWorkersPool :: int
  spIntakePaused :: bool
  spJobStates :: "string \<rightharpoonup> int"
  spAdapter :: string
  spThresholds :: Thresholds
  spWorkflows :: "(string \<times> WorkflowConfig) list"
  spDefaultWF :: string
  spMaxFrames :: int
  spMaxWidth :: int
  spMetricsAddr :: string
  spVerdicts :: "VerdictStats option"
  spFrames :: "FrameStats option"
  spRecentJobs :: "JobRecord list option"

definition countState :: "(string \<rightharpoonup> int) \<Rightarrow> string \<Rightarrow> (string \<rightharpoonup> int)" where
  "countState m st = m(st \<mapsto> (case m st of None \<Rightarrow> 0 | Some n \<Rightarrow> n) + 1)"

definition jobStateCounts :: "(JobID \<times> string) list \<Rightarrow> (string \<rightharpoonup> int)" where
  "jobStateCounts sts = foldl (\<lambda>m (job, st). countState m st) Map.empty sts"

text \<open>Without a tracker the statistics are the zero value, here \<open>None\<close>. The argument \<open>quot\<close> is as in \<open>Observe\<close>.\<close>

definition uiStatus :: "(int \<Rightarrow> int \<Rightarrow> float64) \<Rightarrow> uiServer \<Rightarrow> uiViews \<Rightarrow> intakeSwitch option \<Rightarrow> statusPayload" where
  "uiStatus quot s v sw =
     (let cfg = suConfig s in
      \<lparr>UptimeSec = uvUptime v, spQueueDriver = qsDriver (cQueue cfg),
       spQueueDepth = (case uvDepth v of Inr d \<Rightarrow> d | Inl e \<Rightarrow> 0),
       spDLQDepth = (case uvDLQ v of Some (Inr d) \<Rightarrow> d | _ \<Rightarrow> 0),
       spWorkersActive = (case uvActive v of Some n \<Rightarrow> n | None \<Rightarrow> 0),
       spWorkersPool = qsWorkers (cQueue cfg),
       spIntakePaused = (case sw of Some b \<Rightarrow> IntakePaused b | None \<Rightarrow> False),
       spJobStates = (case uvStates v of Some sts \<Rightarrow> jobStateCounts sts | None \<Rightarrow> Map.empty),
       spAdapter = asName (cAdapter cfg), spThresholds = cThresholds cfg,
       spWorkflows = FFmpegConfig.Workflows (cFFmpeg cfg), spDefaultWF = DefaultWorkflow (cFFmpeg cfg),
       spMaxFrames = MaxFrames (cFFmpeg cfg), spMaxWidth = MaxWidth (cFFmpeg cfg), spMetricsAddr = cMetricsAddr cfg,
       spVerdicts = map_option (\<lambda>t. snd (Snapshot quot t)) (uvTracker v),
       spFrames = map_option (FrameSnapshot quot) (uvTracker v),
       spRecentJobs = map_option (\<lambda>t. fst (Snapshot quot t)) (uvTracker v)\<rparr>)"

section \<open>Requests (ui.go)\<close>

datatype uiRoute = GetPage string | GetFavicon | GetAPIStatus | PostPause | PostResume

record uiRequest =
  urRoute :: uiRoute
  urCreds :: "(string \<times> string) option"

datatype uiReply = UiError HttpResponse | UiPage | UiNoContent | UiStatus statusPayload

definition uiDenied :: "uiServer \<Rightarrow> (string \<times> string) option \<Rightarrow> HttpResponse option" where
  "uiDenied s creds =
     (if uiAuth (cUI (suConfig s)) = ''none'' then None
      else if suUser s = [] \<or> suPass s = [] then
        Some (httpErrorText ''ui auth is 'basic' but VISMOD_UI_USER/VISMOD_UI_PASSWORD are not set'' 503)
      else if creds = None \<or> fst (the creds) \<noteq> suUser s \<or> snd (the creds) \<noteq> suPass s then
        Some ((httpErrorText ''unauthorized'' 401)\<lparr>rspAuthenticate := Some (''Basic realm='' @ quoted ''vismod'')\<rparr>)
      else None)"

text \<open>A handler gets the switch and gives it back with the reply.\<close>

definition uiIndex :: "string \<Rightarrow> uiReply" where
  "uiIndex path = (if path \<noteq> ''/'' then UiError (httpErrorText ''404 page not found'' 404) else UiPage)"

definition uiPause :: "intakeSwitch option \<Rightarrow> intakeSwitch option \<times> uiReply" where
  "uiPause sw = (case sw of None \<Rightarrow> (None, UiError (httpErrorText ''intake control unavailable'' 501))
                          | Some b \<Rightarrow> (Some (PauseIntake b), UiNoContent))"

definition uiResume :: "intakeSwitch option \<Rightarrow> intakeSwitch option \<times> uiReply" where
  "uiResume sw = (case sw of None \<Rightarrow> (None, UiError (httpErrorText ''intake control unavailable'' 501))
                           | Some b \<Rightarrow> (Some (ResumeIntake b), UiNoContent))"

definition uiHandle :: "(int \<Rightarrow> int \<Rightarrow> float64) \<Rightarrow> uiServer \<Rightarrow> uiViews \<Rightarrow> uiRequest \<Rightarrow> intakeSwitch option \<Rightarrow> intakeSwitch option \<times> uiReply" where
  "uiHandle quot s v rq sw =
     (let auth = (\<lambda>next. case uiDenied s (urCreds rq) of Some r \<Rightarrow> (sw, UiError r) | None \<Rightarrow> next) in
      case urRoute rq of
        GetPage path \<Rightarrow> auth (sw, uiIndex path)
      | GetFavicon \<Rightarrow> (sw, UiNoContent)
      | GetAPIStatus \<Rightarrow> auth (sw, UiStatus (uiStatus quot s v sw))
      | PostPause \<Rightarrow> auth (uiPause sw)
      | PostResume \<Rightarrow> auth (uiResume sw))"

section \<open>Facts\<close>

text \<open>The counts: a state is listed with the number of jobs in it, whatever the order of the map.\<close>

lemma countState_fold:
  "foldl (\<lambda>m (job, st). countState m st) m sts v =
     (let n = length (filter (\<lambda>(job, st). st = v) sts) in if n = 0 then m v else Some ((case m v of None \<Rightarrow> 0 | Some k \<Rightarrow> k) + int n))"
  by (induction sts arbitrary: m) (auto simp: countState_def Let_def split: option.splits)

lemma jobStateCounts_value:
  "jobStateCounts sts v = (let n = count (image_mset snd (mset sts)) v in if n = 0 then None else Some (int n))"
proof -
  have "length (filter (\<lambda>(job, st). st = v) sts) = count (image_mset snd (mset sts)) v"
    by (induction sts) auto
  then show ?thesis unfolding jobStateCounts_def countState_fold by (auto simp: Let_def count_eq_zero_iff simp del: count_image_mset)
qed

lemma jobStateCounts_anonymous:
  "image_mset snd (mset sts) = image_mset snd (mset sts') \<Longrightarrow> jobStateCounts sts = jobStateCounts sts'"
  by (rule ext) (simp add: jobStateCounts_value)

text \<open>The status document says of the queue's jobs only how many are in each state.\<close>

lemma status_hides_identifiers:
  assumes "image_mset snd (mset sts) = image_mset snd (mset sts')"
  shows "uiStatus quot s (v\<lparr>uvStates := Some sts\<rparr>) sw = uiStatus quot s (v\<lparr>uvStates := Some sts'\<rparr>) sw"
  using jobStateCounts_anonymous [OF assms] by (simp add: uiStatus_def Let_def)

text \<open>It does carry the reference of every recent job.\<close>

lemma status_shows_references:
  assumes "uvTracker v = Some t" "rec \<in> set (jtRing t)"
  shows "\<exists>recs. spRecentJobs (uiStatus quot s v sw) = Some recs \<and> jrRef rec \<in> jrRef ` set recs"
  using assms by (simp add: uiStatus_def Snapshot_def Let_def)

lemma uiDenied_None:
  "uiDenied s creds = None \<longleftrightarrow> uiAuth (cUI (suConfig s)) = ''none'' \<or> suUser s \<noteq> [] \<and> suPass s \<noteq> [] \<and> creds = Some (suUser s, suPass s)"
  by (cases creds) (auto simp: uiDenied_def)

lemma uiDenied_status: "uiDenied s creds = Some r \<Longrightarrow> rspStatus r = 401 \<or> rspStatus r = 503"
  by (auto simp: uiDenied_def httpErrorText_def split: if_splits)

text \<open>What the page does to the switch.\<close>

lemma uiHandle_switch:
  "fst (uiHandle quot s v rq sw) =
     (if sw = None \<or> uiDenied s (urCreds rq) \<noteq> None then sw
      else if urRoute rq = PostPause then Some True else if urRoute rq = PostResume then Some False else sw)"
  by (auto simp: uiHandle_def uiPause_def uiResume_def PauseIntake_def ResumeIntake_def Let_def split: option.splits uiRoute.splits)

lemma uiHandle_denied:
  "uiDenied s (urCreds rq) = Some r \<Longrightarrow> urRoute rq \<noteq> GetFavicon \<Longrightarrow> uiHandle quot s v rq sw = (sw, UiError r)"
  by (cases "urRoute rq") (simp_all add: uiHandle_def Let_def)

section \<open>The page and the intake together (serve.go)\<close>

text \<open>The requests of both listeners in the order they are served; only replies of the intake are kept.\<close>

datatype Served = Page uiViews uiRequest | Post IntakeWorld string

fun serveAll ::
  "(int \<Rightarrow> int \<Rightarrow> float64) \<Rightarrow> uiServer \<Rightarrow> ('q \<Rightarrow> Job \<Rightarrow> 'q \<times> JobID res) \<Rightarrow> 'q IntakeState \<Rightarrow> Served list \<Rightarrow> ('q IntakeState \<times> HttpResponse list) call" where
  "serveAll quot s enq st [] = Ret (st, [])"
| "serveAll quot s enq st (Page v rq # es) = serveAll quot s enq (st\<lparr>isSwitch := fst (uiHandle quot s v rq (isSwitch st))\<rparr>) es"
| "serveAll quot s enq st (Post w body # es) =
     (case postJobs enq (suConfig s) w body st of
        Panicked m \<Rightarrow> Panicked m
      | Ret (st', r) \<Rightarrow>
          (case serveAll quot s enq st' es of
             Panicked m \<Rightarrow> Panicked m
           | Ret (st'', rs) \<Rightarrow> Ret (st'', r # rs)))"

definition resumes :: "uiServer \<Rightarrow> Served \<Rightarrow> bool" where
  "resumes s e = (case e of Page v rq \<Rightarrow> urRoute rq = PostResume \<and> uiDenied s (urCreds rq) = None | Post w body \<Rightarrow> False)"

lemma postJobs_paused:
  "isSwitch st = Some True \<Longrightarrow> \<exists>msg. postJobs enq cfg w body st = Ret (st, retryLater msg)"
  by (cases "Ready (isBp st)") (auto simp: postJobs_def IntakePaused_def)

lemma page_keeps_pause:
  "isSwitch st = Some True \<Longrightarrow> \<not> resumes s (Page v rq) \<Longrightarrow> st\<lparr>isSwitch := fst (uiHandle quot s v rq (isSwitch st))\<rparr> = st"
  by (auto simp: uiHandle_switch resumes_def)

lemma serveAll_paused:
  assumes "isSwitch st = Some True" "list_all (\<lambda>e. \<not> resumes s e) es"
  shows "\<exists>rs. serveAll quot s enq st es = Ret (st, rs) \<and> list_all (\<lambda>r. rspStatus r = 503 \<and> rspRetryAfter r = Some ''30'') rs
     \<and> length rs = length (filter (\<lambda>e. \<exists>w body. e = Post w body) es)"
  using assms(2)
proof (induction es)
  case (Cons e es)
  then obtain rs where rs: "serveAll quot s enq st es = Ret (st, rs)" "list_all (\<lambda>r. rspStatus r = 503 \<and> rspRetryAfter r = Some ''30'') rs"
    "length rs = length (filter (\<lambda>e. \<exists>w body. e = Post w body) es)" by auto
  show ?case
  proof (cases e)
    case (Page v rq)
    then show ?thesis using rs page_keeps_pause [OF assms(1), of s v rq quot] Cons.prems by simp
  next
    case (Post w body)
    obtain msg where "postJobs enq (suConfig s) w body st = Ret (st, retryLater msg)" using postJobs_paused [OF assms(1)] by blast
    then show ?thesis using rs Post by (simp add: retryLater_def httpErrorText_def)
  qed
qed simp


section \<open>Witness\<close>

definition demoPage :: uiServer where
  "demoPage = uiNew (\<lambda>k. ''ops'') Defaults"

definition demoViews :: uiViews where
  "demoViews = memViews 60 (NewMemq demoCfg) None"

definition pauseRequest :: uiRequest where
  "pauseRequest = \<lparr>urRoute = PostPause, urCreds = Some (''ops'', ''ops'')\<rparr>"

definition lateRequests :: "Served list" where
  "lateRequests = [Post demoIntake [], Page demoViews \<lparr>urRoute = PostResume, urCreds = Some (''ops'', ''guess'')\<rparr>, Post demoIntake []]"


end
