(* ===== verification/Spec2Isabelle.thy ===== *)
theory Spec2Isabelle
  imports Redisq Serve Workflow Adapters Boot Ui
begin

text \<open>
  A verification development of vismod, a worker that moderates images and videos through one configured provider
  and fails safe: what could not be evaluated is an error, never an allow.

  The program. A job enters over HTTP (\<open>POST /jobs\<close>), over Redis, or as an argument of the scan command. A queue driver
  hands it to the worker handler, which runs the pipeline: the source is resolved (a URL is downloaded under an address
  policy), a video is cut into frames by FFmpeg workflows and near-duplicates are dropped, every frame goes to the
  adapter of the provider, thresholds are applied to the scores and the frames are rolled up to one verdict. The result
  envelope is delivered to the configured sinks, its digest is appended to a hash-chained audit log, and the outcome is
  reported to the read side, to the statistics and to the backpressure tracker that opens and closes intake.

  Representation (\<open>Prelude\<close>). Go structs are records, strings are lists of bytes, maps are association lists, machine
  integers are words or integers with the wrap-around written out, a float64 is NaN, an infinity or a rational, an error
  is its message with the sentinels \<open>errors.Is\<close> finds, a fallible call is \<open>goerr + 'a\<close>, and a call that may panic is
  \<open>'a call\<close>. What the operating system, the network, the clock, a third-party package or a decoder gives back is an
  argument, collected in a record of outcomes per component (a world).

  \<^item> Contract: \<open>Moderation\<close> is \<open>pkg/moderation\<close>. \<open>Queue\<close> is \<open>internal/queue/queue.go\<close> with the envelope.
  \<^item> Decisions: \<open>Thresholds\<close> (the merged threshold map and its resolution, \<open>internal/config\<close>) and \<open>Rollup\<close>
    (\<open>internal/pipeline/rollup.go\<close>): the verdict is the precedence block, error, flag, allow, and the reported maximum is one.
  \<^item> Pipeline: \<open>Pipeline\<close> is \<open>internal/pipeline/pipeline.go\<close>. An acknowledgement has a cause, what cannot be evaluated is an
    error, the result does not depend on the order in which frames complete, and an envelope carries nothing it must not.
  \<^item> Media: \<open>Fetch\<close> (\<open>internal/fetch\<close>: the address policies, the URL rules, the download loop), \<open>Workflow\<close> (\<open>workflow.go\<close> and
    \<open>ffmpeg.go\<close>: the guardrails on argument templates, what they confine a rendered command line to, the extraction budget and
    the ownership of the directory) and \<open>Frames\<close> (de-duplication, the difference hash and the streaming scanner, which refines
    the scan of the whole text).
  \<^item> Providers: \<open>Httpx\<close> (the retry loop, the limiter, the registry) and \<open>Adapters\<close> (the four adapters under
    \<open>internal/moderate/adapters\<close>). The locale \<open>adapter_contract\<close> is what the pipeline needs of an adapter; each adapter
    interprets it, and the frames of a job are judged by facts of the locale.
  \<^item> Delivery: \<open>Sinks\<close> (claims, line, webhook and routed sinks, the fan-out that delivers once under retries), \<open>Format\<close> (the
    formats and the limits of the chat destination), and \<open>AuditLog\<close> over \<open>Jcs\<close> (canonical JSON) and \<open>Sha256\<close>: every reachable
    log verifies, truncation below the head and a second record of a job are refused, and two logs under one head agree or
    exhibit a collision. \<open>Fingerprint\<close> is the configuration hash, \<open>Json\<close> the scanner of \<open>encoding/json\<close>.
  \<^item> Queues: \<open>Memq\<close> and \<open>Redisq\<close> are transition systems of the two drivers; the commands of Redis are a locale of
    documented laws, interpreted on a concrete store. No accepted job is lost, whatever the interleaving of replicas,
    crashes and reclaims, up to the losses a shutdown of the in-memory driver documents.
  \<^item> The process: \<open>Config\<close> (validation and loading), \<open>Wiring\<close> (sinks, moderator, pipeline), \<open>JobStore\<close> (the read side, which
    refines a bounded list in recency order), \<open>Intake\<close> (the HTTP handlers), \<open>Observe\<close> (backpressure, statistics), \<open>Serve\<close> (the
    worker handler and the running server, with what makes intake recover and what keeps it shut), \<open>Ui\<close> (the operator page
    and its switch, served beside intake in any order) and \<open>Boot\<close> (boot with the resources it holds, and the scan command
    with its exit code).

  Termination, bounds and fuel. Loops are recursive functions with a measure (the retry loops by the attempts left, the
  eviction loop by the entries left). Fuel occurs in two places: the drain of a dead replica takes any fuel above the
  length of its list, which is shown to empty it, and the reader of template fragments takes the length of its text, and every round
  consumes two characters or more. SHA-256 is computed, and its collision resistance is never assumed: a statement that
  needs it has the collision as its other case.

  Hypotheses. The laws of Redis commands, of the number form of \<open>encoding/json\<close>, of the template parser
  (\<open>templateLaws\<close>: a bare field is read as one, and text after it starts with its first character) and that every frame task
  completes; each holds in a witness on a concrete instance (\<open>miniParse\<close> reads the shipped workflows).

  Not modelled. The decoding of JSON documents into structs, of YAML and of images, the luma arithmetic of the difference
  hash, regular expressions beyond the ones written out, \<open>url.Parse\<close>, \<open>netip.ParseAddr\<close> and \<open>net.ParseIP\<close>, the vision SDK, the
  multipart writer, the file system and processes: arguments of the definitions. Case folding and \<open>TrimSpace\<close> leave bytes
  from 0x80 on alone. The Prometheus registry, loggers and listeners, signal handling and the order of shutdown, the
  embedded page of \<open>internal/ui\<close>, the command line glue of \<open>internal/cli\<close> and \<open>cmd/vismod\<close> and the golden-file test helper:
  input and output without decisions of their own.
\<close>

end
